(* ===== verification/Prelude.thy ===== *)
theory Prelude
  imports Main "HOL-Library.AList" "HOL-Library.Multiset"
begin

text \<open>
  Shared vocabulary of the development.

  \<^item> \<open>gomap\<close>: a Go map as an association list with distinct keys.  The position of an entry
    stands for the place the runtime gives it in a \<open>range\<close> loop; every theorem quantifies
    over all such lists, hence over all iteration orders, and results that come out of a
    \<open>range\<close> are stated up to order (as sets or multisets).
  \<^item> \<open>run\<close>: the result of code that may stop the goroutine or the process: a goroutine that
    waits for itself, a fatal error of the runtime, a panic.
  \<^item> the locale \<open>finite_map\<close>: what the components use of a map, with its laws; and the locale
    \<open>subscriptions\<close>: the contract shared by the room registry of the server and the room
    subscriptions of a node.
\<close>

named_theorems gomap_simps \<open>lookups after an update of a Go map\<close>
named_theorems wf_intros \<open>preservation of well-formedness\<close>

section \<open>Results of code that may stop\<close>

datatype halt =
    Deadlock            \<comment> \<open>the goroutine waits for itself\<close>
  | Fatal string        \<comment> \<open>unrecoverable runtime error\<close>
  | Panic string        \<comment> \<open>an unrecovered panic ends the process\<close>

type_synonym 'a run = "halt + 'a"

definition run_bind :: "'a run \<Rightarrow> ('a \<Rightarrow> 'b run) \<Rightarrow> 'b run" where
  "run_bind m f = (case m of Inl h \<Rightarrow> Inl h | Inr a \<Rightarrow> f a)"

lemma run_bind_simps [simp]:
  "run_bind (Inl h) f = Inl h"
  "run_bind (Inr a) f = f a"
  by (simp_all add: run_bind_def)

lemma run_bind_Inr_iff:
  "run_bind m f = Inr b \<longleftrightarrow> (\<exists>a. m = Inr a \<and> f a = Inr b)"
  by (cases m) auto

section \<open>Go maps\<close>

type_synonym ('k, 'v) gomap = "('k \<times> 'v) list"

abbreviation gm_get :: "('k, 'v) gomap \<Rightarrow> 'k \<Rightarrow> 'v option" where
  "gm_get \<equiv> map_of"

definition gm_put :: "'k \<Rightarrow> 'v \<Rightarrow> ('k, 'v) gomap \<Rightarrow> ('k, 'v) gomap" where
  "gm_put k v m = AList.update k v m"

definition gm_delete :: "'k \<Rightarrow> ('k, 'v) gomap \<Rightarrow> ('k, 'v) gomap" where
  "gm_delete k m = filter (\<lambda>e. fst e \<noteq> k) m"

definition gm_has :: "('k, 'v) gomap \<Rightarrow> 'k \<Rightarrow> bool" where
  "gm_has m k \<longleftrightarrow> gm_get m k \<noteq> None"

definition gm_keys :: "('k, 'v) gomap \<Rightarrow> 'k list" where
  "gm_keys m = map fst m"

definition gm_vals :: "('k, 'v) gomap \<Rightarrow> 'v list" where
  "gm_vals m = map snd m"

definition gm_len :: "('k, 'v) gomap \<Rightarrow> nat" where
  "gm_len m = length m"

definition gm_ok :: "('k, 'v) gomap \<Rightarrow> bool" where
  "gm_ok m \<longleftrightarrow> distinct (map fst m)"

lemma gm_get_put [simp, gomap_simps]:
  "gm_get (gm_put k v m) k' = (if k' = k then Some v else gm_get m k')"
  by (simp add: gm_put_def update_conv')

lemma gm_get_delete [simp, gomap_simps]:
  "gm_get (gm_delete k m) k' = (if k' = k then None else gm_get m k')"
  by (induction m) (auto simp: gm_delete_def)

lemma gm_ok_Nil [simp, wf_intros]: "gm_ok []"
  by (simp add: gm_ok_def)

lemma gm_ok_put [simp, wf_intros]: "gm_ok m \<Longrightarrow> gm_ok (gm_put k v m)"
  by (simp add: gm_ok_def gm_put_def distinct_update)

lemma gm_ok_delete [simp, wf_intros]: "gm_ok m \<Longrightarrow> gm_ok (gm_delete k m)"
  by (simp add: gm_ok_def gm_delete_def distinct_map_filter)

lemma gm_has_put [simp, gomap_simps]: "gm_has (gm_put k v m) k' \<longleftrightarrow> k' = k \<or> gm_has m k'"
  by (simp add: gm_has_def)

lemma gm_has_delete [simp, gomap_simps]: "gm_has (gm_delete k m) k' \<longleftrightarrow> k' \<noteq> k \<and> gm_has m k'"
  by (simp add: gm_has_def)

lemma gm_has_Nil [simp]: "\<not> gm_has [] k"
  by (simp add: gm_has_def)

lemma gm_has_keys: "gm_has m k \<longleftrightarrow> k \<in> set (gm_keys m)"
  by (auto simp: gm_has_def gm_keys_def map_of_eq_None_iff)

lemma gm_vals_iff: "gm_ok m \<Longrightarrow> v \<in> set (gm_vals m) \<longleftrightarrow> (\<exists>k. gm_get m k = Some v)"
  by (force simp: gm_ok_def gm_vals_def dest: map_of_SomeD)

lemma gm_entries_iff: "gm_ok m \<Longrightarrow> (k, v) \<in> set m \<longleftrightarrow> gm_get m k = Some v"
  by (auto simp: gm_ok_def)

lemma gm_len_0 [simp]: "gm_len m = 0 \<longleftrightarrow> m = []"
  by (simp add: gm_len_def)

lemma gm_len_keys: "gm_ok m \<Longrightarrow> gm_len m = card (set (gm_keys m))"
  using distinct_card [of "gm_keys m"] by (simp add: gm_len_def gm_ok_def gm_keys_def)

lemma gm_empty_iff: "m = [] \<longleftrightarrow> (\<forall>k. \<not> gm_has m k)"
  by (cases m) (auto simp: gm_has_def)

lemma gm_delete_absent: "\<not> gm_has m k \<Longrightarrow> gm_delete k m = m"
  by (auto simp: gm_delete_def gm_has_def map_of_eq_None_iff intro!: filter_True)

lemma gm_get_filter:
  "gm_get (filter (\<lambda>x. P (fst x)) m) k = (if P k then gm_get m k else None)"
  by (induction m) auto

lemma gm_keys_delete: "set (gm_keys (gm_delete k m)) = set (gm_keys m) - {k}"
  by (auto simp: gm_keys_def gm_delete_def)

lemma gm_keys_put: "set (gm_keys (gm_put k v m)) = insert k (set (gm_keys m))"
  by (auto simp: gm_has_keys [symmetric])

lemma gm_len_put: "gm_len (gm_put k v m) = (if gm_has m k then gm_len m else Suc (gm_len m))"
  by (induction m) (auto simp: gm_len_def gm_put_def gm_has_def)

lemma gm_len_delete:
  "gm_ok m \<Longrightarrow> gm_len (gm_delete k m) = (if gm_has m k then gm_len m - 1 else gm_len m)"
proof (induction m)
  case Nil
  then show ?case by (simp add: gm_delete_def)
next
  case (Cons e m)
  then have ok: "gm_ok m" and notin: "fst e \<notin> set (map fst m)"
    by (simp_all add: gm_ok_def)
  from notin have no: "fst e = k \<Longrightarrow> \<not> gm_has m k"
    by (auto simp: gm_has_def map_of_eq_None_iff)
  have pos: "gm_has m k \<Longrightarrow> gm_len m \<noteq> 0"
    by auto
  show ?case
    using Cons.IH [OF ok] no pos
    by (auto simp: gm_delete_def gm_has_def gm_len_def split: if_splits)
qed

section \<open>What the components use of a map\<close>

locale finite_map =
  fixes get :: "'m \<Rightarrow> 'k \<Rightarrow> 'v option"
    and put :: "'k \<Rightarrow> 'v \<Rightarrow> 'm \<Rightarrow> 'm"
    and del :: "'k \<Rightarrow> 'm \<Rightarrow> 'm"
    and emp :: "'m"
    and len :: "'m \<Rightarrow> nat"
    and ok :: "'m \<Rightarrow> bool"
  assumes get_emp: "get emp k = None"
    and get_put: "get (put k v m) = (get m)(k := Some v)"
    and get_del: "get (del k m) = (get m)(k := None)"
    and ok_emp: "ok emp"
    and ok_put: "ok m \<Longrightarrow> ok (put k v m)"
    and ok_del: "ok m \<Longrightarrow> ok (del k m)"
    and len_card: "ok m \<Longrightarrow> len m = card (dom (get m))"
    and fin: "finite (dom (get m))"
begin

lemma del_put_same: "get (del k (put k v m)) = (get m)(k := None)"
  by (simp add: get_put get_del)

lemma put_put_commute: "k \<noteq> k' \<Longrightarrow> get (put k v (put k' v' m)) = get (put k' v' (put k v m))"
  by (auto simp: get_put)

lemma len_put_fresh: "ok m \<Longrightarrow> get m k = None \<Longrightarrow> len (put k v m) = Suc (len m)"
  by (simp add: len_card ok_put get_put fin dom_def [symmetric] domIff)

lemma len_del_present: "ok m \<Longrightarrow> get m k = Some v \<Longrightarrow> Suc (len (del k m)) = len m"
  using card_Suc_Diff1 [OF fin [of m], of k] by (simp add: len_card ok_del get_del domI)

lemma len_zero_iff: "ok m \<Longrightarrow> len m = 0 \<longleftrightarrow> (\<forall>k. get m k = None)"
  using fin [of m] by (auto simp: len_card)

end

lemma gm_keys_dom: "set (gm_keys m) = dom (gm_get m)"
  by (simp add: gm_keys_def dom_map_of_conv_image_fst)

interpretation gm: finite_map gm_get gm_put gm_delete "[]" gm_len gm_ok
  by unfold_locales (auto simp: gm_len_keys gm_keys_dom finite_dom_map_of)

section \<open>Subscription registries\<close>

text \<open>
  The contract of a registry of memberships between names (rooms) and members (socket or
  process identifiers): the rooms of the server and the room subscriptions of a node.
\<close>

locale subscriptions =
  fixes wf :: "'s \<Rightarrow> bool"
    and mem :: "'s \<Rightarrow> 'r \<Rightarrow> 'i \<Rightarrow> bool"
    and join :: "'r \<Rightarrow> 'i \<Rightarrow> 's \<Rightarrow> 's"
    and leave :: "'r \<Rightarrow> 'i \<Rightarrow> 's \<Rightarrow> 's"
    and leave_all :: "'i \<Rightarrow> 's \<Rightarrow> 's"
  assumes mem_join: "wf s \<Longrightarrow> mem (join r i s) r' i' \<longleftrightarrow> (r' = r \<and> i' = i) \<or> mem s r' i'"
    and mem_leave: "wf s \<Longrightarrow> mem (leave r i s) r' i' \<longleftrightarrow> \<not> (r' = r \<and> i' = i) \<and> mem s r' i'"
    and mem_leave_all: "wf s \<Longrightarrow> mem (leave_all i s) r' i' \<longleftrightarrow> i' \<noteq> i \<and> mem s r' i'"
    and wf_join: "wf s \<Longrightarrow> wf (join r i s)"
    and wf_leave: "wf s \<Longrightarrow> wf (leave r i s)"
    and wf_leave_all: "wf s \<Longrightarrow> wf (leave_all i s)"
begin

lemma leave_join: "wf s \<Longrightarrow> \<not> mem s r i \<Longrightarrow> mem (leave r i (join r i s)) = mem s"
  by (intro ext) (auto simp: mem_leave mem_join wf_join)

lemma join_commute: "wf s \<Longrightarrow> mem (join r i (join r' i' s)) = mem (join r' i' (join r i s))"
  by (intro ext) (auto simp: mem_join wf_join)

lemma leave_all_absent: "wf s \<Longrightarrow> \<not> mem (leave_all i s) r i"
  by (simp add: mem_leave_all)

lemma joins_mem:
  "wf s \<Longrightarrow> wf (fold (\<lambda>(r, i). join r i) js s) \<and>
     (mem (fold (\<lambda>(r, i). join r i) js s) r i \<longleftrightarrow> (r, i) \<in> set js \<or> mem s r i)"
proof (induction js arbitrary: s)
  case Nil
  then show ?case by simp
next
  case (Cons j js)
  then show ?case
    by (cases j) (auto simp: wf_join mem_join)
qed

lemma leave_all_after_joins:
  "wf s \<Longrightarrow> mem (leave_all i (fold (\<lambda>(r, j). join r j) js s)) r i' \<longleftrightarrow>
     i' \<noteq> i \<and> ((r, i') \<in> set js \<or> mem s r i')"
  using joins_mem [of s js] by (auto simp: mem_leave_all)

end

section \<open>Step relations\<close>

text \<open>The states a step relation leads to.\<close>

inductive reaches :: "('s \<Rightarrow> 's \<Rightarrow> bool) \<Rightarrow> 's \<Rightarrow> 's \<Rightarrow> bool" for step s where
  start: "reaches step s s"
| step: "reaches step s t \<Longrightarrow> step t u \<Longrightarrow> reaches step s u"

lemma reaches_one: "step s t \<Longrightarrow> reaches step s t"
  by (rule reaches.step [OF reaches.start])

lemma reaches_trans: "reaches step s t \<Longrightarrow> reaches step t u \<Longrightarrow> reaches step s u"
  by (rotate_tac, induction rule: reaches.induct) (auto intro: reaches.step)

lemma reaches_first: "step s t \<Longrightarrow> reaches step t u \<Longrightarrow> reaches step s u"
  by (rule reaches_trans [OF reaches_one])

lemma reaches_power: "(step ^^ k) s t \<Longrightarrow> reaches step s t"
  by (induction k arbitrary: t) (auto intro: reaches.intros)

text \<open>A system that keeps an invariant.\<close>

locale safe_system =
  fixes step :: "'s \<Rightarrow> 's \<Rightarrow> bool"
    and inv :: "'s \<Rightarrow> bool"
  assumes step_inv: "step s t \<Longrightarrow> inv s \<Longrightarrow> inv t"
begin

lemma reach_inv: "reaches step s t \<Longrightarrow> inv s \<Longrightarrow> inv t"
  by (induction rule: reaches.induct) (auto intro: step_inv)

end

text \<open>One that in addition ends: a measure decreases, and while the final condition does not hold
  there is a step.  Then runs are bounded, what cannot go on is final, and a final state is
  reached.\<close>

locale terminating_system = safe_system +
  fixes bound :: "'s \<Rightarrow> nat"
    and final :: "'s \<Rightarrow> bool"
  assumes step_bound: "step s t \<Longrightarrow> inv s \<Longrightarrow> bound t < bound s"
    and progress: "inv s \<Longrightarrow> \<not> final s \<Longrightarrow> \<exists>t. step s t"
begin

lemma runs_bounded: "(step ^^ k) s t \<Longrightarrow> inv s \<Longrightarrow> k + bound t \<le> bound s"
proof (induction k arbitrary: t)
  case (Suc k)
  then obtain u where u: "(step ^^ k) s u" "step u t" by auto
  have "bound t < bound u" using step_bound [OF u(2)] reach_inv [OF reaches_power [OF u(1)]] Suc.prems(2) by blast
  then show ?case using Suc.IH [OF u(1) Suc.prems(2)] by simp
qed simp

lemma stuck_final: "inv s \<Longrightarrow> (\<And>t. \<not> step s t) \<Longrightarrow> final s"
  using progress by blast

lemma reaches_final: "inv s \<Longrightarrow> \<exists>t. reaches step s t \<and> final t"
proof (induction "bound s" arbitrary: s rule: less_induct)
  case less
  show ?case
  proof (cases "final s")
    case False
    then obtain t where t: "step s t" using progress less.prems by blast
    then show ?thesis
      using less.hyps [OF step_bound [OF t less.prems] step_inv [OF t less.prems]] reaches_first by metis
  qed (blast intro: reaches.start)
qed

end

section \<open>Other shared lemmas\<close>

text \<open>\<open>min\<close> of two machine integers, \<open>server.go\<close>.\<close>

definition go_min :: "int \<Rightarrow> int \<Rightarrow> int" where
  "go_min x y = (if x < y then x else y)"

lemma go_min_eq [simp]: "go_min x y = min x y"
  by (simp add: go_min_def)

lemma set_dropWhile_Not:
  "set (dropWhile (\<lambda>x. \<not> P x) xs) = {xs ! k | k. k < length xs \<and> (\<exists>j\<le>k. P (xs ! j))}"
proof -
  let ?m = "length (takeWhile (\<lambda>x. \<not> P x) xs)"
  have "(\<exists>j\<le>k. P (xs ! j)) \<longleftrightarrow> ?m \<le> k" if "k < length xs" for k
  proof
    assume "\<exists>j\<le>k. P (xs ! j)"
    then show "?m \<le> k"
      by (metis linorder_not_less order_le_less_trans nth_mem set_takeWhileD takeWhile_nth)
  next
    assume "?m \<le> k"
    then show "\<exists>j\<le>k. P (xs ! j)" using nth_length_takeWhile [of "\<lambda>x. \<not> P x" xs] that
      by (intro exI [of _ ?m]) simp
  qed
  then have "{xs ! k | k. k < length xs \<and> (\<exists>j\<le>k. P (xs ! j))} = {xs ! k | k. ?m \<le> k \<and> k < length xs}"
    by blast
  also have "\<dots> = set (drop ?m xs)"
    by (auto simp: in_set_conv_nth) (metis add_diff_inverse_nat diff_less_mono linorder_not_less,
      metis add.commute le_add1 less_diff_conv)
  finally show ?thesis by (simp add: dropWhile_eq_drop)
qed

lemma map_snd_filter:
  "distinct (map fst es) \<Longrightarrow> (\<And>e. e \<in> set es \<Longrightarrow> snd e = m) \<Longrightarrow>
     map snd (filter (\<lambda>e. fst e = b) es) = (if b \<in> fst ` set es then [m] else [])"
  by (induction es) (auto simp: image_iff)

lemma mset_filter_disjoint:
  "mset (filter P xs) + mset (filter (\<lambda>x. \<not> P x) xs) = mset xs"
  by (induction xs) auto

end
