(* ===== verification/GoSync.thy ===== *)
theory GoSync
  imports Prelude
begin

text \<open>
  The parts of Go's \<open>sync\<close> and of its channels that the code uses.

  \<^item> \<open>rwmutex\<close>: the state of a \<open>sync.RWMutex\<close> (a \<open>sync.Mutex\<close> uses the write side only) as one
    goroutine sees it while it runs alone: asking for a lock that the same goroutine holds
    never returns (\<open>Deadlock\<close>), unlocking a mutex that is not locked is a fatal error.
  \<^item> \<open>chan\<close>: a buffered channel with the two non-blocking operations the code uses, the send
    in a \<open>select\<close> with a \<open>default\<close> branch and the receive.
  \<^item> the locale \<open>bounded_fifo\<close>: what mailboxes, send buffers and message queues rely on.
\<close>

section \<open>Read-write mutexes\<close>

datatype rwmutex = Unlocked | RLocked nat | WLocked

fun rw_Lock :: "rwmutex \<Rightarrow> rwmutex run" where
  "rw_Lock Unlocked = Inr WLocked"
| "rw_Lock _ = Inl Deadlock"

fun rw_Unlock :: "rwmutex \<Rightarrow> rwmutex run" where
  "rw_Unlock WLocked = Inr Unlocked"
| "rw_Unlock _ = Inl (Fatal ''sync: Unlock of unlocked RWMutex'')"

text \<open>\<open>RLocked n\<close> is held by \<open>n + 1\<close> readers.\<close>

fun rw_RLock :: "rwmutex \<Rightarrow> rwmutex run" where
  "rw_RLock Unlocked = Inr (RLocked 0)"
| "rw_RLock (RLocked n) = Inr (RLocked (Suc n))"
| "rw_RLock WLocked = Inl Deadlock"

fun rw_RUnlock :: "rwmutex \<Rightarrow> rwmutex run" where
  "rw_RUnlock (RLocked 0) = Inr Unlocked"
| "rw_RUnlock (RLocked (Suc n)) = Inr (RLocked n)"
| "rw_RUnlock _ = Inl (Fatal ''sync: RUnlock of unlocked RWMutex'')"

lemma rw_Lock_Unlock: "rw_Lock m = Inr m' \<Longrightarrow> rw_Unlock m' = Inr m"
  by (cases m) auto

lemma rw_RLock_RUnlock: "rw_RLock m = Inr m' \<Longrightarrow> rw_RUnlock m' = Inr m"
  by (cases m) auto

fun_cases rw_Lock_InrE: "rw_Lock m = Inr m'"
fun_cases rw_RLock_InrE: "rw_RLock m = Inr m'"

section \<open>Buffered channels\<close>

record 'a chan =
  ch_cap :: nat
  ch_buf :: "'a list"

definition make_chan :: "nat \<Rightarrow> 'a chan" where
  "make_chan n = \<lparr>ch_cap = n, ch_buf = []\<rparr>"

text \<open>\<open>select { case c <- x: ... default: ... }\<close> with no receiver waiting: \<open>None\<close> is the
  default branch.\<close>

definition ch_try_send :: "'a \<Rightarrow> 'a chan \<Rightarrow> 'a chan option" where
  "ch_try_send x c =
     (if length (ch_buf c) < ch_cap c then Some (c\<lparr>ch_buf := ch_buf c @ [x]\<rparr>) else None)"

text \<open>A receive: \<open>None\<close> when it has to wait.\<close>

definition ch_try_recv :: "'a chan \<Rightarrow> ('a \<times> 'a chan) option" where
  "ch_try_recv c =
     (case ch_buf c of [] \<Rightarrow> None | x # xs \<Rightarrow> Some (x, c\<lparr>ch_buf := xs\<rparr>))"

definition ch_ok :: "'a chan \<Rightarrow> bool" where
  "ch_ok c \<longleftrightarrow> length (ch_buf c) \<le> ch_cap c"

lemma make_chan_simps [simp]: "ch_buf (make_chan n) = []" "ch_cap (make_chan n) = n"
  by (simp_all add: make_chan_def)

lemma ch_ok_make [simp, wf_intros]: "ch_ok (make_chan n)"
  by (simp add: ch_ok_def)

section \<open>Bounded first-in first-out buffers\<close>

locale bounded_fifo =
  fixes cap :: "'q \<Rightarrow> nat"
    and contents :: "'q \<Rightarrow> 'a list"
    and try_send :: "'a \<Rightarrow> 'q \<Rightarrow> 'q option"
    and try_recv :: "'q \<Rightarrow> ('a \<times> 'q) option"
    and ok :: "'q \<Rightarrow> bool"
  assumes ok_le: "ok q \<Longrightarrow> length (contents q) \<le> cap q"
    and send_full: "ok q \<Longrightarrow> try_send x q = None \<longleftrightarrow> length (contents q) = cap q"
    and send_some: "ok q \<Longrightarrow> try_send x q = Some q' \<Longrightarrow>
      contents q' = contents q @ [x] \<and> cap q' = cap q \<and> ok q'"
    and recv_empty: "ok q \<Longrightarrow> try_recv q = None \<longleftrightarrow> contents q = []"
    and recv_some: "ok q \<Longrightarrow> try_recv q = Some (x, q') \<Longrightarrow>
      contents q = x # contents q' \<and> cap q' = cap q \<and> ok q'"
begin

text \<open>A producer that drops what does not fit.\<close>

definition offer :: "'a \<Rightarrow> 'q \<Rightarrow> 'q" where
  "offer x q = (case try_send x q of None \<Rightarrow> q | Some q' \<Rightarrow> q')"

lemma offer_contents:
  "ok q \<Longrightarrow> ok (offer x q) \<and> cap (offer x q) = cap q \<and>
     contents (offer x q) = (if length (contents q) < cap q then contents q @ [x] else contents q)"
  using send_full [of q x] send_some [of q x] ok_le [of q]
  by (auto simp: offer_def split: option.split)

lemma offers_contents:
  "ok q \<Longrightarrow> ok (fold offer xs q) \<and> cap (fold offer xs q) = cap q \<and>
     contents (fold offer xs q) = contents q @ take (cap q - length (contents q)) xs"
proof (induction xs arbitrary: q)
  case Nil
  then show ?case by simp
next
  case (Cons x xs)
  have len: "length (contents q) \<le> cap q"
    using Cons.prems by (rule ok_le)
  have q': "ok (offer x q)" "cap (offer x q) = cap q"
    "contents (offer x q) = (if length (contents q) < cap q then contents q @ [x] else contents q)"
    using offer_contents [OF Cons.prems, of x] by auto
  show ?case
    using Cons.IH [OF q'(1)] q' len by (auto simp: take_Cons' Suc_diff_Suc)
qed

lemma send_recv_empty:
  "ok q \<Longrightarrow> contents q = [] \<Longrightarrow> try_send x q = Some q' \<Longrightarrow>
     \<exists>q''. try_recv q' = Some (x, q'') \<and> contents q'' = []"
proof -
  assume ok: "ok q" and e: "contents q = []" and s: "try_send x q = Some q'"
  then have c: "contents q' = [x]" and ok': "ok q'"
    using send_some [OF ok s] by auto
  then obtain y q'' where r: "try_recv q' = Some (y, q'')"
    using recv_empty [OF ok'] by (cases "try_recv q'") auto
  with recv_some [OF ok' r] c show ?thesis by auto
qed

end

interpretation ch: bounded_fifo ch_cap ch_buf ch_try_send ch_try_recv ch_ok
  by unfold_locales
    (auto simp: ch_ok_def ch_try_send_def ch_try_recv_def split: if_splits list.splits)

lemma ch_send_iff:
  "ch_try_send x c = Some c' \<longleftrightarrow>
     length (ch_buf c) < ch_cap c \<and> c' = c\<lparr>ch_buf := ch_buf c @ [x]\<rparr>"
  by (auto simp: ch_try_send_def)

lemma ch_send_SomeD: "ch_try_send x c = Some c' \<Longrightarrow> ch_buf c' = ch_buf c @ [x] \<and> ch_cap c' = ch_cap c"
  by (auto simp: ch_send_iff)

lemma ch_recv_SomeD: "ch_try_recv c = Some (x, c') \<Longrightarrow> ch_buf c = x # ch_buf c' \<and> ch_cap c' = ch_cap c"
  by (auto simp: ch_try_recv_def split: list.splits)

lemma ch_send_None: "ch_try_send x c = None \<longleftrightarrow> ch_cap c \<le> length (ch_buf c)"
  by (auto simp: ch_try_send_def)

lemma ch_ok_send [wf_intros]: "ch_try_send x c = Some c' \<Longrightarrow> ch_ok c \<Longrightarrow> ch_ok c'"
  by (auto simp: ch_try_send_def ch_ok_def split: if_splits)

lemma ch_ok_recv [wf_intros]: "ch_try_recv c = Some (x, c') \<Longrightarrow> ch_ok c \<Longrightarrow> ch_ok c'"
  by (auto simp: ch_try_recv_def ch_ok_def split: list.splits)

end
