(* ===== verification/Utils.thy ===== *)
theory Utils
  imports GoSync "HOL-Library.Word"
begin

text \<open>
  \<open>socket/utils.go\<close>: the identifiers of sockets, sessions and clients.  The reader of random
  bytes is a parameter (\<open>None\<close> stands for a read error); the process-wide counter
  \<open>idCounter\<close> is passed in and out.  \<open>hex.EncodeToString\<close> and the conversions \<open>byte(c >> k)\<close>
  are written out.
\<close>

type_synonym byte = "8 word"
type_synonym bytes = "byte list"

section \<open>Hexadecimal text\<close>

definition hextable :: "string" where
  "hextable = ''0123456789abcdef''"

definition hex_byte :: "byte \<Rightarrow> string" where
  "hex_byte b = [hextable ! (unat b div 16), hextable ! (unat b mod 16)]"

definition hex_EncodeToString :: "bytes \<Rightarrow> string" where
  "hex_EncodeToString bs = concat (map hex_byte bs)"

text \<open>The eight bytes of the counter, most significant first.\<close>

definition counter_bytes :: "64 word \<Rightarrow> bytes" where
  "counter_bytes c = map (\<lambda>k. ucast (drop_bit k c)) [56, 48, 40, 32, 24, 16, 8, 0]"

section \<open>generateID\<close>

definition generateID :: "bytes option \<Rightarrow> 64 word \<Rightarrow> string \<times> 64 word" where
  "generateID rnd idCounter =
     (let counter = idCounter + 1 in
      case rnd of
        None \<Rightarrow> (hex_EncodeToString (counter_bytes counter), counter)
      | Some i \<Rightarrow>
          (hex_EncodeToString i @ ''-'' @ take 4 (hex_EncodeToString (counter_bytes counter)),
           counter))"

section \<open>Lemmas on hexadecimal text\<close>

lemma length_hextable [simp]: "length hextable = 16"
  by (simp add: hextable_def)

lemma distinct_hextable: "distinct hextable"
  by (simp add: hextable_def)

lemma unat_byte_bounds: "unat (b :: byte) div 16 < 16" "unat (b :: byte) mod 16 < 16"
proof -
  have "unat b < 256" using unsigned_less [of b, where 'a = nat] by simp
  then show "unat b div 16 < 16" by simp
qed simp

lemma hextable_inj: "i < 16 \<Longrightarrow> j < 16 \<Longrightarrow> hextable ! i = hextable ! j \<longleftrightarrow> i = j"
  using nth_eq_iff_index_eq [OF distinct_hextable, of i j] by simp

lemma hex_byte_inj: "hex_byte a = hex_byte b \<longleftrightarrow> a = b"
proof
  assume "hex_byte a = hex_byte b"
  then have "unat a div 16 = unat b div 16" "unat a mod 16 = unat b mod 16"
    by (simp_all add: hex_byte_def hextable_inj unat_byte_bounds)
  then have "unat a = unat b" by (metis div_mult_mod_eq)
  then show "a = b" by (rule word_unat_eq_iff [THEN iffD2])
qed simp

lemma length_hex_byte [simp]: "length (hex_byte b) = 2"
  by (simp add: hex_byte_def)

lemma hex_simps [simp]:
  "hex_EncodeToString [] = []"
  "hex_EncodeToString (b # bs) = hex_byte b @ hex_EncodeToString bs"
  by (simp_all add: hex_EncodeToString_def)

lemma length_hex [simp]: "length (hex_EncodeToString bs) = 2 * length bs"
  by (induction bs) simp_all

lemma hex_inj: "hex_EncodeToString as = hex_EncodeToString bs \<longleftrightarrow> as = bs"
proof (induction as arbitrary: bs)
  case Nil
  then show ?case by (cases bs) (simp_all add: hex_byte_def)
next
  case (Cons a as)
  show ?case
  proof (cases bs)
    case Nil
    then show ?thesis by (simp add: hex_byte_def)
  next
    case (Cons b bs')
    then show ?thesis by (simp add: Cons.IH hex_byte_inj append_eq_append_conv)
  qed
qed

lemma hex_chars: "set (hex_EncodeToString bs) \<subseteq> set hextable"
proof (induction bs)
  case (Cons b bs)
  then show ?case by (auto simp: hex_byte_def unat_byte_bounds)
qed simp

lemma length_counter_bytes [simp]: "length (counter_bytes c) = 8"
  by (simp add: counter_bytes_def)

lemma unat_counter_byte: "unat (ucast (drop_bit k (c :: 64 word)) :: byte) = unat c div 2 ^ k mod 256"
  unfolding unsigned_ucast_eq unat_drop_bit_eq by (simp add: drop_bit_eq_div take_bit_eq_mod)

lemma counter_bytes_top2:
  "take 2 (counter_bytes c) = [0, 0] \<longleftrightarrow> unat c < 2 ^ 48"
proof -
  have "take 2 (counter_bytes c) = [0, 0] \<longleftrightarrow>
      unat c div 2 ^ 56 mod 256 = 0 \<and> unat c div 2 ^ 48 mod 256 = 0"
    unfolding unat_counter_byte [symmetric] counter_bytes_def
    by (simp only: list.map take_Suc_Cons take0 numeral_2_eq_2 list.inject unat_eq_0) simp
  also have "\<dots> \<longleftrightarrow> unat c div 2 ^ 48 = 0"
  proof
    assume a: "unat c div 2 ^ 56 mod 256 = 0 \<and> unat c div 2 ^ 48 mod 256 = 0"
    have "unat c < 2 ^ 64" using unsigned_less [of c, where 'a = nat] by simp
    then have "unat c div 2 ^ 56 < 256" by (simp add: less_mult_imp_div_less)
    with a have "unat c div 2 ^ 56 = 0" by simp
    moreover have "unat c div 2 ^ 56 = unat c div 2 ^ 48 div 256"
      by (simp flip: div_mult2_eq)
    ultimately have "unat c div 2 ^ 48 < 256" by (simp add: div_eq_0_iff)
    with a show "unat c div 2 ^ 48 = 0" by simp
  next
    assume "unat c div 2 ^ 48 = 0"
    moreover have "unat c div 2 ^ 56 = unat c div 2 ^ 48 div 256"
      by (simp flip: div_mult2_eq)
    ultimately show "unat c div 2 ^ 56 mod 256 = 0 \<and> unat c div 2 ^ 48 mod 256 = 0" by simp
  qed
  also have "\<dots> \<longleftrightarrow> unat c < 2 ^ 48" by (simp add: div_eq_0_iff)
  finally show ?thesis .
qed

text \<open>The counter is read back from its bytes, so distinct counters give distinct bytes.\<close>

definition bytes_value :: "bytes \<Rightarrow> nat" where
  "bytes_value bs = fold (\<lambda>b n. 256 * n + unat b) bs 0"

lemma shift_step: "256 * (n div 2 ^ (k + 8)) + n div 2 ^ k mod 256 = n div (2 ^ k :: nat)"
proof -
  have "n div 2 ^ (k + 8) = n div 2 ^ k div 256"
    by (simp add: power_add flip: div_mult2_eq)
  then show ?thesis by simp
qed

lemma bytes_value_counter: "bytes_value (counter_bytes c) = unat c"
proof -
  let ?n = "unat c"
  have top: "?n div 2 ^ 56 mod 256 = ?n div 2 ^ 56"
  proof -
    have "?n < 2 ^ 64" using unsigned_less [of c, where 'a = nat] by simp
    then have "?n div 2 ^ 56 < 256" by (simp add: less_mult_imp_div_less)
    then show ?thesis by simp
  qed
  show ?thesis
    using shift_step [of ?n 48] shift_step [of ?n 40] shift_step [of ?n 32]
      shift_step [of ?n 24] shift_step [of ?n 16] shift_step [of ?n 8] shift_step [of ?n 0] top
    unfolding bytes_value_def counter_bytes_def
    by (simp only: list.map fold_simps unat_counter_byte) simp
qed

lemma counter_bytes_inj: "counter_bytes a = counter_bytes b \<longleftrightarrow> a = b"
  by (metis bytes_value_counter word_unat_eq_iff)

lemma take_4_hex: "take 4 (hex_EncodeToString bs) = hex_EncodeToString (take 2 bs)"
  by (cases bs; cases "tl bs") (auto simp: hex_byte_def)

lemma hex_zero: "hex_EncodeToString [0, 0] = ''0000''"
  by (simp add: hex_byte_def hextable_def)

lemma counter_suffix:
  "take 4 (hex_EncodeToString (counter_bytes c)) = ''0000'' \<longleftrightarrow> unat c < 2 ^ 48"
  unfolding take_4_hex hex_zero [symmetric] hex_inj by (rule counter_bytes_top2)

lemma generateID_counter [simp]: "snd (generateID rnd c) = c + 1"
  by (simp add: generateID_def Let_def split: option.splits)

section \<open>Properties\<close>

text \<open>An identifier made without random bytes is the hexadecimal text of the counter:
  two different counter values never give the same identifier, and such an identifier never
  equals one made with eight random bytes.\<close>

theorem generateID_fallback_unique:
  "(fst (generateID None c) = fst (generateID None c') \<longleftrightarrow> c = c') \<and>
   (length i = 8 \<longrightarrow> fst (generateID None c) \<noteq> fst (generateID (Some i) c'))"
proof -
  have "fst (generateID None c) = fst (generateID None c') \<longleftrightarrow> c = c'"
    by (simp add: generateID_def Let_def hex_inj counter_bytes_inj)
  moreover have "length (fst (generateID None c)) = 16"
    by (simp add: generateID_def Let_def)
  moreover have "length i = 8 \<longrightarrow> length (fst (generateID (Some i) c')) = 21"
    by (simp add: generateID_def Let_def)
  ultimately show ?thesis by fastforce
qed

theorem generateID_fallback_unique_witness:
  "fst (generateID None 5) \<noteq> fst (generateID (Some (replicate 8 0)) 5)"
  using generateID_fallback_unique [of 5 5 "replicate 8 0"] by simp

text \<open>The four characters after the dash are taken from the most significant end of the
  counter: with fewer than \<open>2^48\<close> identifiers made they are always \<open>0000\<close>, so two identifiers
  are equal exactly when their random bytes are; the counter adds nothing.\<close>

theorem generateID_suffix_constant:
  assumes "unat c < 2 ^ 48 - 1" "unat c' < 2 ^ 48 - 1"
  shows "fst (generateID (Some i) c) = hex_EncodeToString i @ ''-0000'' \<and>
    (fst (generateID (Some i) c) = fst (generateID (Some j) c') \<longleftrightarrow> i = j)"
proof -
  have suc: "unat (c + 1) < 2 ^ 48" if "unat c < 2 ^ 48 - 1" for c :: "64 word"
    using that by (simp add: unat_word_ariths)
  have one: "fst (generateID (Some k) c) = hex_EncodeToString k @ ''-0000''"
    if "unat c < 2 ^ 48 - 1" for k and c :: "64 word"
    using suc [OF that] counter_suffix [of "c + 1"] by (simp add: generateID_def Let_def)
  show ?thesis using one [OF assms(1)] one [OF assms(2)] by (simp add: hex_inj)
qed

theorem generateID_suffix_constant_witness:
  "fst (generateID (Some [1, 2, 3, 4, 5, 6, 7, 8]) 41) = ''0102030405060708-0000''"
proof -
  have "fst (generateID (Some [1, 2, 3, 4, 5, 6, 7, 8]) 41) =
      hex_EncodeToString [1, 2, 3, 4, 5, 6, 7, 8] @ ''-0000''"
    by (rule generateID_suffix_constant [of 41 41, THEN conjunct1]) simp_all
  then show ?thesis by (simp add: hex_byte_def hextable_def)
qed

lemma generateID_chars:
  "set (fst (generateID rnd c)) \<subseteq> insert (CHR ''-'') (set hextable)"
  using hex_chars
  by (fastforce simp: generateID_def Let_def split: option.splits dest: in_set_takeD)

end
