(* ===== verification/SocketTypes.thy ===== *)
theory SocketTypes
  imports Utils
begin

text \<open>
  \<open>socket/socket.go\<close>: events, messages and errors, and the values that travel as
  \<open>interface{}\<close>.  A value of the interface \<open>Socket\<close> is a pointer to an implementation; the
  model keeps the address and the immutable identifier that \<open>ID()\<close> returns.
\<close>

type_synonym Event = string

definition EventConnect :: Event where "EventConnect = ''connect''"
definition EventDisconnect :: Event where "EventDisconnect = ''disconnect''"
definition EventError :: Event where "EventError = ''error''"
definition EventMessage :: Event where "EventMessage = ''message''"

lemmas event_defs = EventConnect_def EventDisconnect_def EventError_def EventMessage_def

text \<open>Errors: the named ones of the packages, and those made in place with
  \<open>errors.New\<close> or \<open>fmt.Errorf\<close> or returned by a library.\<close>

datatype gerror =
    ErrConnectionClosed
  | ErrInvalidMessage
  | ErrTimeout
  | ErrProcessNotFound
  | ErrNodeStopped
  | ErrNew string

text \<open>Dynamic values: \<open>nil\<close>, a string, an error, a map with string keys, an integer, a slice, a
  struct of a named type with its fields, a pointer, anything else.\<close>

datatype gval =
    GNil
  | GString string
  | GErr gerror
  | GMap "(string \<times> gval) list"
  | GInt int
  | GList "gval list"
  | GStruct string "(string \<times> gval) list"
  | GPtr nat
  | GData nat

text \<open>The type assertion \<open>data.(string)\<close>.\<close>

fun as_string :: "gval \<Rightarrow> string option" where
  "as_string (GString s) = Some s"
| "as_string _ = None"

record Message =
  msg_Event :: Event
  msg_Data :: gval

text \<open>\<open>json.Marshal\<close> and \<open>json.Unmarshal\<close> on messages are parameters of the model.\<close>

record codec =
  marshal :: "Message \<Rightarrow> gerror + bytes"
  unmarshal :: "bytes \<Rightarrow> gerror + Message"

datatype Socket = SocketRef (sk_addr: nat) (sk_ID: string)

end
