(* ===== verification/WorkerPool.thy ===== *)
theory WorkerPool
  imports SocketTypes
begin

text \<open>
  The worker pool of \<open>Room.BroadcastParallel\<close> (\<open>room.go\<close>) and \<open>Server.BroadcastParallel\<close>
  (\<open>server.go\<close>): a producer pushes the sockets into the channel \<open>jobs\<close> and closes it, workers
  range over the channel and call \<open>Send\<close>, \<open>wg.Wait\<close> returns when every worker has left its
  loop.  Producer and workers interleave in any order: a step relation with one rule per
  atomic step.
\<close>

section \<open>States and steps\<close>

datatype 'j worker = Idle | Busy 'j | Exited

record 'j pool =
  pl_todo :: "'j list"          \<comment> \<open>not yet pushed by the producer\<close>
  pl_jobs :: "'j chan"
  pl_closed :: bool
  pl_workers :: "'j worker list"
  pl_sent :: "'j list"          \<comment> \<open>\<open>Send\<close> calls that have returned, in order\<close>

text \<open>The state after the \<open>for\<close> loop that starts the workers: the count is a Go \<open>int\<close>, and a
  count that is not positive starts none.\<close>

definition pool_start :: "'j list \<Rightarrow> int \<Rightarrow> 'j pool" where
  "pool_start js workerCount =
     \<lparr>pl_todo = js, pl_jobs = make_chan (length js), pl_closed = False,
      pl_workers = replicate (nat workerCount) Idle, pl_sent = []\<rparr>"

inductive pool_step :: "'j pool \<Rightarrow> 'j pool \<Rightarrow> bool" where
  push: "pl_todo p = j # js \<Longrightarrow> ch_try_send j (pl_jobs p) = Some c \<Longrightarrow>
    pool_step p (p\<lparr>pl_todo := js, pl_jobs := c\<rparr>)"
| close: "pl_todo p = [] \<Longrightarrow> \<not> pl_closed p \<Longrightarrow> pool_step p (p\<lparr>pl_closed := True\<rparr>)"
| take: "i < length (pl_workers p) \<Longrightarrow> pl_workers p ! i = Idle \<Longrightarrow>
    ch_try_recv (pl_jobs p) = Some (j, c) \<Longrightarrow>
    pool_step p (p\<lparr>pl_jobs := c, pl_workers := (pl_workers p)[i := Busy j]\<rparr>)"
| send: "i < length (pl_workers p) \<Longrightarrow> pl_workers p ! i = Busy j \<Longrightarrow>
    pool_step p (p\<lparr>pl_workers := (pl_workers p)[i := Idle], pl_sent := pl_sent p @ [j]\<rparr>)"
| exit: "i < length (pl_workers p) \<Longrightarrow> pl_workers p ! i = Idle \<Longrightarrow>
    ch_try_recv (pl_jobs p) = None \<Longrightarrow> pl_closed p \<Longrightarrow>
    pool_step p (p\<lparr>pl_workers := (pl_workers p)[i := Exited]\<rparr>)"

abbreviation pool_reach :: "'j pool \<Rightarrow> 'j pool \<Rightarrow> bool" where
  "pool_reach \<equiv> reaches pool_step"

text \<open>\<open>wg.Wait\<close> has returned: the producer is done and every worker has exited.\<close>

definition pool_returned :: "'j pool \<Rightarrow> bool" where
  "pool_returned p \<longleftrightarrow> pl_closed p \<and> list_all (\<lambda>w. w = Exited) (pl_workers p)"

section \<open>Nothing is lost and nothing is sent twice\<close>

fun busy_jobs :: "'j worker list \<Rightarrow> 'j multiset" where
  "busy_jobs [] = {#}"
| "busy_jobs (Busy j # ws) = add_mset j (busy_jobs ws)"
| "busy_jobs (w # ws) = busy_jobs ws"

lemma busy_jobs_replicate [simp]: "busy_jobs (replicate n Idle) = {#}"
  by (induction n) auto

lemma busy_jobs_take:
  "i < length ws \<Longrightarrow> ws ! i = Idle \<Longrightarrow> busy_jobs (ws[i := Busy j]) = add_mset j (busy_jobs ws)"
  by (induction ws arbitrary: i rule: busy_jobs.induct) (auto simp: nth_Cons split: nat.splits)

lemma busy_jobs_send:
  "i < length ws \<Longrightarrow> ws ! i = Busy j \<Longrightarrow> add_mset j (busy_jobs (ws[i := Idle])) = busy_jobs ws"
  by (induction ws arbitrary: i rule: busy_jobs.induct) (auto simp: nth_Cons split: nat.splits)

lemma busy_jobs_exit:
  "i < length ws \<Longrightarrow> ws ! i = Idle \<Longrightarrow> busy_jobs (ws[i := Exited]) = busy_jobs ws"
  by (induction ws arbitrary: i rule: busy_jobs.induct) (auto simp: nth_Cons split: nat.splits)

lemmas busy_jobs_update = busy_jobs_take busy_jobs_send busy_jobs_exit

definition pool_all :: "'j pool \<Rightarrow> 'j multiset" where
  "pool_all p = mset (pl_todo p) + mset (ch_buf (pl_jobs p)) + busy_jobs (pl_workers p)
     + mset (pl_sent p)"

text \<open>The invariant: the jobs are where they should be, the channel has room for what is left,
  it is closed only when everything was pushed, and a worker exits only when it is closed and
  empty.\<close>

definition pool_inv :: "'j multiset \<Rightarrow> nat \<Rightarrow> 'j pool \<Rightarrow> bool" where
  "pool_inv M n p \<longleftrightarrow> pool_all p = M \<and> length (pl_workers p) = n \<and>
     length (pl_todo p) + length (ch_buf (pl_jobs p)) \<le> ch_cap (pl_jobs p) \<and>
     (pl_closed p \<longrightarrow> pl_todo p = []) \<and>
     (Exited \<in> set (pl_workers p) \<longrightarrow> pl_closed p \<and> ch_buf (pl_jobs p) = [])"

lemma pool_inv_start: "pool_inv (mset js) (nat k) (pool_start js k)"
  by (auto simp: pool_inv_def pool_start_def pool_all_def)

lemma ch_recv_iff:
  "ch_try_recv c = Some (j, c') \<longleftrightarrow> ch_buf c = j # ch_buf c' \<and> c' = c\<lparr>ch_buf := ch_buf c'\<rparr>"
  by (auto simp: ch_try_recv_def split: list.splits)

lemma ch_recv_None [simp]: "ch_try_recv c = None \<longleftrightarrow> ch_buf c = []"
  by (auto simp: ch_try_recv_def split: list.splits)

lemma set_update_Exited: "Exited \<in> set (ws[i := w]) \<Longrightarrow> w \<noteq> Exited \<Longrightarrow> Exited \<in> set ws"
  using set_update_subset_insert [of ws i w] by auto

lemma pool_step_inv: "pool_step p q \<Longrightarrow> pool_inv M n p \<Longrightarrow> pool_inv M n q"
proof (induction rule: pool_step.induct)
  case (push p j js c)
  then show ?case
    by (auto simp: pool_inv_def pool_all_def ch_send_iff)
next
  case (close p)
  then show ?case by (auto simp: pool_inv_def pool_all_def)
next
  case (take i p j c)
  then have "ch_buf (pl_jobs p) = j # ch_buf c" "ch_cap c = ch_cap (pl_jobs p)"
    using ch_recv_iff [of "pl_jobs p" j c] by (auto dest!: arg_cong [of c _ ch_cap])
  with take show ?case
    by (auto simp: pool_inv_def pool_all_def busy_jobs_take dest: set_update_Exited)
next
  case (send i p j)
  then show ?case
    using busy_jobs_send [of i "pl_workers p" j]
    by (auto simp: pool_inv_def pool_all_def dest: set_update_Exited)
next
  case (exit i p)
  then show ?case by (auto simp: pool_inv_def pool_all_def busy_jobs_exit)
qed

section \<open>Progress and termination\<close>

fun worker_weight :: "'j worker \<Rightarrow> nat" where
  "worker_weight Idle = 1"
| "worker_weight (Busy _) = 2"
| "worker_weight Exited = 0"

definition pool_measure :: "'j pool \<Rightarrow> nat" where
  "pool_measure p = 4 * length (pl_todo p) + 3 * length (ch_buf (pl_jobs p))
     + sum_list (map worker_weight (pl_workers p)) + (if pl_closed p then 0 else 1)"

lemma worker_weight_update:
  "i < length ws \<Longrightarrow> sum_list (map worker_weight (ws[i := w])) + worker_weight (ws ! i) =
     sum_list (map worker_weight ws) + worker_weight w"
proof (induction ws arbitrary: i)
  case (Cons v ws)
  then show ?case by (cases i) auto
qed simp

lemma pool_step_measure: "pool_step p q \<Longrightarrow> pool_measure q < pool_measure p"
proof (induction rule: pool_step.induct)
  case (push p j js c)
  then show ?case by (auto simp: pool_measure_def ch_send_iff)
next
  case (close p)
  then show ?case by (simp add: pool_measure_def)
next
  case (take i p j c)
  then show ?case
    using worker_weight_update [of i "pl_workers p" "Busy j"] ch_recv_iff [of "pl_jobs p" j c]
    by (auto simp: pool_measure_def)
next
  case (send i p j)
  then show ?case
    using worker_weight_update [of i "pl_workers p" Idle] by (auto simp: pool_measure_def)
next
  case (exit i p)
  then show ?case
    using worker_weight_update [of i "pl_workers p" Exited] by (auto simp: pool_measure_def)
qed

lemma pool_progress:
  assumes inv: "pool_inv M n p" and nr: "\<not> pool_returned p"
  shows "\<exists>q. pool_step p q"
proof (cases "pl_todo p")
  case (Cons j js)
  with inv obtain c where "ch_try_send j (pl_jobs p) = Some c"
    by (auto simp: pool_inv_def ch_try_send_def)
  with Cons show ?thesis by (blast intro: pool_step.push)
next
  case Nil
  show ?thesis
  proof (cases "pl_closed p")
    case False
    with Nil show ?thesis by (blast intro: pool_step.close)
  next
    case closed: True
    with nr obtain i where i: "i < length (pl_workers p)" "pl_workers p ! i \<noteq> Exited"
      by (auto simp: pool_returned_def list_all_length)
    show ?thesis
    proof (cases "pl_workers p ! i")
      case (Busy j)
      with i show ?thesis by (blast intro: pool_step.send)
    next
      case Idle
      then show ?thesis
      proof (cases "ch_try_recv (pl_jobs p)")
        case None
        with i Idle closed show ?thesis by (blast intro: pool_step.exit)
      next
        case (Some x)
        with i Idle show ?thesis by (cases x) (blast intro: pool_step.take)
      qed
    qed (use i in simp)
  qed
qed

text \<open>So the pool ends in every order of its steps.\<close>

interpretation pool: terminating_system pool_step "pool_inv M n" pool_measure pool_returned for M n
  by unfold_locales (auto intro: pool_step_inv pool_step_measure pool_progress)

lemmas pool_reach_inv = pool.reach_inv
lemmas pool_returns = pool.reaches_final

lemma pool_returned_sent:
  assumes inv: "pool_inv M n p" and ret: "pool_returned p" and n: "0 < n"
  shows "mset (pl_sent p) = M"
proof -
  from ret have ex: "\<forall>w\<in>set (pl_workers p). w = Exited" and "pl_closed p"
    by (auto simp: pool_returned_def list_all_iff)
  moreover have "Exited \<in> set (pl_workers p)"
    using inv n ex by (cases "pl_workers p") (auto simp: pool_inv_def)
  moreover have "busy_jobs ws = {#}" if "\<forall>w\<in>set ws. w = Exited" for ws :: "'a worker list"
    using that by (induction ws rule: busy_jobs.induct) auto
  ultimately show ?thesis using inv by (auto simp: pool_inv_def pool_all_def)
qed

lemma pool_no_worker: "pool_inv M 0 p \<Longrightarrow> pool_all p = M \<and> pl_workers p = []"
  by (simp add: pool_inv_def)

lemma pool_no_worker_sent:
  assumes "pool_reach (pool_start js k) q" and "k \<le> 0"
  shows "pl_sent q = []"
proof -
  have "pl_sent q = [] \<and> pl_workers q = []"
    using assms(1)
  proof (induction rule: reaches.induct)
    case start
    then show ?case using assms(2) by (simp add: pool_start_def)
  next
    case (step q r)
    from step(2,3) show ?case by (induction rule: pool_step.induct) auto
  qed
  then show ?thesis by simp
qed

end
