(* ===== verification/Room.thy ===== *)
theory Room
  imports WorkerPool
begin

text \<open>
  \<open>socket/room.go\<close>: \<open>Room\<close> and \<open>RoomManager\<close>.  The manager's map holds pointers to rooms, so
  the model has a store of rooms indexed by address: a goroutine that read a pointer keeps
  using the room after the map has dropped it.  Each operation is the composition of its
  critical sections; the theory RoomThreads takes the critical sections apart and interleaves them.
\<close>

section \<open>Rooms\<close>

record Room =
  room_name :: string
  room_sockets :: "(string, Socket) gomap"

definition NewRoom :: "string \<Rightarrow> Room" where
  "NewRoom name = \<lparr>room_name = name, room_sockets = []\<rparr>"

definition Room_AddSocket :: "Socket \<Rightarrow> Room \<Rightarrow> Room" where
  "Room_AddSocket s r = r\<lparr>room_sockets := gm_put (sk_ID s) s (room_sockets r)\<rparr>"

definition Room_RemoveSocket :: "string \<Rightarrow> Room \<Rightarrow> Room" where
  "Room_RemoveSocket i r = r\<lparr>room_sockets := gm_delete i (room_sockets r)\<rparr>"

definition Room_HasSocket :: "string \<Rightarrow> Room \<Rightarrow> bool" where
  "Room_HasSocket i r \<longleftrightarrow> gm_has (room_sockets r) i"

definition Room_Count :: "Room \<Rightarrow> nat" where
  "Room_Count r = gm_len (room_sockets r)"

definition Room_GetSockets :: "Room \<Rightarrow> Socket list" where
  "Room_GetSockets r = gm_vals (room_sockets r)"

definition Room_Name :: "Room \<Rightarrow> string" where
  "Room_Name r = room_name r"

text \<open>\<open>Broadcast\<close> starts one goroutine per socket; each calls \<open>Send(event, data)\<close>.\<close>

definition Room_Broadcast :: "Event \<Rightarrow> gval \<Rightarrow> Room \<Rightarrow> (Socket \<times> Event \<times> gval) list" where
  "Room_Broadcast event data r = map (\<lambda>s. (s, event, data)) (gm_vals (room_sockets r))"

text \<open>\<open>BroadcastParallel\<close>: \<open>None\<close> is the early return for an empty room, otherwise the pool of
  workers it starts and waits for.\<close>

definition Room_BroadcastParallel :: "int \<Rightarrow> Room \<Rightarrow> Socket pool option" where
  "Room_BroadcastParallel workerLimit r =
     (let socketsCopy = gm_vals (room_sockets r); socketCount = int (length socketsCopy) in
      if socketCount = 0 then None
      else Some (pool_start socketsCopy (go_min socketCount workerLimit)))"

lemmas room_defs = NewRoom_def Room_AddSocket_def Room_RemoveSocket_def Room_HasSocket_def
  Room_Count_def

section \<open>The room manager\<close>

record RoomManager =
  rm_rooms :: "(string, nat) gomap"
  rm_heap :: "nat \<Rightarrow> Room"
  rm_next :: nat

definition NewRoomManager :: RoomManager where
  "NewRoomManager = \<lparr>rm_rooms = [], rm_heap = (\<lambda>_. NewRoom []), rm_next = 0\<rparr>"

definition upd_room :: "nat \<Rightarrow> (Room \<Rightarrow> Room) \<Rightarrow> RoomManager \<Rightarrow> RoomManager" where
  "upd_room a f rm = rm\<lparr>rm_heap := (rm_heap rm)(a := f (rm_heap rm a))\<rparr>"

text \<open>The two critical sections of \<open>GetRoom\<close>: the lookup under the read lock, and the second
  lookup with the creation under the write lock.\<close>

definition GetRoom_lookup :: "string \<Rightarrow> RoomManager \<Rightarrow> nat option" where
  "GetRoom_lookup name rm = gm_get (rm_rooms rm) name"

definition GetRoom_create :: "string \<Rightarrow> RoomManager \<Rightarrow> nat \<times> RoomManager" where
  "GetRoom_create name rm =
     (case gm_get (rm_rooms rm) name of
        Some a \<Rightarrow> (a, rm)
      | None \<Rightarrow>
          (let a = rm_next rm in
           (a, rm\<lparr>rm_rooms := gm_put name a (rm_rooms rm),
                  rm_heap := (rm_heap rm)(a := NewRoom name), rm_next := Suc a\<rparr>)))"

definition RoomManager_GetRoom :: "string \<Rightarrow> RoomManager \<Rightarrow> nat \<times> RoomManager" where
  "RoomManager_GetRoom name rm =
     (case GetRoom_lookup name rm of Some a \<Rightarrow> (a, rm) | None \<Rightarrow> GetRoom_create name rm)"

definition RoomManager_HasRoom :: "string \<Rightarrow> RoomManager \<Rightarrow> bool" where
  "RoomManager_HasRoom name rm \<longleftrightarrow> gm_has (rm_rooms rm) name"

definition RoomManager_RemoveRoom :: "string \<Rightarrow> RoomManager \<Rightarrow> RoomManager" where
  "RoomManager_RemoveRoom name rm = rm\<lparr>rm_rooms := gm_delete name (rm_rooms rm)\<rparr>"

definition RoomManager_GetRooms :: "RoomManager \<Rightarrow> string list" where
  "RoomManager_GetRooms rm = gm_keys (rm_rooms rm)"

definition RoomManager_JoinRoom :: "string \<Rightarrow> Socket \<Rightarrow> RoomManager \<Rightarrow> RoomManager" where
  "RoomManager_JoinRoom roomName s rm =
     (let (a, rm') = RoomManager_GetRoom roomName rm in upd_room a (Room_AddSocket s) rm')"

definition RoomManager_LeaveRoom :: "string \<Rightarrow> string \<Rightarrow> RoomManager \<Rightarrow> RoomManager" where
  "RoomManager_LeaveRoom roomName socketID rm =
     (case gm_get (rm_rooms rm) roomName of
        None \<Rightarrow> rm
      | Some a \<Rightarrow>
          (let rm' = upd_room a (Room_RemoveSocket socketID) rm in
           if Room_Count (rm_heap rm' a) = 0 then RoomManager_RemoveRoom roomName rm' else rm'))"

text \<open>One iteration of the loop of \<open>LeaveAllRooms\<close> over the copied room pointers.\<close>

definition LeaveAll_one :: "string \<Rightarrow> nat \<Rightarrow> RoomManager \<Rightarrow> RoomManager" where
  "LeaveAll_one socketID a rm =
     (if Room_HasSocket socketID (rm_heap rm a) then
        (let rm' = upd_room a (Room_RemoveSocket socketID) rm in
         if Room_Count (rm_heap rm' a) = 0
         then RoomManager_RemoveRoom (room_name (rm_heap rm' a)) rm' else rm')
      else rm)"

definition RoomManager_LeaveAllRooms :: "string \<Rightarrow> RoomManager \<Rightarrow> RoomManager" where
  "RoomManager_LeaveAllRooms socketID rm =
     fold (LeaveAll_one socketID) (gm_vals (rm_rooms rm)) rm"

definition RoomManager_GetSocketRooms :: "string \<Rightarrow> RoomManager \<Rightarrow> string list" where
  "RoomManager_GetSocketRooms socketID rm =
     map fst (filter (\<lambda>(name, a). Room_HasSocket socketID (rm_heap rm a)) (rm_rooms rm))"

text \<open>\<open>BroadcastToRoom\<close> uses at most ten workers; a room that does not exist is skipped.\<close>

definition RoomManager_BroadcastToRoom :: "string \<Rightarrow> RoomManager \<Rightarrow> Socket pool option" where
  "RoomManager_BroadcastToRoom roomName rm =
     (case gm_get (rm_rooms rm) roomName of
        None \<Rightarrow> None
      | Some a \<Rightarrow> Room_BroadcastParallel 10 (rm_heap rm a))"

section \<open>Membership, and the invariant of the manager\<close>

text \<open>The abstract view: which socket (by identifier) is in which room.\<close>

definition rm_member :: "RoomManager \<Rightarrow> string \<Rightarrow> string \<Rightarrow> bool" where
  "rm_member rm name i \<longleftrightarrow>
     (case gm_get (rm_rooms rm) name of None \<Rightarrow> False | Some a \<Rightarrow> Room_HasSocket i (rm_heap rm a))"

text \<open>The room maps are maps, every pointer in the map is an allocated room that bears the name
  it is stored under, and a socket is stored under its own identifier.\<close>

definition room_ok :: "Room \<Rightarrow> bool" where
  "room_ok r \<longleftrightarrow> gm_ok (room_sockets r) \<and>
     (\<forall>i s. gm_get (room_sockets r) i = Some s \<longrightarrow> sk_ID s = i)"

definition rm_ok :: "RoomManager \<Rightarrow> bool" where
  "rm_ok rm \<longleftrightarrow> gm_ok (rm_rooms rm) \<and> (\<forall>a. room_ok (rm_heap rm a)) \<and>
     (\<forall>name a. gm_get (rm_rooms rm) name = Some a \<longrightarrow>
        a < rm_next rm \<and> room_name (rm_heap rm a) = name)"

lemma room_ok_New [simp, wf_intros]: "room_ok (NewRoom n)"
  by (simp add: room_ok_def NewRoom_def)

lemma room_ok_Add [simp, wf_intros]: "room_ok r \<Longrightarrow> room_ok (Room_AddSocket s r)"
  by (auto simp: room_ok_def Room_AddSocket_def split: if_splits)

lemma room_ok_Remove [simp, wf_intros]: "room_ok r \<Longrightarrow> room_ok (Room_RemoveSocket i r)"
  by (auto simp: room_ok_def Room_RemoveSocket_def split: if_splits)

lemma room_name_simps [simp]:
  "room_name (NewRoom n) = n"
  "room_name (Room_AddSocket s r) = room_name r"
  "room_name (Room_RemoveSocket i r) = room_name r"
  by (simp_all add: room_defs)

lemma HasSocket_simps [simp]:
  "\<not> Room_HasSocket i (NewRoom n)"
  "Room_HasSocket i (Room_AddSocket s r) \<longleftrightarrow> i = sk_ID s \<or> Room_HasSocket i r"
  "Room_HasSocket i (Room_RemoveSocket j r) \<longleftrightarrow> i \<noteq> j \<and> Room_HasSocket i r"
  by (simp_all add: room_defs)

lemma Count_0_iff [simp]: "Room_Count r = 0 \<longleftrightarrow> (\<forall>i. \<not> Room_HasSocket i r)"
  unfolding Room_Count_def Room_HasSocket_def gm_len_0 by (rule gm_empty_iff)

lemma upd_room_simps [simp]:
  "rm_rooms (upd_room a f rm) = rm_rooms rm"
  "rm_next (upd_room a f rm) = rm_next rm"
  "rm_heap (upd_room a f rm) = (rm_heap rm)(a := f (rm_heap rm a))"
  by (simp_all add: upd_room_def)

lemma RemoveRoom_simps [simp]:
  "rm_rooms (RoomManager_RemoveRoom n rm) = gm_delete n (rm_rooms rm)"
  "rm_next (RoomManager_RemoveRoom n rm) = rm_next rm"
  "rm_heap (RoomManager_RemoveRoom n rm) = rm_heap rm"
  by (simp_all add: RoomManager_RemoveRoom_def)

lemma rm_ok_New [simp, wf_intros]: "rm_ok NewRoomManager"
  by (simp add: rm_ok_def NewRoomManager_def)

lemma rm_ok_upd [wf_intros]:
  "rm_ok rm \<Longrightarrow> (\<And>r. room_ok r \<Longrightarrow> room_ok (f r)) \<Longrightarrow> (\<And>r. room_name (f r) = room_name r) \<Longrightarrow>
     rm_ok (upd_room a f rm)"
  by (auto simp: rm_ok_def)

lemma rm_ok_Add [simp, wf_intros]: "rm_ok rm \<Longrightarrow> rm_ok (upd_room a (Room_AddSocket s) rm)"
  by (rule rm_ok_upd) simp_all

lemma rm_ok_RemoveSocket [simp, wf_intros]:
  "rm_ok rm \<Longrightarrow> rm_ok (upd_room a (Room_RemoveSocket i) rm)"
  by (rule rm_ok_upd) simp_all

lemma rm_ok_RemoveRoom [simp, wf_intros]: "rm_ok rm \<Longrightarrow> rm_ok (RoomManager_RemoveRoom n rm)"
  by (auto simp: rm_ok_def split: if_splits)

lemma rm_okD:
  assumes "rm_ok rm" and "gm_get (rm_rooms rm) n = Some a"
  shows "a < rm_next rm" "room_name (rm_heap rm a) = n"
  using assms by (auto simp: rm_ok_def)

lemma rm_ok_fresh: "rm_ok rm \<Longrightarrow> gm_get (rm_rooms rm) n \<noteq> Some (rm_next rm)"
  using rm_okD(1) [of rm n "rm_next rm"] by auto

lemma rm_ok_create [wf_intros]: "rm_ok rm \<Longrightarrow> GetRoom_create n rm = (a, rm') \<Longrightarrow> rm_ok rm'"
  using rm_ok_fresh [of rm]
  by (auto simp: rm_ok_def GetRoom_create_def Let_def less_Suc_eq split: option.splits if_splits)

lemma GetRoom_eq_create: "RoomManager_GetRoom n rm = GetRoom_create n rm"
  by (simp add: RoomManager_GetRoom_def GetRoom_lookup_def GetRoom_create_def split: option.split)

lemma rm_ok_GetRoom [wf_intros]: "rm_ok rm \<Longrightarrow> RoomManager_GetRoom n rm = (a, rm') \<Longrightarrow> rm_ok rm'"
  by (auto simp: GetRoom_eq_create intro: rm_ok_create)

lemma GetRoom_get: "RoomManager_GetRoom n rm = (a, rm') \<Longrightarrow> gm_get (rm_rooms rm') n = Some a"
  by (auto simp: GetRoom_eq_create GetRoom_create_def Let_def split: option.splits)

lemma rm_ok_inj:
  "rm_ok rm \<Longrightarrow> gm_get (rm_rooms rm) n = Some a \<Longrightarrow> gm_get (rm_rooms rm) n' = Some a \<Longrightarrow> n = n'"
  using rm_okD(2) [of rm n a] rm_okD(2) [of rm n' a] by simp

lemma member_GetRoom:
  "RoomManager_GetRoom n rm = (a, rm') \<Longrightarrow> rm_ok rm \<Longrightarrow> rm_member rm' n' i \<longleftrightarrow> rm_member rm n' i"
  using rm_ok_fresh [of rm n']
  by (auto simp: GetRoom_eq_create GetRoom_create_def Let_def rm_member_def
      split: option.splits if_splits)

lemma rm_ok_Join [simp, wf_intros]: "rm_ok rm \<Longrightarrow> rm_ok (RoomManager_JoinRoom n s rm)"
  by (auto simp: RoomManager_JoinRoom_def split: prod.split intro: rm_ok_Add rm_ok_GetRoom)

lemma rm_ok_Leave [simp, wf_intros]: "rm_ok rm \<Longrightarrow> rm_ok (RoomManager_LeaveRoom n i rm)"
  by (auto simp: RoomManager_LeaveRoom_def Let_def split: option.split)

lemma rm_ok_LeaveAll_one [simp, wf_intros]: "rm_ok rm \<Longrightarrow> rm_ok (LeaveAll_one i a rm)"
  by (auto simp: LeaveAll_one_def Let_def)

lemma rm_ok_LeaveAll_fold: "rm_ok rm \<Longrightarrow> rm_ok (fold (LeaveAll_one i) as rm)"
  by (induction as arbitrary: rm) simp_all

lemma rm_ok_LeaveAll [simp, wf_intros]: "rm_ok rm \<Longrightarrow> rm_ok (RoomManager_LeaveAllRooms i rm)"
  by (simp add: RoomManager_LeaveAllRooms_def rm_ok_LeaveAll_fold)

lemma member_Join:
  assumes "rm_ok rm"
  shows "rm_member (RoomManager_JoinRoom n s rm) n' i \<longleftrightarrow>
    (n' = n \<and> i = sk_ID s) \<or> rm_member rm n' i"
proof -
  obtain a rm' where g: "RoomManager_GetRoom n rm = (a, rm')" by fastforce
  with assms have ok: "rm_ok rm'" by (auto intro: rm_ok_GetRoom)
  have "rm_member (upd_room a (Room_AddSocket s) rm') n' i \<longleftrightarrow>
      (n' = n \<and> i = sk_ID s) \<or> rm_member rm' n' i"
    using GetRoom_get [OF g] rm_ok_inj [OF ok, of n a n']
    by (auto simp: rm_member_def split: option.splits)
  then show ?thesis
    using member_GetRoom [OF g assms] by (simp add: RoomManager_JoinRoom_def g)
qed

lemma member_upd_remove:
  "rm_ok rm \<Longrightarrow> gm_get (rm_rooms rm) n = Some a \<Longrightarrow>
     rm_member (upd_room a (Room_RemoveSocket i) rm) n' i' \<longleftrightarrow>
       \<not> (n' = n \<and> i' = i) \<and> rm_member rm n' i'"
  using rm_ok_inj [of rm n a n'] by (auto simp: rm_member_def split: option.splits)

lemma member_RemoveRoom_empty:
  "gm_get (rm_rooms rm) n = Some a \<Longrightarrow> Room_Count (rm_heap rm a) = 0 \<Longrightarrow>
     rm_member (RoomManager_RemoveRoom n rm) n' i \<longleftrightarrow> rm_member rm n' i"
  by (auto simp: rm_member_def split: option.splits)

lemma member_Leave:
  assumes "rm_ok rm"
  shows "rm_member (RoomManager_LeaveRoom n i rm) n' i' \<longleftrightarrow>
    \<not> (n' = n \<and> i' = i) \<and> rm_member rm n' i'"
proof (cases "gm_get (rm_rooms rm) n")
  case None
  then show ?thesis by (auto simp: RoomManager_LeaveRoom_def rm_member_def)
next
  case (Some a)
  let ?rm = "upd_room a (Room_RemoveSocket i) rm"
  have "rm_member (RoomManager_LeaveRoom n i rm) n' i' \<longleftrightarrow> rm_member ?rm n' i'"
    using Some member_RemoveRoom_empty [of ?rm n a n' i']
    by (simp add: RoomManager_LeaveRoom_def Let_def del: Count_0_iff)
  with member_upd_remove [OF assms Some] show ?thesis by simp
qed

text \<open>One iteration of \<open>LeaveAllRooms\<close> acts on the room the pointer belongs to.\<close>

lemma member_LeaveAll_one:
  assumes "rm_ok rm" and "gm_get (rm_rooms rm) n = Some a"
  shows "rm_member (LeaveAll_one i a rm) n' i' \<longleftrightarrow> \<not> (n' = n \<and> i' = i) \<and> rm_member rm n' i'"
proof (cases "Room_HasSocket i (rm_heap rm a)")
  case False
  then show ?thesis using assms(2) by (auto simp: LeaveAll_one_def rm_member_def)
next
  case True
  have "room_name (rm_heap rm a) = n" using assms by (simp add: rm_ok_def)
  with True assms(2) have "LeaveAll_one i a rm = RoomManager_LeaveRoom n i rm"
    by (simp add: LeaveAll_one_def RoomManager_LeaveRoom_def Let_def del: Count_0_iff)
  with member_Leave [OF assms(1)] show ?thesis by simp
qed

lemma LeaveAll_one_rooms:
  "rm_ok rm \<Longrightarrow> gm_get (rm_rooms rm) n = Some a \<Longrightarrow> n' \<noteq> n \<Longrightarrow>
     gm_get (rm_rooms (LeaveAll_one i a rm)) n' = gm_get (rm_rooms rm) n'"
  by (auto simp: LeaveAll_one_def Let_def rm_ok_def)

lemma member_LeaveAll_fold:
  assumes "rm_ok rm" and "distinct (map fst es)"
    and "\<And>n a. (n, a) \<in> set es \<Longrightarrow> gm_get (rm_rooms rm) n = Some a"
  shows "rm_member (fold (LeaveAll_one i) (map snd es) rm) n' i' \<longleftrightarrow>
    \<not> (n' \<in> fst ` set es \<and> i' = i) \<and> rm_member rm n' i'"
  using assms
proof (induction es arbitrary: rm)
  case Nil
  then show ?case by simp
next
  case (Cons e es)
  obtain n a where e: "e = (n, a)" by fastforce
  have g: "gm_get (rm_rooms rm) n = Some a" using Cons.prems(3) e by simp
  let ?rm = "LeaveAll_one i a rm"
  have rest: "gm_get (rm_rooms ?rm) n' = Some a'" if "(n', a') \<in> set es" for n' a'
  proof -
    have "n' \<noteq> n" using that Cons.prems(2) e by force
    then show ?thesis
      using LeaveAll_one_rooms [OF Cons.prems(1) g, of n'] Cons.prems(3) [of n' a'] that by simp
  qed
  have "rm_member (fold (LeaveAll_one i) (map snd es) ?rm) n' i' \<longleftrightarrow>
      \<not> (n' \<in> fst ` set es \<and> i' = i) \<and> rm_member ?rm n' i'"
    using Cons.IH [of ?rm] Cons.prems(1,2) rest by simp
  then show ?case
    using member_LeaveAll_one [OF Cons.prems(1) g] e by auto
qed

lemma member_LeaveAll:
  assumes "rm_ok rm"
  shows "rm_member (RoomManager_LeaveAllRooms i rm) n' i' \<longleftrightarrow> i' \<noteq> i \<and> rm_member rm n' i'"
proof -
  have ok: "gm_ok (rm_rooms rm)" using assms by (simp add: rm_ok_def)
  have "rm_member (RoomManager_LeaveAllRooms i rm) n' i' \<longleftrightarrow>
      \<not> (n' \<in> fst ` set (rm_rooms rm) \<and> i' = i) \<and> rm_member rm n' i'"
    unfolding RoomManager_LeaveAllRooms_def gm_vals_def
    by (rule member_LeaveAll_fold [OF assms]) (use ok gm_entries_iff [OF ok] in \<open>auto simp: gm_ok_def\<close>)
  moreover have "rm_member rm n' i' \<Longrightarrow> n' \<in> fst ` set (rm_rooms rm)"
    by (cases "gm_get (rm_rooms rm) n'") (auto simp: rm_member_def dest: map_of_SomeD intro: rev_image_eqI)
  ultimately show ?thesis by auto
qed

text \<open>The manager is a subscription registry.  Sockets join through a pointer; the contract
  speaks of identifiers, so the pointer of an identifier is fixed by an address map.\<close>

interpretation rooms: subscriptions rm_ok rm_member
  "\<lambda>n i. RoomManager_JoinRoom n (SocketRef a i)" RoomManager_LeaveRoom RoomManager_LeaveAllRooms
  for a
  by unfold_locales (simp_all add: member_Join member_Leave member_LeaveAll)

section \<open>The sockets rooms point to\<close>

definition rm_refs :: "RoomManager \<Rightarrow> Socket set" where
  "rm_refs rm = {s. \<exists>a i. gm_get (room_sockets (rm_heap rm a)) i = Some s}"

lemma rm_refs_simps [simp]:
  "rm_refs NewRoomManager = {}" "rm_refs (RoomManager_RemoveRoom n rm) = rm_refs rm"
  by (simp_all add: rm_refs_def NewRoomManager_def NewRoom_def)

lemma rm_refs_upd:
  "rm_refs (upd_room a (Room_RemoveSocket i) rm) \<subseteq> rm_refs rm"
  "rm_refs (upd_room a (Room_AddSocket s) rm) \<subseteq> insert s (rm_refs rm)"
  by (auto simp: rm_refs_def room_defs split: if_splits)

lemma rm_refs_GetRoom: "RoomManager_GetRoom n rm = (a, rm') \<Longrightarrow> rm_refs rm' \<subseteq> rm_refs rm"
  by (auto simp: GetRoom_eq_create GetRoom_create_def Let_def rm_refs_def NewRoom_def split: option.splits if_splits) metis

lemma rm_refs_Join: "rm_refs (RoomManager_JoinRoom n s rm) \<subseteq> insert s (rm_refs rm)"
proof -
  obtain a rm' where g: "RoomManager_GetRoom n rm = (a, rm')" by fastforce
  show ?thesis using rm_refs_GetRoom [OF g] rm_refs_upd(2) [of a s rm']
    by (auto simp: RoomManager_JoinRoom_def g)
qed

lemma rm_refs_Leave: "rm_refs (RoomManager_LeaveRoom n i rm) \<subseteq> rm_refs rm"
  using rm_refs_upd(1) by (auto simp: RoomManager_LeaveRoom_def Let_def split: option.splits if_splits)

lemma rm_refs_LeaveAll_one: "rm_refs (LeaveAll_one i a rm) \<subseteq> rm_refs rm"
  using rm_refs_upd(1) [of a i rm] by (simp add: LeaveAll_one_def Let_def)

lemma rm_refs_LeaveAll: "rm_refs (RoomManager_LeaveAllRooms i rm) \<subseteq> rm_refs rm"
proof -
  have "rm_refs (fold (LeaveAll_one i) as rm) \<subseteq> rm_refs rm" for as
    by (induction as arbitrary: rm) (simp, metis fold_simps(2) rm_refs_LeaveAll_one subset_trans)
  then show ?thesis by (simp add: RoomManager_LeaveAllRooms_def)
qed

section \<open>Which rooms exist\<close>

lemma HasRoom_RemoveRoom [simp]:
  "RoomManager_HasRoom n (RoomManager_RemoveRoom m rm) \<longleftrightarrow> n \<noteq> m \<and> RoomManager_HasRoom n rm"
  by (simp add: RoomManager_HasRoom_def)

lemma HasRoom_upd [simp]: "RoomManager_HasRoom n (upd_room a f rm) = RoomManager_HasRoom n rm"
  by (simp add: RoomManager_HasRoom_def)

lemma member_HasRoom: "rm_member rm n i \<Longrightarrow> RoomManager_HasRoom n rm"
  by (auto simp: rm_member_def RoomManager_HasRoom_def gm_has_def split: option.splits)

lemma HasSocket_member:
  "gm_get (rm_rooms rm) n = Some a \<Longrightarrow> Room_HasSocket i (rm_heap rm a) \<longleftrightarrow> rm_member rm n i"
  by (simp add: rm_member_def)

lemma HasRoom_Leave:
  assumes "rm_ok rm"
  shows "RoomManager_HasRoom n' (RoomManager_LeaveRoom n i rm) \<longleftrightarrow>
    RoomManager_HasRoom n' rm \<and> \<not> (n' = n \<and> (\<forall>j. rm_member rm n j \<longrightarrow> j = i))"
proof (cases "gm_get (rm_rooms rm) n")
  case None
  then show ?thesis
    by (auto simp: RoomManager_LeaveRoom_def RoomManager_HasRoom_def gm_has_def)
next
  case (Some a)
  then show ?thesis
    by (auto simp: RoomManager_LeaveRoom_def Let_def HasSocket_member)
qed

lemma HasRoom_LeaveAll_one:
  assumes "rm_ok rm" "gm_get (rm_rooms rm) n = Some a"
  shows "RoomManager_HasRoom n' (LeaveAll_one i a rm) \<longleftrightarrow>
    RoomManager_HasRoom n' rm \<and>
    \<not> (n' = n \<and> rm_member rm n i \<and> (\<forall>j. rm_member rm n j \<longrightarrow> j = i))"
  using rm_okD(2) [OF assms] assms(2)
  by (auto simp: LeaveAll_one_def Let_def HasSocket_member)

lemma HasRoom_LeaveAll_fold:
  assumes "rm_ok rm" and "distinct (map fst es)"
    and "\<And>n a. (n, a) \<in> set es \<Longrightarrow> gm_get (rm_rooms rm) n = Some a"
  shows "RoomManager_HasRoom n' (fold (LeaveAll_one i) (map snd es) rm) \<longleftrightarrow>
    RoomManager_HasRoom n' rm \<and>
    \<not> (n' \<in> fst ` set es \<and> rm_member rm n' i \<and> (\<forall>j. rm_member rm n' j \<longrightarrow> j = i))"
  using assms
proof (induction es arbitrary: rm)
  case Nil
  then show ?case by simp
next
  case (Cons e es)
  obtain n a where e: "e = (n, a)" by fastforce
  have g: "gm_get (rm_rooms rm) n = Some a" using Cons.prems(3) e by simp
  let ?rm = "LeaveAll_one i a rm"
  have notin: "n \<notin> fst ` set es" using Cons.prems(2) e by auto
  have rest: "gm_get (rm_rooms ?rm) n' = Some a'" if "(n', a') \<in> set es" for n' a'
    using that notin LeaveAll_one_rooms [OF Cons.prems(1) g, of n'] Cons.prems(3) [of n' a']
    by (force intro: rev_image_eqI)
  have "RoomManager_HasRoom n' (fold (LeaveAll_one i) (map snd es) ?rm) \<longleftrightarrow>
      RoomManager_HasRoom n' ?rm \<and>
      \<not> (n' \<in> fst ` set es \<and> rm_member ?rm n' i \<and> (\<forall>j. rm_member ?rm n' j \<longrightarrow> j = i))"
    using Cons.IH [of ?rm] Cons.prems(1,2) rest by simp
  moreover have "fold (LeaveAll_one i) (map snd (e # es)) rm =
      fold (LeaveAll_one i) (map snd es) ?rm"
    by (simp add: e)
  moreover have "RoomManager_HasRoom n' ?rm \<longleftrightarrow> RoomManager_HasRoom n' rm \<and>
      \<not> (n' = n \<and> rm_member rm n i \<and> (\<forall>j. rm_member rm n j \<longrightarrow> j = i))"
    by (rule HasRoom_LeaveAll_one [OF Cons.prems(1) g])
  moreover have "n' \<noteq> n \<Longrightarrow> rm_member ?rm n' j \<longleftrightarrow> rm_member rm n' j" for j
    using member_LeaveAll_one [OF Cons.prems(1) g] by simp
  ultimately show ?case using notin by (cases "n' = n") (simp_all add: e)
qed

lemma HasRoom_LeaveAll:
  assumes "rm_ok rm"
  shows "RoomManager_HasRoom n (RoomManager_LeaveAllRooms i rm) \<longleftrightarrow>
    RoomManager_HasRoom n rm \<and> \<not> (rm_member rm n i \<and> (\<forall>j. rm_member rm n j \<longrightarrow> j = i))"
proof -
  have ok: "gm_ok (rm_rooms rm)" using assms by (simp add: rm_ok_def)
  have "RoomManager_HasRoom n (RoomManager_LeaveAllRooms i rm) \<longleftrightarrow>
      RoomManager_HasRoom n rm \<and> \<not> (n \<in> fst ` set (rm_rooms rm) \<and>
        rm_member rm n i \<and> (\<forall>j. rm_member rm n j \<longrightarrow> j = i))"
    unfolding RoomManager_LeaveAllRooms_def gm_vals_def
    by (rule HasRoom_LeaveAll_fold [OF assms])
      (use ok gm_entries_iff [OF ok] in \<open>auto simp: gm_ok_def\<close>)
  moreover have "RoomManager_HasRoom n rm \<Longrightarrow> n \<in> fst ` set (rm_rooms rm)"
    by (simp add: RoomManager_HasRoom_def gm_has_keys gm_keys_def)
  ultimately show ?thesis by auto
qed

lemma HasRoom_GetRoom:
  "RoomManager_GetRoom n rm = (a, rm') \<Longrightarrow>
     RoomManager_HasRoom n' rm' \<longleftrightarrow> n' = n \<or> RoomManager_HasRoom n' rm"
  by (auto simp: GetRoom_eq_create GetRoom_create_def Let_def RoomManager_HasRoom_def gm_has_def
      split: option.splits if_splits)

lemma HasRoom_Join [simp]:
  "RoomManager_HasRoom n' (RoomManager_JoinRoom n s rm) \<longleftrightarrow> n' = n \<or> RoomManager_HasRoom n' rm"
  by (auto simp: RoomManager_JoinRoom_def HasRoom_GetRoom split: prod.split)

lemma GetSocketRooms_set:
  "rm_ok rm \<Longrightarrow> set (RoomManager_GetSocketRooms i rm) = {n. rm_member rm n i}"
proof -
  assume "rm_ok rm"
  then have ok: "gm_ok (rm_rooms rm)" by (simp add: rm_ok_def)
  have "n \<in> set (RoomManager_GetSocketRooms i rm) \<longleftrightarrow>
      (\<exists>a. gm_get (rm_rooms rm) n = Some a \<and> Room_HasSocket i (rm_heap rm a))" for n
    unfolding RoomManager_GetSocketRooms_def gm_entries_iff [OF ok, symmetric]
    by (auto simp: image_iff Bex_def)
  then show ?thesis by (auto simp: rm_member_def split: option.splits)
qed

lemma GetSockets_IDs:
  assumes "room_ok r"
  shows "mset (map sk_ID (Room_GetSockets r)) = mset_set {i. Room_HasSocket i r}"
proof -
  have ok: "gm_ok (room_sockets r)" using assms by (simp add: room_ok_def)
  have "map sk_ID (Room_GetSockets r) = gm_keys (room_sockets r)"
    using assms
    by (auto simp: Room_GetSockets_def gm_vals_def gm_keys_def room_ok_def gm_entries_iff [OF ok])
  moreover have "{i. Room_HasSocket i r} = set (gm_keys (room_sockets r))"
    by (auto simp: Room_HasSocket_def gm_has_keys)
  moreover have "mset (gm_keys (room_sockets r)) = mset_set (set (gm_keys (room_sockets r)))"
    using ok mset_set_set [of "gm_keys (room_sockets r)"] by (simp only: gm_ok_def gm_keys_def)
  ultimately show ?thesis by simp
qed

lemma BroadcastParallel_pool_inv:
  "Room_BroadcastParallel k r = Some p \<Longrightarrow>
     pool_inv (mset (Room_GetSockets r)) (nat (min (int (length (Room_GetSockets r))) k)) p \<and>
     Room_GetSockets r \<noteq> []"
  using pool_inv_start [of "Room_GetSockets r" "min (int (length (Room_GetSockets r))) k"]
  by (auto simp: Room_BroadcastParallel_def Room_GetSockets_def Let_def split: if_splits)

section \<open>Properties\<close>

text \<open>C3. The room manager implements a membership relation: joining adds exactly one pair,
  leaving removes exactly one, leaving all rooms removes exactly the pairs of one socket;
  every operation keeps the representation invariant, and \<open>GetSocketRooms\<close> lists the relation.\<close>

theorem RoomManager_refines_membership:
  assumes "rm_ok rm"
  shows "rm_ok (RoomManager_JoinRoom n s rm) \<and> rm_ok (RoomManager_LeaveRoom n i rm) \<and>
    rm_ok (RoomManager_LeaveAllRooms i rm) \<and>
    (rm_member (RoomManager_JoinRoom n s rm) n' j \<longleftrightarrow> n' = n \<and> j = sk_ID s \<or> rm_member rm n' j) \<and>
    (rm_member (RoomManager_LeaveRoom n i rm) n' j \<longleftrightarrow> \<not> (n' = n \<and> j = i) \<and> rm_member rm n' j) \<and>
    (rm_member (RoomManager_LeaveAllRooms i rm) n' j \<longleftrightarrow> j \<noteq> i \<and> rm_member rm n' j) \<and>
    (n \<in> set (RoomManager_GetSocketRooms i rm) \<longleftrightarrow> rm_member rm n i)"
  using assms rooms.mem_leave [OF assms] rooms.mem_leave_all [OF assms] member_Join [OF assms]
  by (auto simp: GetSocketRooms_set)

theorem RoomManager_refines_membership_witness:
  "rm_ok NewRoomManager \<and>
   rm_member (RoomManager_JoinRoom ''lobby'' (SocketRef 7 ''a'') NewRoomManager) ''lobby'' ''a''"
  using RoomManager_refines_membership
      [of NewRoomManager "''lobby''" "SocketRef 7 ''a''" "''a''" "''lobby''" "''a''"]
  by simp

text \<open>A room disappears exactly when its last member leaves.  \<open>LeaveAllRooms\<close> deletes the
  rooms whose only member was the leaving socket and no other; in particular a room that was
  created without members (by \<open>In\<close>, through \<open>GetRoom\<close>) is never deleted by it, while
  \<open>LeaveRoom\<close> on an empty room deletes it.\<close>

theorem rooms_exist_iff:
  assumes "rm_ok rm"
  shows "(RoomManager_HasRoom n (RoomManager_LeaveAllRooms i rm) \<longleftrightarrow>
      RoomManager_HasRoom n rm \<and> \<not> (rm_member rm n i \<and> (\<forall>j. rm_member rm n j \<longrightarrow> j = i))) \<and>
    (RoomManager_HasRoom n (RoomManager_LeaveRoom m i rm) \<longleftrightarrow>
      RoomManager_HasRoom n rm \<and> \<not> (n = m \<and> (\<forall>j. rm_member rm m j \<longrightarrow> j = i))) \<and>
    (RoomManager_HasRoom n (RoomManager_JoinRoom m s rm) \<longleftrightarrow> n = m \<or> RoomManager_HasRoom n rm)"
  using HasRoom_LeaveAll [OF assms] HasRoom_Leave [OF assms] by simp

theorem rooms_exist_iff_witness:
  "\<not> RoomManager_HasRoom ''lobby''
      (RoomManager_LeaveAllRooms ''a''
        (RoomManager_JoinRoom ''lobby'' (SocketRef 7 ''a'') NewRoomManager))"
proof -
  let ?rm = "RoomManager_JoinRoom ''lobby'' (SocketRef 7 ''a'') NewRoomManager"
  have ok: "rm_ok ?rm" by simp
  have "rm_member ?rm ''lobby'' j \<longleftrightarrow> j = ''a''" for j
    by (simp add: member_Join) (simp add: rm_member_def NewRoomManager_def)
  with rooms_exist_iff [OF ok, of "''lobby''" "''a''"] show ?thesis by simp
qed

text \<open>C1. \<open>BroadcastToRoom\<close> delivers exactly once.  However the producer and the (at most
  ten) workers interleave, when \<open>wg.Wait\<close> has returned every member of the room has been sent
  the message exactly once and nobody else; and every run can be completed, so the call
  returns.\<close>

theorem BroadcastToRoom_exactly_once:
  assumes "rm_ok rm" and "RoomManager_BroadcastToRoom n rm = Some p" and "pool_reach p q"
  shows "(pool_returned q \<longrightarrow> mset (map sk_ID (pl_sent q)) = mset_set {i. rm_member rm n i}) \<and>
    (\<exists>r. pool_reach q r \<and> pool_returned r) \<and> length (pl_workers q) \<le> 10"
proof -
  from assms(2) obtain a where a: "gm_get (rm_rooms rm) n = Some a"
      and p: "Room_BroadcastParallel 10 (rm_heap rm a) = Some p"
    by (auto simp: RoomManager_BroadcastToRoom_def split: option.splits)
  let ?S = "Room_GetSockets (rm_heap rm a)" and ?n = "nat (min (int (length (Room_GetSockets (rm_heap rm a)))) 10)"
  have inv: "pool_inv (mset ?S) ?n q" and ne: "?S \<noteq> []"
    using BroadcastParallel_pool_inv [OF p] pool_reach_inv [OF assms(3)] by blast+
  have "mset (map sk_ID (pl_sent q)) = mset_set {i. rm_member rm n i}" if "pool_returned q"
  proof -
    have "mset (pl_sent q) = mset ?S" using pool_returned_sent [OF inv that] ne by simp
    then have "mset (map sk_ID (pl_sent q)) = mset (map sk_ID ?S)" by (metis mset_map)
    with GetSockets_IDs [of "rm_heap rm a"] assms(1) show ?thesis
      by (simp add: rm_ok_def HasSocket_member [OF a])
  qed
  moreover have "length (pl_workers q) \<le> 10" using inv by (simp add: pool_inv_def)
  ultimately show ?thesis using pool_returns [OF inv] by blast
qed

definition one_member_room :: RoomManager where
  "one_member_room = RoomManager_JoinRoom ''lobby'' (SocketRef 7 ''a'') NewRoomManager"

theorem BroadcastToRoom_exactly_once_witness:
  "\<exists>p r. RoomManager_BroadcastToRoom ''lobby'' one_member_room = Some p \<and> pool_reach p r \<and>
     pool_returned r \<and> map sk_ID (pl_sent r) = [''a'']"
proof -
  have ok: "rm_ok one_member_room" by (simp add: one_member_room_def)
  have mem: "{i. rm_member one_member_room ''lobby'' i} = {''a''}"
    by (auto simp: one_member_room_def member_Join)
      (simp add: rm_member_def NewRoomManager_def)
  obtain p where p: "RoomManager_BroadcastToRoom ''lobby'' one_member_room = Some p"
    by (simp add: one_member_room_def RoomManager_BroadcastToRoom_def RoomManager_JoinRoom_def
        RoomManager_GetRoom_def GetRoom_lookup_def GetRoom_create_def NewRoomManager_def
        Room_BroadcastParallel_def Room_AddSocket_def NewRoom_def gm_put_def gm_vals_def)
  obtain r where r: "pool_reach p r" "pool_returned r"
    using BroadcastToRoom_exactly_once [OF ok p reaches.start] by blast
  have "mset (map sk_ID (pl_sent r)) = {#''a''#}"
    using BroadcastToRoom_exactly_once [OF ok p r(1)] r(2) mem by simp
  with p r show ?thesis by (auto simp del: mset_map)
qed

text \<open>With a worker limit that is not positive, \<open>BroadcastParallel\<close> on a room with members
  starts no worker: every run of it sends nothing, and it returns all the same.\<close>

theorem BroadcastParallel_no_workers:
  assumes "Room_BroadcastParallel k r = Some p" and "k \<le> 0" and "pool_reach p q"
  shows "pl_sent q = [] \<and> (\<exists>q'. pool_reach q q' \<and> pool_returned q' \<and> pl_sent q' = [])"
proof -
  have p: "p = pool_start (gm_vals (room_sockets r)) (min (int (length (gm_vals (room_sockets r)))) k)"
    using assms(1) by (auto simp: Room_BroadcastParallel_def Let_def split: if_splits)
  have none: "pl_sent q' = []" if "pool_reach p q'" for q'
    using pool_no_worker_sent [OF that [unfolded p]] assms(2) by simp
  have "pool_inv (mset (Room_GetSockets r)) (nat (min (int (length (Room_GetSockets r))) k)) q"
    using BroadcastParallel_pool_inv [OF assms(1)] pool_reach_inv [OF assms(3)] by blast
  then obtain q' where q': "pool_reach q q'" "pool_returned q'" by (blast dest: pool_returns)
  have "pool_reach p q'" by (rule reaches_trans [OF assms(3) q'(1)])
  with none assms(3) q' show ?thesis by blast
qed

theorem BroadcastParallel_no_workers_witness:
  "\<exists>p q. Room_BroadcastParallel 0 (Room_AddSocket (SocketRef 7 ''a'') (NewRoom ''lobby'')) = Some p \<and>
     pool_reach p q \<and> pool_returned q \<and> pl_sent q = []"
proof -
  obtain p where
    p: "Room_BroadcastParallel 0 (Room_AddSocket (SocketRef 7 ''a'') (NewRoom ''lobby'')) = Some p"
    by (simp add: Room_BroadcastParallel_def Room_AddSocket_def NewRoom_def gm_put_def gm_vals_def)
  with BroadcastParallel_no_workers [OF p _ reaches.start] show ?thesis by auto
qed

end
