(* ===== verification/RoomThreads.thy ===== *)
theory RoomThreads
  imports Room
begin

text \<open>
  The critical sections of \<open>room.go\<close> interleaved.  A goroutine that runs \<open>JoinRoom\<close>,
  \<open>LeaveRoom\<close> or \<open>LeaveAllRooms\<close> is a program counter with its local variables; a step executes
  one critical section (one stretch under a mutex) of one goroutine.  The invariant of the
  manager holds in every interleaving; membership does not: a socket that joins while the last
  member leaves can end up in a room that the manager has dropped.
\<close>

section \<open>Goroutines and their critical sections\<close>

datatype pc =
    Join1 string Socket            \<comment> \<open>\<open>JoinRoom\<close>: before the lookup of \<open>GetRoom\<close>\<close>
  | Join2 string Socket            \<comment> \<open>before the locked part of \<open>GetRoom\<close>\<close>
  | Join3 nat Socket               \<comment> \<open>room pointer in hand, before \<open>AddSocket\<close>\<close>
  | Leave1 string string           \<comment> \<open>\<open>LeaveRoom\<close>: before the lookup\<close>
  | Leave2 string nat string       \<comment> \<open>before \<open>RemoveSocket\<close>\<close>
  | Leave3 string nat              \<comment> \<open>before \<open>Count\<close>\<close>
  | Leave4 string                  \<comment> \<open>before \<open>RemoveRoom\<close>\<close>
  | All1 string                    \<comment> \<open>\<open>LeaveAllRooms\<close>: before the copy\<close>
  | All2 "nat list" string         \<comment> \<open>head of the loop: before \<open>HasSocket\<close>\<close>
  | All3 nat "nat list" string     \<comment> \<open>before \<open>RemoveSocket\<close>\<close>
  | All4 nat "nat list" string     \<comment> \<open>before \<open>Count\<close>\<close>
  | All5 nat "nat list" string     \<comment> \<open>before \<open>RemoveRoom\<close>\<close>
  | Done

fun pc_step :: "pc \<Rightarrow> RoomManager \<Rightarrow> pc \<times> RoomManager" where
  "pc_step (Join1 n s) rm =
     (case GetRoom_lookup n rm of Some a \<Rightarrow> (Join3 a s, rm) | None \<Rightarrow> (Join2 n s, rm))"
| "pc_step (Join2 n s) rm = (case GetRoom_create n rm of (a, rm') \<Rightarrow> (Join3 a s, rm'))"
| "pc_step (Join3 a s) rm = (Done, upd_room a (Room_AddSocket s) rm)"
| "pc_step (Leave1 n i) rm =
     (case gm_get (rm_rooms rm) n of None \<Rightarrow> (Done, rm) | Some a \<Rightarrow> (Leave2 n a i, rm))"
| "pc_step (Leave2 n a i) rm = (Leave3 n a, upd_room a (Room_RemoveSocket i) rm)"
| "pc_step (Leave3 n a) rm =
     (if Room_Count (rm_heap rm a) = 0 then (Leave4 n, rm) else (Done, rm))"
| "pc_step (Leave4 n) rm = (Done, RoomManager_RemoveRoom n rm)"
| "pc_step (All1 i) rm = (All2 (gm_vals (rm_rooms rm)) i, rm)"
| "pc_step (All2 [] i) rm = (Done, rm)"
| "pc_step (All2 (a # as) i) rm =
     (if Room_HasSocket i (rm_heap rm a) then (All3 a as i, rm) else (All2 as i, rm))"
| "pc_step (All3 a as i) rm = (All4 a as i, upd_room a (Room_RemoveSocket i) rm)"
| "pc_step (All4 a as i) rm =
     (if Room_Count (rm_heap rm a) = 0 then (All5 a as i, rm) else (All2 as i, rm))"
| "pc_step (All5 a as i) rm =
     (All2 as i, RoomManager_RemoveRoom (room_name (rm_heap rm a)) rm)"
| "pc_step Done rm = (Done, rm)"

type_synonym rsys = "RoomManager \<times> pc list"

text \<open>One step of the system: the scheduler picks a goroutine.\<close>

inductive rsys_step :: "rsys \<Rightarrow> rsys \<Rightarrow> bool" where
  run: "k < length ps \<Longrightarrow> pc_step (ps ! k) rm = (p', rm') \<Longrightarrow> rsys_step (rm, ps) (rm', ps[k := p'])"

inductive_cases rsys_stepE: "rsys_step (rm, ps) s"

abbreviation rsys_reach :: "rsys \<Rightarrow> rsys \<Rightarrow> bool" where
  "rsys_reach \<equiv> reaches rsys_step"

text \<open>A schedule is the list of goroutines in the order they move.\<close>

fun run_schedule :: "nat list \<Rightarrow> rsys \<Rightarrow> rsys" where
  "run_schedule [] s = s"
| "run_schedule (k # ks) (rm, ps) =
     (if k < length ps
      then (case pc_step (ps ! k) rm of (p', rm') \<Rightarrow> run_schedule ks (rm', ps[k := p']))
      else run_schedule ks (rm, ps))"

lemma run_schedule_reach: "rsys_reach s (run_schedule ks s)"
proof (induction ks s rule: run_schedule.induct)
  case (1 s)
  then show ?case by (simp add: reaches.start)
next
  case (2 k ks rm ps)
  show ?case
  proof (cases "k < length ps")
    case True
    obtain p' rm' where p: "pc_step (ps ! k) rm = (p', rm')" by fastforce
    have "rsys_step (rm, ps) (rm', ps[k := p'])" using True p by (rule rsys_step.run)
    moreover have "rsys_reach (rm', ps[k := p']) (run_schedule ks (rm', ps[k := p']))"
      using "2.IH"(1) [OF True] p by simp
    ultimately show ?thesis using True p by (auto intro: reaches_first)
  qed (use 2 in simp)
qed

section \<open>The invariant in every interleaving\<close>

lemma pc_step_ok: "rm_ok rm \<Longrightarrow> pc_step p rm = (p', rm') \<Longrightarrow> rm_ok rm'"
  by (cases "(p, rm)" rule: pc_step.cases)
    (auto split: option.splits prod.splits if_splits intro: rm_ok_create)

lemma rsys_step_ok: "rsys_step s t \<Longrightarrow> rm_ok (fst s) \<Longrightarrow> rm_ok (fst t)"
  by (induction rule: rsys_step.induct) (auto intro: pc_step_ok)

interpretation rsys: safe_system rsys_step "\<lambda>s. rm_ok (fst s)"
  by unfold_locales (rule rsys_step_ok)

lemmas rsys_reach_ok = rsys.reach_inv

section \<open>A goroutine that runs alone\<close>

text \<open>The number of steps a goroutine still needs when it is not disturbed is at most this.\<close>

fun pc_fuel :: "pc \<Rightarrow> RoomManager \<Rightarrow> nat" where
  "pc_fuel (Join1 n s) rm = 3"
| "pc_fuel (Join2 n s) rm = 2"
| "pc_fuel (Join3 a s) rm = 1"
| "pc_fuel (Leave1 n i) rm = 4"
| "pc_fuel (Leave2 n a i) rm = 3"
| "pc_fuel (Leave3 n a) rm = 2"
| "pc_fuel (Leave4 n) rm = 1"
| "pc_fuel (All1 i) rm = 2 + 4 * length (rm_rooms rm)"
| "pc_fuel (All2 as i) rm = 1 + 4 * length as"
| "pc_fuel (All3 a as i) rm = 4 + 4 * length as"
| "pc_fuel (All4 a as i) rm = 3 + 4 * length as"
| "pc_fuel (All5 a as i) rm = 2 + 4 * length as"
| "pc_fuel Done rm = 0"

fun run_alone :: "nat \<Rightarrow> pc \<Rightarrow> RoomManager \<Rightarrow> pc \<times> RoomManager" where
  "run_alone 0 p rm = (p, rm)"
| "run_alone (Suc k) p rm = (case pc_step p rm of (p', rm') \<Rightarrow> run_alone k p' rm')"

lemma run_alone_Done [simp]: "run_alone k Done rm = (Done, rm)"
  by (induction k) auto

lemma run_alone_add:
  "run_alone (j + k) p rm = (case run_alone j p rm of (p', rm') \<Rightarrow> run_alone k p' rm')"
  by (induction j arbitrary: p rm) (auto split: prod.split)

lemma run_alone_All2:
  "1 + 4 * length as \<le> k \<Longrightarrow> run_alone k (All2 as i) rm = (Done, fold (LeaveAll_one i) as rm)"
proof (induction as arbitrary: rm k)
  case Nil
  then show ?case by (cases k) auto
next
  case (Cons a as)
  then obtain k' where k: "k = Suc (Suc (Suc (Suc k')))" and k': "1 + 4 * length as \<le> k'"
    by (intro that [of "k - 4"]) auto
  show ?case
    using Cons.IH [of k'] Cons.IH [of "Suc k'"] Cons.IH [of "Suc (Suc (Suc k'))"] k'
    by (auto simp: k LeaveAll_one_def Let_def simp del: Count_0_iff)
qed

lemma run_alone_Join: "run_alone 3 (Join1 n s) rm = (Done, RoomManager_JoinRoom n s rm)"
  by (auto simp: numeral_3_eq_3 RoomManager_JoinRoom_def RoomManager_GetRoom_def
      split: option.split prod.split)

lemma run_alone_Leave: "run_alone 4 (Leave1 n i) rm = (Done, RoomManager_LeaveRoom n i rm)"
  by (auto simp: eval_nat_numeral RoomManager_LeaveRoom_def Let_def split: option.split
      simp del: Count_0_iff)

lemma run_alone_All:
  "run_alone (2 + 4 * length (rm_rooms rm)) (All1 i) rm = (Done, RoomManager_LeaveAllRooms i rm)"
  using run_alone_All2 [of "gm_vals (rm_rooms rm)" "1 + 4 * length (rm_rooms rm)" i rm]
  by (simp add: RoomManager_LeaveAllRooms_def gm_vals_def)

section \<open>Goroutines that join\<close>

text \<open>What holds of the goroutine \<open>k\<close> that runs \<open>JoinRoom n s\<close>, at each of its program counters.\<close>

fun join_pc_ok :: "RoomManager \<Rightarrow> string \<times> Socket \<Rightarrow> pc \<Rightarrow> bool" where
  "join_pc_ok rm (n, s) (Join1 n' s') \<longleftrightarrow> n' = n \<and> s' = s"
| "join_pc_ok rm (n, s) (Join2 n' s') \<longleftrightarrow> n' = n \<and> s' = s"
| "join_pc_ok rm (n, s) (Join3 a s') \<longleftrightarrow> gm_get (rm_rooms rm) n = Some a \<and> s' = s"
| "join_pc_ok rm (n, s) Done \<longleftrightarrow> rm_member rm n (sk_ID s)"
| "join_pc_ok rm (n, s) _ \<longleftrightarrow> False"

text \<open>Growth: no room pointer is replaced and no member is lost.\<close>

definition rm_grows :: "RoomManager \<Rightarrow> RoomManager \<Rightarrow> bool" where
  "rm_grows rm rm' \<longleftrightarrow>
     (\<forall>n a. gm_get (rm_rooms rm) n = Some a \<longrightarrow> gm_get (rm_rooms rm') n = Some a) \<and>
     (\<forall>n i. rm_member rm n i \<longrightarrow> rm_member rm' n i)"

lemma join_pc_ok_mono: "join_pc_ok rm j p \<Longrightarrow> rm_grows rm rm' \<Longrightarrow> join_pc_ok rm' j p"
  by (cases "(rm, j, p)" rule: join_pc_ok.cases) (auto simp: rm_grows_def)

lemma rm_grows_refl [simp]: "rm_grows rm rm"
  by (simp add: rm_grows_def)

lemma rm_grows_create: "rm_ok rm \<Longrightarrow> GetRoom_create n rm = (a, rm') \<Longrightarrow> rm_grows rm rm'"
  using member_GetRoom [of n rm a rm']
  by (auto simp: rm_grows_def GetRoom_eq_create)
    (auto simp: GetRoom_create_def Let_def split: option.splits if_splits)

lemma member_add_upd:
  "rm_ok rm \<Longrightarrow> gm_get (rm_rooms rm) n = Some a \<Longrightarrow>
     rm_member (upd_room a (Room_AddSocket s) rm) n' i \<longleftrightarrow>
       (n' = n \<and> i = sk_ID s) \<or> rm_member rm n' i"
  using rm_ok_inj [of rm n a n'] by (auto simp: rm_member_def split: option.splits)

lemma join_pc_step:
  assumes ok: "rm_ok rm" and j: "join_pc_ok rm (n, s) p" and st: "pc_step p rm = (p', rm')"
  shows "rm_grows rm rm' \<and> join_pc_ok rm' (n, s) p' \<and>
    (\<forall>n' i. rm_member rm' n' i \<longrightarrow> rm_member rm n' i \<or> (n' = n \<and> i = sk_ID s))"
proof (cases p)
  case (Join1 n1 s1)
  then show ?thesis using j st by (auto simp: GetRoom_lookup_def split: option.splits)
next
  case (Join2 n1 s1)
  then obtain a where g: "GetRoom_create n rm = (a, rm')" and p': "p' = Join3 a s"
    using j st by (auto split: prod.splits)
  have "gm_get (rm_rooms rm') n = Some a"
    using GetRoom_get [of n rm a rm'] g by (simp add: GetRoom_eq_create)
  then show ?thesis
    using rm_grows_create [OF ok g] member_GetRoom [of n rm a rm'] g ok p'
    by (auto simp: GetRoom_eq_create)
next
  case (Join3 a s1)
  then have a: "gm_get (rm_rooms rm) n = Some a" and "s1 = s" using j by auto
  with Join3 st have "rm' = upd_room a (Room_AddSocket s) rm" "p' = Done" by auto
  then show ?thesis using member_add_upd [OF ok a, of s] by (auto simp: rm_grows_def)
qed (use j st in auto)

definition joins_inv :: "RoomManager \<Rightarrow> (string \<times> Socket) list \<Rightarrow> rsys \<Rightarrow> bool" where
  "joins_inv rm0 js s \<longleftrightarrow> rm_ok (fst s) \<and> list_all2 (join_pc_ok (fst s)) js (snd s) \<and>
     (\<forall>n i. rm_member rm0 n i \<longrightarrow> rm_member (fst s) n i) \<and>
     (\<forall>n i. rm_member (fst s) n i \<longrightarrow> rm_member rm0 n i \<or> (\<exists>t. (n, t) \<in> set js \<and> sk_ID t = i))"

lemma joins_inv_step: "rsys_step s t \<Longrightarrow> joins_inv rm0 js s \<Longrightarrow> joins_inv rm0 js t"
proof (induction rule: rsys_step.induct)
  case (run k ps rm p' rm')
  then have all: "list_all2 (join_pc_ok rm) js ps" and ok: "rm_ok rm" by (auto simp: joins_inv_def)
  obtain n s where j: "js ! k = (n, s)" by fastforce
  have "join_pc_ok rm (n, s) (ps ! k)" using list_all2_nthD2 [OF all run(1)] j by simp
  from join_pc_step [OF ok this run(2)] have g: "rm_grows rm rm'"
    and p': "join_pc_ok rm' (n, s) p'"
    and new: "\<And>n' i. rm_member rm' n' i \<Longrightarrow> rm_member rm n' i \<or> (n' = n \<and> i = sk_ID s)"
    by auto
  have "(n, s) \<in> set js"
    using run(1) list_all2_lengthD [OF all] j by (metis nth_mem)
  moreover have "list_all2 (join_pc_ok rm') js ps"
    using all join_pc_ok_mono [OF _ g] by (auto elim: list_all2_mono)
  then have "list_all2 (join_pc_ok rm') js (ps[k := p'])"
    using p' j run(1) by (auto simp: list_all2_conv_all_nth nth_list_update)
  ultimately show ?case
    using run(3) g new pc_step_ok [OF ok run(2)] unfolding joins_inv_def rm_grows_def fst_conv snd_conv
    by blast
qed

interpretation joins: safe_system rsys_step "joins_inv rm0 js" for rm0 js
  by unfold_locales (rule joins_inv_step)

lemmas joins_inv_reach = joins.reach_inv

lemma joins_inv_start:
  "rm_ok rm \<Longrightarrow> joins_inv rm js (rm, map (\<lambda>(n, s). Join1 n s) js)"
  by (auto simp: joins_inv_def list_all2_conv_all_nth split: prod.split)

section \<open>Properties\<close>

text \<open>The critical sections, run by one goroutine without interference, compute exactly the
  sequential operations, within the number of steps given.\<close>

theorem room_ops_sequential:
  "run_alone 3 (Join1 n s) rm = (Done, RoomManager_JoinRoom n s rm) \<and>
   run_alone 4 (Leave1 n i) rm = (Done, RoomManager_LeaveRoom n i rm) \<and>
   run_alone (2 + 4 * length (rm_rooms rm)) (All1 i) rm = (Done, RoomManager_LeaveAllRooms i rm)"
  by (simp only: run_alone_Join run_alone_Leave run_alone_All simp_thms)

text \<open>C23. Whatever the interleaving of joining and leaving goroutines, the manager keeps its
  representation invariant: one pointer per name, each to an allocated room of that name, and
  every socket stored under its identifier.\<close>

theorem room_invariant_all_interleavings:
  assumes "rsys_reach (NewRoomManager, ps) (rm, ps')"
  shows "rm_ok rm"
  using rsys_reach_ok [OF assms] by simp

theorem room_invariant_all_interleavings_witness:
  "rm_ok (fst (run_schedule [0, 1, 0, 1, 0] (NewRoomManager,
     [Join1 ''lobby'' (SocketRef 7 ''a''), Leave1 ''lobby'' ''a''])))"
proof -
  let ?ps = "[Join1 ''lobby'' (SocketRef 7 ''a''), Leave1 ''lobby'' ''a'']"
  let ?t = "run_schedule [0, 1, 0, 1, 0] (NewRoomManager, ?ps)"
  have "rsys_reach (NewRoomManager, ?ps) (fst ?t, snd ?t)"
    by (simp only: prod.collapse run_schedule_reach)
  then show ?thesis by (rule room_invariant_all_interleavings)
qed

text \<open>C22. Goroutines that only join never lose one another's rooms: the second lookup under the
  write lock makes them agree on the pointer.  When all have returned, membership is what it
  was plus the joined pairs, in every interleaving.\<close>

theorem concurrent_joins_all_members:
  assumes "rm_ok rm"
    and "rsys_reach (rm, map (\<lambda>(n, s). Join1 n s) js) (rm', ps)"
    and "list_all (\<lambda>p. p = Done) ps"
  shows "rm_member rm' n i \<longleftrightarrow> rm_member rm n i \<or> (\<exists>s. (n, s) \<in> set js \<and> sk_ID s = i)"
proof -
  have inv: "joins_inv rm js (rm', ps)"
    using joins_inv_reach [OF assms(2) joins_inv_start [OF assms(1)]] .
  have "rm_member rm' m (sk_ID s)" if "(m, s) \<in> set js" for m s
  proof -
    from that obtain k where k: "k < length js" "js ! k = (m, s)" by (auto simp: in_set_conv_nth)
    have "join_pc_ok rm' (m, s) (ps ! k)" "k < length ps"
      using inv k by (auto simp: joins_inv_def list_all2_conv_all_nth)
    moreover from this assms(3) have "ps ! k = Done" by (simp add: list_all_length)
    ultimately show ?thesis by simp
  qed
  with inv show ?thesis by (auto simp: joins_inv_def)
qed

theorem concurrent_joins_all_members_witness:
  "rm_member (fst (run_schedule [0, 1, 0, 1, 0, 1] (NewRoomManager,
     [Join1 ''lobby'' (SocketRef 7 ''a''), Join1 ''lobby'' (SocketRef 8 ''b'')]))) ''lobby'' ''a''"
proof -
  let ?js = "[(''lobby'', SocketRef 7 ''a''), (''lobby'', SocketRef 8 ''b'')]"
  let ?t = "run_schedule [0, 1, 0, 1, 0, 1] (NewRoomManager, map (\<lambda>(n, s). Join1 n s) ?js)"
  have "snd ?t = [Done, Done]"
    by (simp add: GetRoom_lookup_def GetRoom_create_def NewRoomManager_def gm_put_def)
  then have "list_all (\<lambda>p. p = Done) (snd ?t)" by simp
  with concurrent_joins_all_members [of NewRoomManager ?js "fst ?t" "snd ?t" "''lobby''" "''a''"]
  have "rm_member (fst ?t) ''lobby'' ''a''"
    by (simp only: prod.collapse run_schedule_reach rm_ok_New) auto
  then show ?thesis by simp
qed

text \<open>C34. A lost join.  Whenever the only member of a room leaves while another socket joins,
  there is an interleaving in which both calls return, the joining socket is in no room of that
  name, and the room does not exist: the goroutine that leaves checks the count and removes the
  room from the map in two critical sections, and the join falls between them.\<close>

theorem join_lost_when_last_member_leaves:
  assumes "rm_ok rm" and "RoomManager_HasRoom n rm" and "\<And>j. rm_member rm n j \<Longrightarrow> j = i"
  shows "\<exists>rm'. rsys_reach (rm, [Join1 n s, Leave1 n i]) (rm', [Done, Done]) \<and>
    \<not> RoomManager_HasRoom n rm' \<and> \<not> rm_member rm' n (sk_ID s)"
proof -
  from assms(2) obtain a where a: "gm_get (rm_rooms rm) n = Some a"
    by (auto simp: RoomManager_HasRoom_def gm_has_def)
  let ?t = "run_schedule [0, 1, 1, 1, 0, 1] (rm, [Join1 n s, Leave1 n i])"
  have t: "?t = (RoomManager_RemoveRoom n (upd_room a (Room_AddSocket s)
      (upd_room a (Room_RemoveSocket i) rm)), [Done, Done])"
    using a assms(3) by (simp add: GetRoom_lookup_def HasSocket_member) blast
  have "rsys_reach (rm, [Join1 n s, Leave1 n i]) ?t" by (rule run_schedule_reach)
  then show ?thesis
    unfolding t by (intro exI conjI) (auto simp: rm_member_def)
qed

theorem join_lost_when_last_member_leaves_witness:
  "\<exists>rm'. rsys_reach (one_member_room, [Join1 ''lobby'' (SocketRef 8 ''b''), Leave1 ''lobby'' ''a''])
     (rm', [Done, Done]) \<and> \<not> RoomManager_HasRoom ''lobby'' rm' \<and> \<not> rm_member rm' ''lobby'' ''b''"
proof -
  have mem: "rm_member one_member_room ''lobby'' j \<Longrightarrow> j = ''a''" for j
    by (auto simp: one_member_room_def member_Join) (simp add: rm_member_def NewRoomManager_def)
  show ?thesis
    using join_lost_when_last_member_leaves
      [of one_member_room "''lobby''" "''a''" "SocketRef 8 ''b''", OF _ _ mem]
    by (simp add: one_member_room_def)
qed

end
