(* ===== verification/ServerTransport.thy ===== *)
theory ServerTransport
  imports SocketTypes
begin

text \<open>
  \<open>socket/transport/server_transport.go\<close>: the interface \<open>ServerTransport\<close> as a locale, the
  functional effect of the WebSocket transport on a caller, and the long-polling transport.
  The goroutines of the WebSocket transport are in the theory WSPump.

  The bodies of HTTP responses are kept as the list of the raw texts of the elements of the
  JSON array that \<open>json.Encoder\<close> writes: \<open>encoding/json\<close> writes a \<open>[]byte\<close> as a string with its
  base64 text.
\<close>

section \<open>The interface\<close>

text \<open>What a socket relies on: \<open>Write\<close> reports no error, a closed transport drops what it is
  given, an open one queues it in order, closing is final and closing twice does nothing.\<close>

locale server_transport =
  fixes tr_write :: "bytes \<Rightarrow> 't \<Rightarrow> gerror option \<times> 't"
    and tr_close :: "'t \<Rightarrow> gerror option \<times> 't"
    and tr_closed :: "'t \<Rightarrow> bool"
    and tr_queued :: "'t \<Rightarrow> bytes list"
  assumes write_nil: "fst (tr_write b t) = None"
    and write_closed: "tr_closed t \<Longrightarrow> snd (tr_write b t) = t"
    and write_queued: "tr_queued (snd (tr_write b t)) =
      (if tr_closed (snd (tr_write b t)) then tr_queued t else tr_queued t @ [b])"
    and close_closed: "tr_closed (snd (tr_close t))"
    and close_again: "tr_closed t \<Longrightarrow> tr_close t = (None, t)"
    and close_queued: "tr_queued (snd (tr_close t)) = tr_queued t"
begin

definition writes :: "bytes list \<Rightarrow> 't \<Rightarrow> 't" where
  "writes bs t = fold (\<lambda>b t. snd (tr_write b t)) bs t"

lemma writes_closed: "tr_closed t \<Longrightarrow> writes bs t = t"
  by (induction bs) (auto simp: writes_def write_closed)

lemma writes_prefix: "\<exists>k. tr_queued (writes bs t) = tr_queued t @ take k bs"
proof (induction bs arbitrary: t)
  case Nil
  then show ?case by (simp add: writes_def)
next
  case (Cons b bs)
  let ?t = "snd (tr_write b t)"
  have w: "writes (b # bs) t = writes bs ?t" by (simp add: writes_def)
  show ?case
  proof (cases "tr_closed ?t")
    case True
    then show ?thesis using write_queued [of b t] writes_closed [OF True, of bs] w
      by (intro exI [of _ 0]) simp
  next
    case False
    obtain k where "tr_queued (writes bs ?t) = tr_queued ?t @ take k bs" using Cons.IH by blast
    then show ?thesis using False write_queued [of b t] w by (intro exI [of _ "Suc k"]) simp
  qed
qed

lemma close_twice: "tr_close (snd (tr_close t)) = (None, snd (tr_close t))"
  by (rule close_again) (rule close_closed)

lemma closed_drops: "writes bs (snd (tr_close t)) = snd (tr_close t)"
  by (rule writes_closed) (rule close_closed)

end

section \<open>The WebSocket transport as its caller sees it\<close>

text \<open>Calls on the \<open>gorilla/websocket\<close> connection, in the order they are made.\<close>

datatype conn_call =
    SetReadDeadline int
  | SetWriteDeadline int
  | WriteMessage bytes
  | WriteControlClose
  | ConnClose
  | EnableWriteCompression bool        \<comment> \<open>on \<open>UnderlyingConn()\<close>\<close>

record WebSocketServerConfig =
  wsc_WriteTimeout :: int
  wsc_ReadTimeout :: int
  wsc_BufferSize :: nat

definition second :: int where "second = 1000000000"

definition DefaultWebSocketServerConfig :: WebSocketServerConfig where
  "DefaultWebSocketServerConfig =
     \<lparr>wsc_WriteTimeout = 10 * second, wsc_ReadTimeout = 30 * second, wsc_BufferSize = 100\<rparr>"

record WebSocketServerTransport =
  wss_id :: string
  wss_sendCh :: "bytes chan"
  wss_closeCh :: bool                \<comment> \<open>\<open>closeCh\<close> has been closed\<close>
  wss_writeTimeout :: int
  wss_closed :: bool
  wss_calls :: "conn_call list"      \<comment> \<open>calls made on \<open>conn\<close>\<close>

definition NewWebSocketServerTransport ::
  "string \<Rightarrow> WebSocketServerConfig \<Rightarrow> int \<Rightarrow> WebSocketServerTransport" where
  "NewWebSocketServerTransport i config now =
     \<lparr>wss_id = i, wss_sendCh = make_chan (wsc_BufferSize config), wss_closeCh = False,
      wss_writeTimeout = wsc_WriteTimeout config, wss_closed = False,
      wss_calls = (if wsc_ReadTimeout config > 0
        then [SetReadDeadline (now + wsc_ReadTimeout config)] else [])\<rparr>"

definition WSS_ID :: "WebSocketServerTransport \<Rightarrow> string" where
  "WSS_ID t = wss_id t"

text \<open>\<open>Close\<close> for a caller that is not the pump and finds the pump free to exit: \<open>cerr\<close> is the
  result of \<open>conn.Close\<close>.\<close>

definition WSS_Close ::
  "gerror option \<Rightarrow> WebSocketServerTransport \<Rightarrow> gerror option \<times> WebSocketServerTransport" where
  "WSS_Close cerr t =
     (if wss_closed t then (None, t)
      else (cerr, t\<lparr>wss_closed := True, wss_closeCh := True,
                    wss_calls := wss_calls t @ [WriteControlClose, ConnClose]\<rparr>))"

text \<open>\<open>Write\<close>: a full send buffer closes the connection, and the call still returns \<open>nil\<close>.\<close>

definition WSS_Write ::
  "gerror option \<Rightarrow> bytes \<Rightarrow> WebSocketServerTransport \<Rightarrow> gerror option \<times> WebSocketServerTransport"
  where
  "WSS_Write cerr data t =
     (if wss_closed t then (None, t)
      else case ch_try_send data (wss_sendCh t) of
        Some c \<Rightarrow> (None, t\<lparr>wss_sendCh := c\<rparr>)
      | None \<Rightarrow> (None, snd (WSS_Close cerr t)))"

text \<open>\<open>Read\<close>: \<open>r\<close> is the result of \<open>conn.ReadMessage\<close>; an error closes the transport.\<close>

definition WSS_Read ::
  "gerror option \<Rightarrow> gerror + bytes \<Rightarrow> WebSocketServerTransport \<Rightarrow>
     (gerror + bytes) \<times> WebSocketServerTransport" where
  "WSS_Read cerr r t = (case r of Inl e \<Rightarrow> (Inl e, snd (WSS_Close cerr t)) | Inr m \<Rightarrow> (Inr m, t))"

interpretation wss: server_transport "WSS_Write cerr" "WSS_Close cerr" wss_closed
  "\<lambda>t. ch_buf (wss_sendCh t)" for cerr
  by unfold_locales
    (auto simp: WSS_Write_def WSS_Close_def ch_send_iff split: option.split)

text \<open>The upgrader of \<open>gorilla/websocket\<close> the server starts from; it accepts every origin.\<close>

record upgrader =
  ug_ReadBufferSize :: int
  ug_WriteBufferSize :: int
  ug_EnableCompression :: bool
  ug_CheckOrigin :: "string \<Rightarrow> bool"

definition Upgrader :: upgrader where
  "Upgrader =
     \<lparr>ug_ReadBufferSize = 1024, ug_WriteBufferSize = 1024, ug_EnableCompression = False,
      ug_CheckOrigin = (\<lambda>_. True)\<rparr>"

text \<open>The deadline before a write; \<open>now\<close> is the time the pump reads.\<close>

definition deadline_calls :: "WebSocketServerTransport \<Rightarrow> int \<Rightarrow> conn_call list" where
  "deadline_calls t now =
     (if wss_writeTimeout t > 0 then [SetWriteDeadline (now + wss_writeTimeout t)] else [])"

text \<open>A turn of \<open>writePump\<close> with a message, for a pump that runs alone; \<open>err\<close>: \<open>WriteMessage\<close> fails.
  Then the pump calls \<open>Close\<close>, which waits for the pump and never closes the connection.\<close>

definition WSS_pump_turn ::
  "bool \<Rightarrow> int \<Rightarrow> WebSocketServerTransport \<Rightarrow> WebSocketServerTransport option" where
  "WSS_pump_turn err now t =
     (if wss_closed t then None
      else case ch_try_recv (wss_sendCh t) of
        None \<Rightarrow> None
      | Some (message, c) \<Rightarrow>
          (let t' = t\<lparr>wss_sendCh := c, wss_calls := wss_calls t @ deadline_calls t now @ [WriteMessage message]\<rparr>
           in Some (if err then t'\<lparr>wss_closed := True, wss_closeCh := True,
                wss_calls := wss_calls t' @ [WriteControlClose]\<rparr> else t')))"

section \<open>HTTP responses\<close>

text \<open>What a handler does to the \<open>ResponseWriter\<close>, in order.\<close>

datatype http_op =
    HttpError string nat            \<comment> \<open>\<open>http.Error\<close>\<close>
  | SetHeader string string
  | WriteHeader nat
  | WriteText string
  | WriteJSONArray "string list"    \<comment> \<open>the raw texts of the elements\<close>

type_synonym response = "http_op list"

definition StatusOK :: nat where "StatusOK = 200"
definition StatusBadRequest :: nat where "StatusBadRequest = 400"
definition StatusNotFound :: nat where "StatusNotFound = 404"
definition StatusGone :: nat where "StatusGone = 410"
definition StatusServiceUnavailable :: nat where "StatusServiceUnavailable = 503"

text \<open>The status the client sees: the first one written, 200 when a body is written first.\<close>

fun response_status :: "response \<Rightarrow> nat" where
  "response_status [] = StatusOK"
| "response_status (HttpError _ c # _) = c"
| "response_status (WriteHeader c # _) = c"
| "response_status (WriteText _ # _) = StatusOK"
| "response_status (WriteJSONArray _ # _) = StatusOK"
| "response_status (SetHeader _ _ # ops) = response_status ops"

subsection \<open>Base64, as \<open>encoding/json\<close> writes byte slices\<close>

definition b64_table :: string where
  "b64_table = ''ABCDEFGHIJKLMNOPQRSTUVWXYZabcdefghijklmnopqrstuvwxyz0123456789+/''"

definition b64_char :: "nat \<Rightarrow> char" where
  "b64_char n = b64_table ! (n mod 64)"

fun base64 :: "bytes \<Rightarrow> string" where
  "base64 [] = []"
| "base64 [a] =
     [b64_char (unat a div 4), b64_char (unat a * 16), CHR ''='', CHR ''='']"
| "base64 [a, b] =
     [b64_char (unat a div 4), b64_char (unat a * 16 + unat b div 16),
      b64_char (unat b * 4), CHR ''='']"
| "base64 (a # b # c # bs) =
     [b64_char (unat a div 4), b64_char (unat a * 16 + unat b div 16),
      b64_char (unat b * 4 + unat c div 64), b64_char (unat c)] @ base64 bs"

definition json_quote :: "string \<Rightarrow> string" where
  "json_quote s = CHR ''\"'' # s @ [CHR ''\"'']"

text \<open>\<open>json.NewEncoder(w).Encode(messages)\<close> for \<open>messages :: [][]byte\<close>.\<close>

definition json_encode_messages :: "bytes list \<Rightarrow> http_op" where
  "json_encode_messages ms = WriteJSONArray (map (\<lambda>m. json_quote (base64 m)) ms)"

section \<open>The long-polling transport\<close>

record LongPollingServerConfig =
  lpc_DisconnectTimeout :: int
  lpc_BufferSize :: nat

definition DefaultLongPollingServerConfig :: LongPollingServerConfig where
  "DefaultLongPollingServerConfig =
     \<lparr>lpc_DisconnectTimeout = 60 * second, lpc_BufferSize = 100\<rparr>"

record LongPollingServerTransport =
  lps_id :: string
  lps_pendingMessages :: "bytes list"
  lps_incomingMessages :: "bytes chan"
  lps_lastActivity :: int
  lps_closed :: bool
  lps_disconnectTimeout :: int

definition NewLongPollingServerTransport ::
  "string \<Rightarrow> LongPollingServerConfig \<Rightarrow> int \<Rightarrow> LongPollingServerTransport" where
  "NewLongPollingServerTransport i config now =
     \<lparr>lps_id = i, lps_pendingMessages = [],
      lps_incomingMessages = make_chan (lpc_BufferSize config), lps_lastActivity = now,
      lps_closed = False, lps_disconnectTimeout = lpc_DisconnectTimeout config\<rparr>"

text \<open>\<open>Read\<close>: \<open>None\<close> while it waits; it never returns an error.\<close>

definition LPS_Read ::
  "LongPollingServerTransport \<Rightarrow> ((gerror + bytes) \<times> LongPollingServerTransport) option" where
  "LPS_Read t =
     (case ch_try_recv (lps_incomingMessages t) of
        None \<Rightarrow> None
      | Some (msg, c) \<Rightarrow> Some (Inr msg, t\<lparr>lps_incomingMessages := c\<rparr>))"

definition LPS_Write ::
  "bytes \<Rightarrow> LongPollingServerTransport \<Rightarrow> gerror option \<times> LongPollingServerTransport" where
  "LPS_Write data t =
     (if lps_closed t then (None, t)
      else (None, t\<lparr>lps_pendingMessages := lps_pendingMessages t @ [data]\<rparr>))"

definition LPS_Close ::
  "LongPollingServerTransport \<Rightarrow> gerror option \<times> LongPollingServerTransport" where
  "LPS_Close t = (None, t\<lparr>lps_closed := True\<rparr>)"

definition LPS_ID :: "LongPollingServerTransport \<Rightarrow> string" where
  "LPS_ID t = lps_id t"

definition LPS_HandlePoll ::
  "int \<Rightarrow> LongPollingServerTransport \<Rightarrow> response \<times> LongPollingServerTransport" where
  "LPS_HandlePoll now t =
     (if lps_closed t then ([HttpError ''Session closed'' StatusGone], t)
      else ([SetHeader ''Content-Type'' ''application/json'',
             json_encode_messages (lps_pendingMessages t)],
            t\<lparr>lps_lastActivity := now, lps_pendingMessages := []\<rparr>))"

text \<open>\<open>body\<close>: the result of \<open>io.ReadAll(r.Body)\<close>.\<close>

definition LPS_HandleSend ::
  "int \<Rightarrow> gerror + bytes \<Rightarrow> LongPollingServerTransport \<Rightarrow> response \<times> LongPollingServerTransport"
  where
  "LPS_HandleSend now body t =
     (if lps_closed t then ([HttpError ''Session closed'' StatusGone], t)
      else
        (let t' = t\<lparr>lps_lastActivity := now\<rparr> in
         case body of
           Inl e \<Rightarrow> ([HttpError ''Failed to read request body'' StatusBadRequest], t')
         | Inr data \<Rightarrow>
             (case ch_try_send data (lps_incomingMessages t') of
                Some c \<Rightarrow> ([WriteHeader StatusOK], t'\<lparr>lps_incomingMessages := c\<rparr>)
              | None \<Rightarrow> ([HttpError ''Message queue full'' StatusServiceUnavailable], t'))))"

definition LPS_IsExpired :: "int \<Rightarrow> LongPollingServerTransport \<Rightarrow> bool" where
  "LPS_IsExpired now t \<longleftrightarrow>
     (if lps_closed t then True else now - lps_lastActivity t > lps_disconnectTimeout t)"

interpretation lps: server_transport LPS_Write LPS_Close lps_closed lps_pendingMessages
  by unfold_locales (auto simp: LPS_Write_def LPS_Close_def)

section \<open>Sequences of operations on a long-polling transport\<close>

datatype lp_op =
    OpWrite bytes
  | OpPoll int
  | OpSend int "gerror + bytes"
  | OpRead
  | OpClose

text \<open>A step returns what the client got from a poll (the messages in their order) and what the
  receive loop got from a read.\<close>

fun lp_step :: "lp_op \<Rightarrow> LongPollingServerTransport \<Rightarrow>
    bytes list \<times> bytes list \<times> LongPollingServerTransport" where
  "lp_step (OpWrite b) t = ([], [], snd (LPS_Write b t))"
| "lp_step (OpPoll now) t =
     ((if lps_closed t then [] else lps_pendingMessages t), [], snd (LPS_HandlePoll now t))"
| "lp_step (OpSend now body) t = ([], [], snd (LPS_HandleSend now body t))"
| "lp_step OpRead t =
     (case LPS_Read t of
        Some (Inr m, t') \<Rightarrow> ([], [m], t')
      | Some (Inl e, t') \<Rightarrow> ([], [], t')
      | None \<Rightarrow> ([], [], t))"
| "lp_step OpClose t = ([], [], snd (LPS_Close t))"

fun lp_run :: "lp_op list \<Rightarrow> LongPollingServerTransport \<Rightarrow>
    bytes list \<times> bytes list \<times> LongPollingServerTransport" where
  "lp_run [] t = ([], [], t)"
| "lp_run (x # xs) t =
     (case lp_step x t of (d, r, t') \<Rightarrow>
        case lp_run xs t' of (ds, rs, t'') \<Rightarrow> (d @ ds, r @ rs, t''))"

text \<open>What was written before the transport was closed.\<close>

fun written_before_close :: "lp_op list \<Rightarrow> bytes list" where
  "written_before_close [] = []"
| "written_before_close (OpWrite b # xs) = b # written_before_close xs"
| "written_before_close (OpClose # xs) = []"
| "written_before_close (x # xs) = written_before_close xs"

text \<open>What the receive loop can have been given: the bodies of the accepted send requests.\<close>

fun sent_bodies :: "lp_op list \<Rightarrow> LongPollingServerTransport \<Rightarrow> bytes list" where
  "sent_bodies [] t = []"
| "sent_bodies (x # xs) t =
     (case x of
        OpSend now (Inr b) \<Rightarrow>
          (if fst (LPS_HandleSend now (Inr b) t) = [WriteHeader StatusOK] then [b] else [])
      | _ \<Rightarrow> []) @ sent_bodies xs (snd (snd (lp_step x t)))"

lemmas lps_defs = LPS_Write_def LPS_Close_def LPS_HandlePoll_def LPS_HandleSend_def LPS_Read_def

lemma lp_step_closed:
  "lps_closed t \<Longrightarrow> fst (lp_step x t) = [] \<and> lps_closed (snd (snd (lp_step x t))) \<and>
     lps_pendingMessages (snd (snd (lp_step x t))) = lps_pendingMessages t"
  by (cases x) (auto simp: lps_defs split: option.splits)

lemma lp_run_closed:
  "lps_closed t \<Longrightarrow> fst (lp_run xs t) = [] \<and> lps_closed (snd (snd (lp_run xs t))) \<and>
     lps_pendingMessages (snd (snd (lp_run xs t))) = lps_pendingMessages t"
proof (induction xs arbitrary: t)
  case (Cons x xs)
  obtain d1 r1 t1 where s: "lp_step x t = (d1, r1, t1)" by (metis prod_cases3)
  obtain d2 r2 t2 where u: "lp_run xs t1 = (d2, r2, t2)" by (metis prod_cases3)
  from lp_step_closed [OF Cons.prems, of x] Cons.IH [of t1] show ?case by (simp add: s u)
qed simp

lemma lp_step_open:
  assumes "\<not> lps_closed t" "x \<noteq> OpClose" "lp_step x t = (d, r, t')"
  shows "\<not> lps_closed t' \<and>
    d @ lps_pendingMessages t' = lps_pendingMessages t @ written_before_close [x]"
  using assms
  by (cases x) (auto simp: lps_defs Let_def split: option.splits sum.splits prod.splits)

lemma written_before_close_Cons:
  "x \<noteq> OpClose \<Longrightarrow> written_before_close (x # xs) = written_before_close [x] @ written_before_close xs"
  by (cases x) auto

lemma lp_run_delivers:
  "\<not> lps_closed t \<Longrightarrow> lp_run xs t = (d, r, t') \<Longrightarrow>
     d @ lps_pendingMessages t' = lps_pendingMessages t @ written_before_close xs"
proof (induction xs arbitrary: t d r)
  case Nil
  then show ?case by simp
next
  case (Cons x xs)
  show ?case
  proof (cases "x = OpClose")
    case True
    then show ?thesis
      using Cons.prems(2) lp_run_closed [of "snd (LPS_Close t)" xs]
      by (auto simp: lps_defs split: prod.splits)
  next
    case False
    obtain d1 r1 t1 where s: "lp_step x t = (d1, r1, t1)" by (metis prod_cases3)
    obtain d2 r2 where u: "lp_run xs t1 = (d2, r2, t')" and d: "d = d1 @ d2"
      using Cons.prems(2) s by (auto split: prod.splits)
    from lp_step_open [OF Cons.prems(1) False s] Cons.IH [OF _ u] d
    have "d @ lps_pendingMessages t' =
        lps_pendingMessages t @ written_before_close [x] @ written_before_close xs"
      by (metis append_assoc)
    then show ?thesis by (simp only: written_before_close_Cons [OF False, of xs])
  qed
qed

lemma LPS_Read_cases:
  obtains (blocked) "ch_buf (lps_incomingMessages t) = []" "LPS_Read t = None"
  | (msg) m ms where "ch_buf (lps_incomingMessages t) = m # ms"
      "LPS_Read t = Some (Inr m, t\<lparr>lps_incomingMessages := (lps_incomingMessages t)\<lparr>ch_buf := ms\<rparr>\<rparr>)"
  by (cases "ch_buf (lps_incomingMessages t)") (auto simp: LPS_Read_def ch_try_recv_def)

lemma HandleSend_cases:
  obtains (accepted) b where "body = Inr b" "\<not> lps_closed t"
      "length (ch_buf (lps_incomingMessages t)) < ch_cap (lps_incomingMessages t)"
      "LPS_HandleSend now body t = ([WriteHeader StatusOK],
         t\<lparr>lps_lastActivity := now, lps_incomingMessages :=
           (lps_incomingMessages t)\<lparr>ch_buf := ch_buf (lps_incomingMessages t) @ [b]\<rparr>\<rparr>)"
  | (rejected) msg code where "fst (LPS_HandleSend now body t) = [HttpError msg code]"
      "lps_incomingMessages (snd (LPS_HandleSend now body t)) = lps_incomingMessages t"
  by (cases body; cases "lps_closed t";
      cases "length (ch_buf (lps_incomingMessages t)) < ch_cap (lps_incomingMessages t)")
    (simp_all add: LPS_HandleSend_def Let_def ch_try_send_def)

lemma lp_step_incoming:
  assumes "lp_step x t = (d, r, t')"
  shows "ch_buf (lps_incomingMessages t) @ sent_bodies [x] t = r @ ch_buf (lps_incomingMessages t') \<and>
    (ch_ok (lps_incomingMessages t) \<longrightarrow> ch_ok (lps_incomingMessages t')) \<and>
    ch_cap (lps_incomingMessages t') = ch_cap (lps_incomingMessages t)"
proof (cases x)
  case OpRead
  show ?thesis by (rule LPS_Read_cases [of t]) (use OpRead assms in \<open>auto simp: ch_ok_def\<close>)
next
  case (OpSend now body)
  show ?thesis
    by (rule HandleSend_cases [of body t now])
      (use OpSend assms in \<open>auto simp: ch_ok_def split: sum.split\<close>)
qed (use assms in \<open>auto simp: LPS_Write_def LPS_HandlePoll_def LPS_Close_def\<close>)

lemma lp_run_incoming:
  "lp_run xs t = (d, r, t') \<Longrightarrow>
     ch_buf (lps_incomingMessages t) @ sent_bodies xs t = r @ ch_buf (lps_incomingMessages t')"
proof (induction xs arbitrary: t d r)
  case Nil
  then show ?case by simp
next
  case (Cons x xs)
  obtain d1 r1 t1 where s: "lp_step x t = (d1, r1, t1)" by (metis prod_cases3)
  obtain d2 r2 where u: "lp_run xs t1 = (d2, r2, t')" and r: "r = r1 @ r2"
    using Cons.prems s by (auto split: prod.splits)
  have "sent_bodies (x # xs) t = sent_bodies [x] t @ sent_bodies xs t1" using s by simp
  then show ?case using lp_step_incoming [OF s] Cons.IH [OF u] r
    by (metis append_assoc)
qed

lemma lp_run_bounded:
  "lp_run xs t = (d, r, t') \<Longrightarrow> ch_ok (lps_incomingMessages t) \<Longrightarrow>
     ch_ok (lps_incomingMessages t') \<and>
     ch_cap (lps_incomingMessages t') = ch_cap (lps_incomingMessages t)"
proof (induction xs arbitrary: t d r)
  case (Cons x xs)
  obtain d1 r1 t1 where s: "lp_step x t = (d1, r1, t1)" by (metis prod_cases3)
  obtain d2 r2 where u: "lp_run xs t1 = (d2, r2, t')"
    using Cons.prems s by (auto split: prod.splits)
  from Cons.IH [OF u] lp_step_incoming [OF s] Cons.prems(2) show ?case by simp
qed simp

section \<open>Properties\<close>



text \<open>Closing a session loses its pending messages: from then on every poll is answered with
  status 410 and no message, whatever is done, and the pending messages stay where they are.
  \<open>Write\<close> on the closed session reports no error although it drops its message.\<close>

theorem closed_session_loses_pending:
  assumes "lps_closed t" and "lp_run xs t = (delivered, received, t')"
  shows "delivered = [] \<and> lps_pendingMessages t' = lps_pendingMessages t \<and>
    fst (LPS_HandlePoll now t') = [HttpError ''Session closed'' StatusGone] \<and>
    LPS_Write b t' = (None, t')"
  using lp_run_closed [OF assms(1), of xs] assms(2) by (auto simp: lps_defs)

theorem closed_session_loses_pending_witness:
  "fst (lp_run [OpPoll 3] (snd (LPS_Close (snd (LPS_Write [1]
     (NewLongPollingServerTransport ''s'' DefaultLongPollingServerConfig 0)))))) = []"
proof -
  let ?t = "snd (LPS_Close (snd (LPS_Write [1]
     (NewLongPollingServerTransport ''s'' DefaultLongPollingServerConfig 0))))"
  obtain d r t where run: "lp_run [OpPoll 3] ?t = (d, r, t)" by (metis prod_cases3)
  have "lps_closed ?t" by (simp add: LPS_Close_def)
  from closed_session_loses_pending [OF this run] run show ?thesis by simp
qed

text \<open>\<open>Read\<close> does not notice that the session is closed: once the queue of a closed session
  is empty, every later read waits, whatever requests come in; no read ever returns an error.
  The goroutine of the receive loop of such a session never ends.\<close>

theorem closed_session_read_blocks:
  assumes "lps_closed t" and "ch_buf (lps_incomingMessages t) = []"
    and "lp_run xs t = (delivered, received, t')"
  shows "received = [] \<and> LPS_Read t' = None"
proof -
  have none: "sent_bodies xs t = []" if "lps_closed t" for t
    using that
  proof (induction xs arbitrary: t)
    case (Cons x xs)
    then show ?case using lp_step_closed [OF Cons.prems, of x]
      by (auto simp: LPS_HandleSend_def split: lp_op.splits sum.splits)
  qed simp
  from lp_run_incoming [OF assms(3)] none [OF assms(1)] assms(2) show ?thesis
    by (simp add: LPS_Read_def ch_try_recv_def)
qed

theorem closed_session_read_blocks_witness:
  "LPS_Read (snd (snd (lp_run [OpSend 4 (Inr [1]), OpRead]
     (snd (LPS_Close (NewLongPollingServerTransport ''s'' DefaultLongPollingServerConfig 0)))))) = None"
proof -
  let ?t = "snd (LPS_Close (NewLongPollingServerTransport ''s'' DefaultLongPollingServerConfig 0))"
  obtain d r t where run: "lp_run [OpSend 4 (Inr [1]), OpRead] ?t = (d, r, t)" by (metis prod_cases3)
  have "lps_closed ?t" "ch_buf (lps_incomingMessages ?t) = []"
    by (simp_all add: LPS_Close_def NewLongPollingServerTransport_def)
  from closed_session_read_blocks [OF this run] run show ?thesis by simp
qed

end
