(* ===== verification/WSPump.thy ===== *)
theory WSPump
  imports ServerTransport
begin

text \<open>
  \<open>socket/transport/server_transport.go\<close>: the goroutines of a \<open>WebSocketServerTransport\<close>.  The
  write pump and any number of goroutines in \<open>Write\<close> or \<open>Close\<close> interleave; a step is one
  critical section, one channel operation or one call on the connection.  The connection's
  answers are chosen by the environment: \<open>WriteMessage\<close> may fail.
\<close>

section \<open>Goroutines\<close>

datatype caller =
    W1 bytes          \<comment> \<open>\<open>Write\<close>: before reading \<open>closed\<close>\<close>
  | W2 bytes          \<comment> \<open>before the \<open>select\<close>\<close>
  | C1                \<comment> \<open>\<open>Close\<close>: before the critical section\<close>
  | C2                \<comment> \<open>before \<open>WriteControl\<close>\<close>
  | C3                \<comment> \<open>at \<open>writeWg.Wait\<close>\<close>
  | CDone

datatype pump =
    P1                \<comment> \<open>at the \<open>select\<close>\<close>
  | P2 bytes          \<comment> \<open>has a message, before taking the mutex\<close>
  | PClose caller     \<comment> \<open>a write failed: the pump is inside \<open>Close\<close>\<close>
  | PExit             \<comment> \<open>returned; \<open>writeWg.Done\<close> has been called\<close>

record wsys =
  ws_t :: WebSocketServerTransport
  ws_pump :: pump
  ws_callers :: "caller list"
  ws_accepted :: "bytes list"        \<comment> \<open>messages put into \<open>sendCh\<close>, in order\<close>

text \<open>The steps of \<open>Close\<close>, for a caller or for the pump itself; \<open>exited\<close>: the wait group is at
  zero.\<close>

fun close_step :: "bool \<Rightarrow> caller \<Rightarrow> WebSocketServerTransport \<Rightarrow>
    (caller \<times> WebSocketServerTransport) option" where
  "close_step exited C1 t =
     (if wss_closed t then Some (CDone, t)
      else Some (C2, t\<lparr>wss_closed := True, wss_closeCh := True\<rparr>))"
| "close_step exited C2 t = Some (C3, t\<lparr>wss_calls := wss_calls t @ [WriteControlClose]\<rparr>)"
| "close_step exited C3 t =
     (if exited then Some (CDone, t\<lparr>wss_calls := wss_calls t @ [ConnClose]\<rparr>) else None)"
| "close_step exited _ t = None"

text \<open>\<open>now\<close> is the time the pump reads, \<open>err\<close> the result of \<open>WriteMessage\<close>.\<close>

inductive ws_step :: "wsys \<Rightarrow> wsys \<Rightarrow> bool" where
  write_closed: "k < length (ws_callers s) \<Longrightarrow> ws_callers s ! k = W1 d \<Longrightarrow> wss_closed (ws_t s) \<Longrightarrow>
    ws_step s (s\<lparr>ws_callers := (ws_callers s)[k := CDone]\<rparr>)"
| write_open: "k < length (ws_callers s) \<Longrightarrow> ws_callers s ! k = W1 d \<Longrightarrow> \<not> wss_closed (ws_t s) \<Longrightarrow>
    ws_step s (s\<lparr>ws_callers := (ws_callers s)[k := W2 d]\<rparr>)"
| write_send: "k < length (ws_callers s) \<Longrightarrow> ws_callers s ! k = W2 d \<Longrightarrow>
    ch_try_send d (wss_sendCh (ws_t s)) = Some c \<Longrightarrow>
    ws_step s (s\<lparr>ws_callers := (ws_callers s)[k := CDone], ws_t := (ws_t s)\<lparr>wss_sendCh := c\<rparr>,
                 ws_accepted := ws_accepted s @ [d]\<rparr>)"
| write_full: "k < length (ws_callers s) \<Longrightarrow> ws_callers s ! k = W2 d \<Longrightarrow>
    ch_try_send d (wss_sendCh (ws_t s)) = None \<Longrightarrow>
    ws_step s (s\<lparr>ws_callers := (ws_callers s)[k := C1]\<rparr>)"
| closing: "k < length (ws_callers s) \<Longrightarrow>
    close_step (ws_pump s = PExit) (ws_callers s ! k) (ws_t s) = Some (c, t) \<Longrightarrow>
    ws_step s (s\<lparr>ws_callers := (ws_callers s)[k := c], ws_t := t\<rparr>)"
| pump_closeCh: "ws_pump s = P1 \<Longrightarrow> wss_closeCh (ws_t s) \<Longrightarrow> ws_step s (s\<lparr>ws_pump := PExit\<rparr>)"
| pump_recv: "ws_pump s = P1 \<Longrightarrow> ch_try_recv (wss_sendCh (ws_t s)) = Some (m, c) \<Longrightarrow>
    ws_step s (s\<lparr>ws_pump := P2 m, ws_t := (ws_t s)\<lparr>wss_sendCh := c\<rparr>\<rparr>)"
| pump_stop: "ws_pump s = P2 m \<Longrightarrow> wss_closed (ws_t s) \<Longrightarrow> ws_step s (s\<lparr>ws_pump := PExit\<rparr>)"
| pump_write: "ws_pump s = P2 m \<Longrightarrow> \<not> wss_closed (ws_t s) \<Longrightarrow>
    ws_step s (s\<lparr>ws_pump := (if err then PClose C1 else P1),
      ws_t := (ws_t s)\<lparr>wss_calls := wss_calls (ws_t s) @ deadline_calls (ws_t s) now @ [WriteMessage m]\<rparr>\<rparr>)"
| pump_close: "ws_pump s = PClose c \<Longrightarrow> close_step False c (ws_t s) = Some (c', t) \<Longrightarrow>
    ws_step s (s\<lparr>ws_pump := (if c' = CDone then PExit else PClose c'), ws_t := t\<rparr>)"

abbreviation ws_reach :: "wsys \<Rightarrow> wsys \<Rightarrow> bool" where
  "ws_reach \<equiv> reaches ws_step"

lemmas ws_reach_step = reaches.step [where step = ws_step]

definition ws_start :: "string \<Rightarrow> WebSocketServerConfig \<Rightarrow> int \<Rightarrow> caller list \<Rightarrow> wsys" where
  "ws_start i config now cs =
     \<lparr>ws_t = NewWebSocketServerTransport i config now, ws_pump = P1, ws_callers = cs, ws_accepted = []\<rparr>"

text \<open>The turn of the pump as one operation is a run of these steps when nobody comes between.\<close>

lemma pump_turn_steps:
  assumes "WSS_pump_turn err now (ws_t s) = Some t" and "ws_pump s = P1"
  shows "ws_reach s (s\<lparr>ws_pump := (if err then PClose C3 else P1), ws_t := t\<rparr>)"
proof -
  have d: "deadline_calls (ws_t s\<lparr>wss_sendCh := c\<rparr>) now = deadline_calls (ws_t s) now" for c
    by (simp add: deadline_calls_def)
  obtain m c where c: "ch_try_recv (wss_sendCh (ws_t s)) = Some (m, c)" "\<not> wss_closed (ws_t s)"
    using assms(1) by (auto simp: WSS_pump_turn_def split: if_splits option.splits)
  let ?t1 = "(ws_t s)\<lparr>wss_sendCh := c\<rparr>"
  let ?t2 = "?t1\<lparr>wss_calls := wss_calls ?t1 @ deadline_calls ?t1 now @ [WriteMessage m]\<rparr>"
  let ?s1 = "s\<lparr>ws_pump := P2 m, ws_t := ?t1\<rparr>"
  let ?s2 = "s\<lparr>ws_pump := (if err then PClose C1 else P1), ws_t := ?t2\<rparr>"
  have s1: "ws_step s ?s1" by (rule ws_step.pump_recv [OF assms(2) c(1)])
  have s2: "ws_step ?s1 ?s2" using ws_step.pump_write [of ?s1 m _ err] c(2) by simp
  have r: "ws_reach s ?s2" by (rule ws_reach_step [OF reaches_one [where step = ws_step, OF s1] s2])
  show ?thesis
  proof (cases err)
    case False
    then show ?thesis using r assms(1) c by (simp add: WSS_pump_turn_def d)
  next
    case True
    let ?t3 = "?t2\<lparr>wss_closed := True, wss_closeCh := True\<rparr>"
    let ?s3 = "?s2\<lparr>ws_pump := PClose C2, ws_t := ?t3\<rparr>"
    let ?s4 = "?s3\<lparr>ws_pump := PClose C3, ws_t := ?t3\<lparr>wss_calls := wss_calls ?t3 @ [WriteControlClose]\<rparr>\<rparr>"
    have s3: "ws_step ?s2 ?s3" using ws_step.pump_close [of ?s2 C1 C2 ?t3] True c(2) by simp
    have s4: "ws_step ?s3 ?s4" using ws_step.pump_close [of ?s3 C2 C3] by simp
    have "?s4 = s\<lparr>ws_pump := PClose C3, ws_t := t\<rparr>"
      using assms(1) c True by (simp add: WSS_pump_turn_def d)
    then show ?thesis using ws_reach_step [OF ws_reach_step [OF r s3] s4] True by simp
  qed
qed

section \<open>What was written, in which order\<close>

definition frames :: "conn_call list \<Rightarrow> bytes list" where
  "frames cs = concat (map (\<lambda>c. case c of WriteMessage m \<Rightarrow> [m] | _ \<Rightarrow> []) cs)"

lemma frames_simps [simp]:
  "frames [] = []"
  "frames (cs @ ds) = frames cs @ frames ds"
  "frames (WriteMessage m # cs) = m # frames cs"
  "frames (WriteControlClose # cs) = frames cs"
  "frames (ConnClose # cs) = frames cs"
  "frames (SetWriteDeadline d # cs) = frames cs"
  "frames (SetReadDeadline d # cs) = frames cs"
  "frames (EnableWriteCompression b # cs) = frames cs"
  by (simp_all add: frames_def)

lemma frames_deadline [simp]: "frames (deadline_calls t now) = []"
  by (simp add: deadline_calls_def)

fun in_hand :: "pump \<Rightarrow> bytes list" where
  "in_hand (P2 m) = [m]"
| "in_hand _ = []"

text \<open>As long as the pump has not exited, what was accepted is what was written, then what the pump
  holds, then what is queued; after that what was written is still an initial part.\<close>

definition ws_fifo :: "wsys \<Rightarrow> bool" where
  "ws_fifo s \<longleftrightarrow>
     (\<exists>lost. ws_accepted s = frames (wss_calls (ws_t s)) @ in_hand (ws_pump s) @ lost
        @ ch_buf (wss_sendCh (ws_t s)) \<and> (ws_pump s \<noteq> PExit \<longrightarrow> lost = []))"

lemma close_step_frames:
  "close_step x c t = Some (c', t') \<Longrightarrow>
     frames (wss_calls t') = frames (wss_calls t) \<and> wss_sendCh t' = wss_sendCh t"
  by (cases "(x, c, t)" rule: close_step.cases) (auto split: if_splits)

lemma ws_step_fifo: "ws_step s s' \<Longrightarrow> ws_fifo s \<Longrightarrow> ws_fifo s'"
proof (induction rule: ws_step.induct)
  case (write_send k s d c)
  then show ?case by (auto simp: ws_fifo_def ch_send_iff)
next
  case (closing k s c t)
  then show ?case using close_step_frames [OF closing(2)] by (simp add: ws_fifo_def)
next
  case (pump_closeCh s)
  then show ?case by (auto simp: ws_fifo_def)
next
  case (pump_recv s m c)
  then show ?case using arg_cong [OF pump_recv(2)]
    by (auto simp: ws_fifo_def ch_try_recv_def split: list.splits)
next
  case (pump_stop s m)
  then show ?case by (auto simp: ws_fifo_def)
next
  case (pump_write s m err now)
  then show ?case by (auto simp: ws_fifo_def)
next
  case (pump_close s c c' t)
  then show ?case using close_step_frames [OF pump_close(2)] by (auto simp: ws_fifo_def)
qed (simp_all add: ws_fifo_def)

interpretation fifo: safe_system ws_step ws_fifo
  by unfold_locales (rule ws_step_fifo)

lemmas ws_reach_fifo = fifo.reach_inv

section \<open>Closing\<close>

text \<open>How many goroutines, the pump included, are past the critical section of \<open>Close\<close> and have
  not finished.\<close>

definition past_C1 :: "caller \<Rightarrow> bool" where
  "past_C1 c \<longleftrightarrow> c = C2 \<or> c = C3"

fun pump_caller :: "pump \<Rightarrow> caller list" where
  "pump_caller (PClose c) = [c]"
| "pump_caller _ = []"

abbreviation everyone :: "wsys \<Rightarrow> caller list" where
  "everyone s \<equiv> pump_caller (ws_pump s) @ ws_callers s"

definition count_past :: "caller list \<Rightarrow> nat" where
  "count_past cs = length (filter past_C1 cs)"

definition count_C2 :: "caller list \<Rightarrow> nat" where
  "count_C2 cs = length (filter (\<lambda>c. c = C2) cs)"

abbreviation closers :: "wsys \<Rightarrow> nat" where
  "closers s \<equiv> count_past (pump_caller (ws_pump s)) + count_past (ws_callers s)"

abbreviation at_C2 :: "wsys \<Rightarrow> nat" where
  "at_C2 s \<equiv> count_C2 (pump_caller (ws_pump s)) + count_C2 (ws_callers s)"

text \<open>One goroutine at most is closing; the control frame and the close of the connection come at
  most once, in this order, and only on a closed transport; the connection is closed only after
  the pump has exited.\<close>

definition ws_close_inv :: "wsys \<Rightarrow> bool" where
  "ws_close_inv s \<longleftrightarrow>
     (let calls = wss_calls (ws_t s) in
      closers s + count_list calls ConnClose = (if wss_closed (ws_t s) then 1 else 0) \<and>
      count_list calls WriteControlClose + at_C2 s = (if wss_closed (ws_t s) then 1 else 0) \<and>
      wss_closeCh (ws_t s) = wss_closed (ws_t s) \<and>
      (0 < count_list calls ConnClose \<longrightarrow> last calls = ConnClose \<and> ws_pump s = PExit))"

lemma filter_update_length:
  "k < length xs \<Longrightarrow>
     length (filter P (xs[k := y])) + (if P (xs ! k) then 1 else 0) =
     length (filter P xs) + (if P y then 1 else 0)"
proof (induction xs arbitrary: k)
  case (Cons x xs)
  then show ?case by (cases k) auto
qed simp

lemma count_list_deadline [simp]:
  "count_list (deadline_calls t now) ConnClose = 0"
  "count_list (deadline_calls t now) WriteControlClose = 0"
  by (simp_all add: deadline_calls_def)

lemma past_C1_simps [simp]:
  "\<not> past_C1 (W1 d)" "\<not> past_C1 (W2 d)" "\<not> past_C1 C1" "past_C1 C2" "past_C1 C3" "\<not> past_C1 CDone"
  by (simp_all add: past_C1_def)

text \<open>Moving one caller changes the counts by what it leaves and what it enters.\<close>

lemma callers_update_counts:
  assumes "k < length cs"
  shows "count_past (cs[k := c]) + (if past_C1 (cs ! k) then 1 else 0) =
      count_past cs + (if past_C1 c then 1 else 0)"
    and "count_C2 (cs[k := c]) + (if cs ! k = C2 then 1 else 0) =
      count_C2 cs + (if c = C2 then 1 else 0)"
  using filter_update_length [OF assms, of past_C1 c]
    filter_update_length [OF assms, of "\<lambda>c. c = C2" c]
  by (simp_all add: count_past_def count_C2_def)

lemma count_past_pos: "k < length cs \<Longrightarrow> past_C1 (cs ! k) \<Longrightarrow> 0 < count_past cs"
  by (auto simp: count_past_def filter_empty_conv dest: nth_mem)

lemma count_simps [simp]:
  "count_past [] = 0" "count_past [c] = (if past_C1 c then 1 else 0)"
  "count_C2 [] = 0" "count_C2 [c] = (if c = C2 then 1 else 0)"
  by (simp_all add: count_past_def count_C2_def)

lemma closing_close_inv:
  assumes "k < length (ws_callers s)"
    and "close_step (ws_pump s = PExit) (ws_callers s ! k) (ws_t s) = Some (c, t)"
    and "ws_close_inv s"
  shows "ws_close_inv (s\<lparr>ws_callers := (ws_callers s)[k := c], ws_t := t\<rparr>)"
  using assms(2,3) callers_update_counts [OF assms(1), of c] count_past_pos [OF assms(1)]
  by (cases "ws_callers s ! k") (auto simp: ws_close_inv_def Let_def split: if_splits)

lemma pump_close_inv:
  assumes "ws_pump s = PClose c" and "close_step False c (ws_t s) = Some (c', t)"
    and "ws_close_inv s"
  shows "ws_close_inv (s\<lparr>ws_pump := (if c' = CDone then PExit else PClose c'), ws_t := t\<rparr>)"
  using assms by (cases c) (auto simp: ws_close_inv_def Let_def split: if_splits)

lemma ws_step_close_inv: "ws_step s s' \<Longrightarrow> ws_close_inv s \<Longrightarrow> ws_close_inv s'"
proof (induction rule: ws_step.induct)
  case (write_closed k s d)
  then show ?case using callers_update_counts [OF write_closed(1), of CDone]
    by (simp add: ws_close_inv_def Let_def)
next
  case (write_open k s d)
  then show ?case using callers_update_counts [OF write_open(1), of "W2 d"]
    by (simp add: ws_close_inv_def Let_def)
next
  case (write_send k s d c)
  then show ?case using callers_update_counts [OF write_send(1), of CDone]
    by (simp add: ws_close_inv_def Let_def)
next
  case (write_full k s d)
  then show ?case using callers_update_counts [OF write_full(1), of C1]
    by (simp add: ws_close_inv_def Let_def)
next
  case (closing k s c t)
  then show ?case by (rule closing_close_inv)
next
  case (pump_write s m err now)
  then show ?case by (auto simp: ws_close_inv_def Let_def)
next
  case (pump_close s c c' t)
  then show ?case by (rule pump_close_inv)
qed (auto simp: ws_close_inv_def Let_def)

interpretation closing: safe_system ws_step ws_close_inv
  by unfold_locales (rule ws_step_close_inv)

lemmas ws_reach_close_inv = closing.reach_inv

text \<open>Goroutines start in \<open>Write\<close> or \<open>Close\<close>.\<close>

definition entry :: "caller \<Rightarrow> bool" where
  "entry c \<longleftrightarrow> (\<exists>d. c = W1 d) \<or> c = C1"

lemma ws_start_inv:
  assumes "list_all entry cs"
  shows "ws_close_inv (ws_start i config now cs)" "ws_fifo (ws_start i config now cs)"
proof -
  have "filter past_C1 cs = [] \<and> filter (\<lambda>c. c = C2) cs = []"
    using assms by (induction cs) (auto simp: entry_def)
  then show "ws_close_inv (ws_start i config now cs)" "ws_fifo (ws_start i config now cs)"
    by (auto simp: ws_close_inv_def ws_fifo_def ws_start_def NewWebSocketServerTransport_def
        Let_def count_past_def count_C2_def)
qed

section \<open>No data after the close frame\<close>

text \<open>A step that adds a data frame is a step of the pump on a transport that is not closed.\<close>

lemma frame_step_open:
  "ws_step s s' \<Longrightarrow> frames (wss_calls (ws_t s')) \<noteq> frames (wss_calls (ws_t s)) \<Longrightarrow>
     \<not> wss_closed (ws_t s)"
  by (induction rule: ws_step.induct) (auto dest: close_step_frames)

lemma closed_stays: "ws_step s s' \<Longrightarrow> wss_closed (ws_t s) \<Longrightarrow> wss_closed (ws_t s')"
proof (induction rule: ws_step.induct)
  case (closing k s c t)
  then show ?case by (cases "ws_callers s ! k") (auto split: if_splits)
next
  case (pump_close s c c' t)
  then show ?case by (cases c) (auto split: if_splits)
qed simp_all

lemma closed_frames_frozen:
  "ws_reach s s' \<Longrightarrow> wss_closed (ws_t s) \<Longrightarrow>
     wss_closed (ws_t s') \<and> frames (wss_calls (ws_t s')) = frames (wss_calls (ws_t s))"
proof (induction rule: reaches.induct)
  case (step t u)
  then show ?case using frame_step_open [of t u] closed_stays [of t u] by auto
qed simp

section \<open>A pump that waits for itself\<close>

lemma pump_stuck_step:
  "ws_step s s' \<Longrightarrow> ws_pump s \<in> {PClose C2, PClose C3} \<Longrightarrow> ws_pump s' \<in> {PClose C2, PClose C3}"
  by (induction rule: ws_step.induct) auto

interpretation stuck: safe_system ws_step "\<lambda>s. ws_pump s \<in> {PClose C2, PClose C3}"
  by unfold_locales (rule pump_stuck_step)

lemmas pump_stuck = stuck.reach_inv

section \<open>Properties\<close>

text \<open>C15. The write pump is a first-in first-out queue: whatever the interleaving of writers,
  closers and the pump, the data frames handed to the connection are an initial part of the
  messages accepted by \<open>Write\<close>, in the order of acceptance; before the pump exits the rest is
  exactly the message it holds and the send buffer.\<close>

theorem ws_frames_prefix:
  assumes "list_all entry cs" and "ws_reach (ws_start i config now cs) s"
  shows "\<exists>rest. ws_accepted s = frames (wss_calls (ws_t s)) @ rest \<and>
    (ws_pump s \<noteq> PExit \<longrightarrow> rest = in_hand (ws_pump s) @ ch_buf (wss_sendCh (ws_t s)))"
  using ws_reach_fifo [OF assms(2) ws_start_inv(2) [OF assms(1)]]
  by (auto simp: ws_fifo_def)

text \<open>C24. Closing happens once and in order: in every reachable state the control frame and the
  close of the connection have each been sent at most once, only if the transport is closed, the
  connection is closed only after the pump has exited, and it is then the last call; and once the
  transport is closed no data frame is ever written again.\<close>

theorem ws_close_once:
  assumes "list_all entry cs" and "ws_reach (ws_start i config now cs) s" and "ws_reach s s'"
  shows "count_list (wss_calls (ws_t s)) WriteControlClose \<le> (if wss_closed (ws_t s) then 1 else 0) \<and>
    count_list (wss_calls (ws_t s)) ConnClose \<le> (if wss_closed (ws_t s) then 1 else 0) \<and>
    (ConnClose \<in> set (wss_calls (ws_t s)) \<longrightarrow>
       last (wss_calls (ws_t s)) = ConnClose \<and> ws_pump s = PExit) \<and>
    (wss_closed (ws_t s) \<longrightarrow>
       frames (wss_calls (ws_t s')) = frames (wss_calls (ws_t s)))"
proof -
  have "ws_close_inv s" by (rule ws_reach_close_inv [OF assms(2) ws_start_inv(1) [OF assms(1)]])
  moreover have "0 < count_list (wss_calls (ws_t s)) ConnClose \<longleftrightarrow>
      ConnClose \<in> set (wss_calls (ws_t s))"
    using count_list_0_iff [of "wss_calls (ws_t s)" ConnClose] by auto
  ultimately show ?thesis
    using closed_frames_frozen [OF assms(3)] by (auto simp: ws_close_inv_def Let_def split: if_splits)
qed


text \<open>Without a failed write, \<open>Close\<close> returns: from any state in which the transport is closed,
  the pump is not inside \<open>Close\<close> and a goroutine waits in it, the goroutine can finish with the
  connection closed.\<close>

theorem close_returns:
  assumes "wss_closeCh (ws_t s)" "wss_closed (ws_t s)" and "\<And>c. ws_pump s \<noteq> PClose c"
    and "k < length (ws_callers s)" "ws_callers s ! k = C3"
  shows "\<exists>s'. ws_reach s s' \<and> ws_callers s' ! k = CDone \<and> last (wss_calls (ws_t s')) = ConnClose"
proof -
  let ?s1 = "s\<lparr>ws_pump := PExit\<rparr>"
  have r: "ws_reach s ?s1"
  proof (cases "ws_pump s")
    case P1
    with assms(1) show ?thesis
      by (intro reaches_one ws_step.pump_closeCh)
  next
    case (P2 m)
    with assms(2) show ?thesis by (intro reaches_one ws_step.pump_stop)
  next
    case PExit
    then have "?s1 = s" by simp
    then show ?thesis by (simp add: reaches.start)
  qed (use assms(3) in blast)
  let ?t = "(ws_t s)\<lparr>wss_calls := wss_calls (ws_t s) @ [ConnClose]\<rparr>"
  have "ws_step ?s1 (?s1\<lparr>ws_callers := (ws_callers ?s1)[k := CDone], ws_t := ?t\<rparr>)"
    by (rule ws_step.closing) (use assms(4,5) in simp_all)
  with r have "ws_reach s (?s1\<lparr>ws_callers := (ws_callers ?s1)[k := CDone], ws_t := ?t\<rparr>)"
    by (rule reaches.step)
  then show ?thesis using assms(4) by (intro exI conjI) auto
qed

section \<open>Concrete runs\<close>

abbreviation demo :: "caller list \<Rightarrow> wsys" where
  "demo cs \<equiv> ws_start ''s'' DefaultWebSocketServerConfig 0 cs"

definition failed_write_state :: wsys where
  "failed_write_state =
     \<lparr>ws_t = (NewWebSocketServerTransport ''s'' DefaultWebSocketServerConfig 0)
        \<lparr>wss_calls := [SetReadDeadline 30000000000, SetWriteDeadline 10000000005, WriteMessage [1]]\<rparr>,
      ws_pump = PClose C1, ws_callers = [CDone], ws_accepted = [[1]]\<rparr>"

lemma failed_write_reachable: "ws_reach (demo [W1 [1]]) failed_write_state"
proof -
  let ?s0 = "demo [W1 [1]]"
  let ?s1 = "?s0\<lparr>ws_callers := [W2 [1]]\<rparr>"
  let ?c = "\<lparr>ch_cap = 100, ch_buf = [[1]]\<rparr>"
  let ?s2 = "?s1\<lparr>ws_callers := [CDone], ws_t := (ws_t ?s1)\<lparr>wss_sendCh := ?c\<rparr>, ws_accepted := [[1]]\<rparr>"
  let ?s3 = "?s2\<lparr>ws_pump := P2 [1], ws_t := (ws_t ?s2)\<lparr>wss_sendCh := make_chan 100\<rparr>\<rparr>"
  note defs = ws_start_def NewWebSocketServerTransport_def DefaultWebSocketServerConfig_def
    ch_try_send_def ch_try_recv_def make_chan_def second_def
  have 1: "ws_step ?s0 ?s1"
    using ws_step.write_open [of 0 ?s0 "[1]"] by (simp add: defs)
  have 2: "ws_step ?s1 ?s2"
    using ws_step.write_send [of 0 ?s1 "[1]" ?c] by (simp add: defs)
  have 3: "ws_step ?s2 ?s3"
    using ws_step.pump_recv [of ?s2 "[1]" "make_chan 100"] by (simp add: defs)
  have 4: "ws_step ?s3 failed_write_state"
    using ws_step.pump_write [where s = ?s3 and m = "[1]" and err = True and now = 5]
    by (simp add: defs failed_write_state_def deadline_calls_def)
  show ?thesis by (rule ws_reach_step [OF ws_reach_step [OF ws_reach_step [OF
    reaches_one [where step = ws_step, OF 1] 2] 3] 4])
qed

theorem ws_frames_prefix_witness:
  "\<exists>rest. ws_accepted failed_write_state = frames (wss_calls (ws_t failed_write_state)) @ rest"
proof -
  have "list_all entry [W1 [1]]" by (simp add: entry_def)
  from ws_frames_prefix [OF this failed_write_reachable] show ?thesis by blast
qed

theorem ws_close_once_witness:
  "count_list (wss_calls (ws_t failed_write_state)) ConnClose = 0"
proof -
  have "list_all entry [W1 [1]]" by (simp add: entry_def)
  from ws_close_once [OF this failed_write_reachable reaches.start] show ?thesis
    by (simp add: failed_write_state_def NewWebSocketServerTransport_def)
qed


theorem close_returns_witness:
  "\<exists>s s'. ws_reach (demo [C1]) s \<and> ws_callers s = [C3] \<and> ws_reach s s' \<and>
     ws_callers s' ! 0 = CDone \<and> last (wss_calls (ws_t s')) = ConnClose"
proof -
  let ?s0 = "demo [C1]"
  let ?s1 = "?s0\<lparr>ws_callers := [C2], ws_t := (ws_t ?s0)\<lparr>wss_closed := True, wss_closeCh := True\<rparr>\<rparr>"
  let ?s2 = "?s1\<lparr>ws_callers := [C3],
    ws_t := (ws_t ?s1)\<lparr>wss_calls := wss_calls (ws_t ?s1) @ [WriteControlClose]\<rparr>\<rparr>"
  have 1: "ws_step ?s0 ?s1"
    using ws_step.closing [of 0 ?s0] by (simp add: ws_start_def NewWebSocketServerTransport_def)
  have 2: "ws_step ?s1 ?s2"
    using ws_step.closing [of 0 ?s1] by (simp add: ws_start_def)
  have r: "ws_reach ?s0 ?s2" by (rule ws_reach_step [OF reaches_one [where step = ws_step, OF 1] 2])
  have "\<exists>s'. ws_reach ?s2 s' \<and> ws_callers s' ! 0 = CDone \<and> last (wss_calls (ws_t s')) = ConnClose"
    by (rule close_returns) (simp_all add: ws_start_def)
  moreover have "ws_callers ?s2 = [C3]" by simp
  ultimately show ?thesis using r by blast
qed

end
