(* ===== verification/SocketImpl.thy ===== *)
theory SocketImpl
  imports ServerTransport
begin

text \<open>
  \<open>socket/socket_impl.go\<close>: the server side of one connection.  The transport is a value of any
  type with the operations of the interface; handlers are names of closures, and an operation
  returns the goroutines it starts (\<open>go handler(data)\<close>) as a list of pairs.  What a socket may
  rely on is proved in the context of \<open>server_transport\<close>.
\<close>

section \<open>State and operations\<close>

record ('h, 't) socketImpl =
  si_id :: string
  si_handlers :: "(Event, 'h list) gomap"
  si_transport :: 't
  si_connected :: bool

type_synonym 'h spawned = "('h \<times> gval) list"

definition newSocketFromServerTransport :: "string \<Rightarrow> 't \<Rightarrow> ('h, 't) socketImpl" where
  "newSocketFromServerTransport i t =
     \<lparr>si_id = i, si_handlers = [], si_transport = t, si_connected = True\<rparr>"

text \<open>\<open>s.handlers[event]\<close>: a missing key gives the empty slice.\<close>

definition handlers_of :: "(Event, 'h list) gomap \<Rightarrow> Event \<Rightarrow> 'h list" where
  "handlers_of m e = (case gm_get m e of None \<Rightarrow> [] | Some hs \<Rightarrow> hs)"

definition add_handler :: "Event \<Rightarrow> 'h \<Rightarrow> (Event, 'h list) gomap \<Rightarrow> (Event, 'h list) gomap" where
  "add_handler e h m = gm_put e (handlers_of m e @ [h]) m"

definition SI_On :: "Event \<Rightarrow> 'h \<Rightarrow> ('h, 't) socketImpl \<Rightarrow> ('h, 't) socketImpl" where
  "SI_On event h s = s\<lparr>si_handlers := add_handler event h (si_handlers s)\<rparr>"

definition SI_Off :: "Event \<Rightarrow> ('h, 't) socketImpl \<Rightarrow> ('h, 't) socketImpl" where
  "SI_Off event s = s\<lparr>si_handlers := gm_delete event (si_handlers s)\<rparr>"

definition SI_triggerEvent :: "Event \<Rightarrow> gval \<Rightarrow> ('h, 't) socketImpl \<Rightarrow> 'h spawned" where
  "SI_triggerEvent event data s = map (\<lambda>h. (h, data)) (handlers_of (si_handlers s) event)"

definition SI_Send ::
  "codec \<Rightarrow> (bytes \<Rightarrow> 't \<Rightarrow> gerror option \<times> 't) \<Rightarrow> Event \<Rightarrow> gval \<Rightarrow> ('h, 't) socketImpl \<Rightarrow>
     gerror option \<times> ('h, 't) socketImpl" where
  "SI_Send cd tr_write event data s =
     (if \<not> si_connected s then (Some ErrConnectionClosed, s)
      else case marshal cd \<lparr>msg_Event = event, msg_Data = data\<rparr> of
        Inl err \<Rightarrow> (Some err, s)
      | Inr jsonData \<Rightarrow>
          (case tr_write jsonData (si_transport s) of (err, t) \<Rightarrow> (err, s\<lparr>si_transport := t\<rparr>)))"

definition SI_Close ::
  "('t \<Rightarrow> gerror option \<times> 't) \<Rightarrow> ('h, 't) socketImpl \<Rightarrow>
     gerror option \<times> 'h spawned \<times> ('h, 't) socketImpl" where
  "SI_Close tr_close s =
     (if \<not> si_connected s then (None, [], s)
      else
        (let s' = s\<lparr>si_connected := False\<rparr>;
             gs = SI_triggerEvent EventDisconnect GNil s' in
         case tr_close (si_transport s') of (err, t) \<Rightarrow> (err, gs, s'\<lparr>si_transport := t\<rparr>)))"

definition SI_ID :: "('h, 't) socketImpl \<Rightarrow> string" where
  "SI_ID s = si_id s"

definition SI_IsConnected :: "('h, 't) socketImpl \<Rightarrow> bool" where
  "SI_IsConnected s = si_connected s"

text \<open>One turn of \<open>receiveLoop\<close> on the result of \<open>Read\<close>: the goroutines it starts, whether the
  loop goes on, and the socket.\<close>

definition SI_receive_step ::
  "codec \<Rightarrow> ('t \<Rightarrow> gerror option \<times> 't) \<Rightarrow> gerror + bytes \<Rightarrow> ('h, 't) socketImpl \<Rightarrow>
     'h spawned \<times> bool \<times> ('h, 't) socketImpl" where
  "SI_receive_step cd tr_close r s =
     (case r of
        Inl err \<Rightarrow>
          (let gs = SI_triggerEvent EventDisconnect (GErr err) s in
           case SI_Close tr_close s of (_, gs', s') \<Rightarrow> (gs @ gs', False, s'))
      | Inr data \<Rightarrow>
          (case unmarshal cd data of
             Inl _ \<Rightarrow> (SI_triggerEvent EventError (GErr ErrInvalidMessage) s, True, s)
           | Inr msg \<Rightarrow> (SI_triggerEvent (msg_Event msg) (msg_Data msg) s, True, s)))"

text \<open>The loop on the results of its successive reads; \<open>True\<close>: it waits for the next one.\<close>

fun SI_receiveLoop ::
  "codec \<Rightarrow> ('t \<Rightarrow> gerror option \<times> 't) \<Rightarrow> (gerror + bytes) list \<Rightarrow> ('h, 't) socketImpl \<Rightarrow>
     'h spawned \<times> bool \<times> ('h, 't) socketImpl" where
  "SI_receiveLoop cd tr_close [] s = ([], True, s)"
| "SI_receiveLoop cd tr_close (r # rs) s =
     (case SI_receive_step cd tr_close r s of
        (gs, False, s') \<Rightarrow> (gs, False, s')
      | (gs, True, s') \<Rightarrow>
          (case SI_receiveLoop cd tr_close rs s' of (gs', b, s'') \<Rightarrow> (gs @ gs', b, s'')))"

section \<open>Handlers\<close>

lemma handlers_of_simps [simp]:
  "handlers_of [] e = []"
  "handlers_of (add_handler e h m) e' = (if e' = e then handlers_of m e @ [h] else handlers_of m e')"
  "handlers_of (gm_delete e m) e' = (if e' = e then [] else handlers_of m e')"
  by (simp_all add: handlers_of_def add_handler_def)

lemma SI_On_simps [simp]:
  "si_id (SI_On e h s) = si_id s" "si_transport (SI_On e h s) = si_transport s"
  "si_connected (SI_On e h s) = si_connected s"
  "si_handlers (SI_On e h s) = add_handler e h (si_handlers s)"
  by (simp_all add: SI_On_def)

lemma trigger_On:
  "SI_triggerEvent e' d (SI_On e h s) =
     SI_triggerEvent e' d s @ (if e' = e then [(h, d)] else [])"
  by (simp add: SI_triggerEvent_def)

lemma trigger_Off: "SI_triggerEvent e' d (SI_Off e s) = (if e' = e then [] else SI_triggerEvent e' d s)"
  by (simp add: SI_triggerEvent_def SI_Off_def)

lemma trigger_new [simp]: "SI_triggerEvent e d (newSocketFromServerTransport i t) = []"
  by (simp add: SI_triggerEvent_def newSocketFromServerTransport_def)

lemma SI_Close_frame:
  "SI_Close c s = (err, gs, s') \<Longrightarrow>
     si_id s' = si_id s \<and> si_handlers s' = si_handlers s \<and> \<not> si_connected s' \<and>
     (\<not> si_connected s \<longrightarrow> gs = [] \<and> s' = s \<and> err = None)"
  by (auto simp: SI_Close_def Let_def split: if_splits prod.splits)

lemma SI_Send_frame:
  "SI_Send cd w e d s = (err, s') \<Longrightarrow>
     si_id s' = si_id s \<and> si_handlers s' = si_handlers s \<and> si_connected s' = si_connected s"
  by (auto simp: SI_Send_def split: if_splits sum.splits prod.splits)

lemma SI_Close_spawned:
  "si_connected s \<Longrightarrow> fst (snd (SI_Close c s)) = SI_triggerEvent EventDisconnect GNil s"
  by (simp add: SI_Close_def SI_triggerEvent_def Let_def split: prod.split)

lemma receive_error_spawned:
  "SI_receive_step cd c (Inl err) s = (gs, b, s') \<Longrightarrow>
     \<not> b \<and> \<not> si_connected s' \<and> gs = SI_triggerEvent EventDisconnect (GErr err) s @
       (if si_connected s then SI_triggerEvent EventDisconnect GNil s else [])"
  using SI_Close_frame [of c s] SI_Close_spawned [of s c]
  by (auto simp: SI_receive_step_def Let_def split: prod.splits)

lemma receiveLoop_messages:
  "list_all (\<lambda>r. \<exists>d m. r = Inr d \<and> unmarshal cd d = Inr m) rs \<Longrightarrow>
     SI_receiveLoop cd c rs s =
       (concat (map (\<lambda>r. case r of Inl _ \<Rightarrow> []
          | Inr d \<Rightarrow> (case unmarshal cd d of Inl _ \<Rightarrow> []
             | Inr m \<Rightarrow> SI_triggerEvent (msg_Event m) (msg_Data m) s)) rs), True, s)"
  by (induction rs) (auto simp: SI_receive_step_def)

section \<open>What a socket gets from its transport\<close>

context server_transport
begin

lemma Send_connected:
  assumes "si_connected s" and "marshal cd \<lparr>msg_Event = e, msg_Data = d\<rparr> = Inr j"
    and "SI_Send cd tr_write e d s = (err, s')"
  shows "err = None \<and> (tr_closed (si_transport s) \<longrightarrow> s' = s) \<and>
    tr_queued (si_transport s') = (if tr_closed (si_transport s')
      then tr_queued (si_transport s) else tr_queued (si_transport s) @ [j])"
  using assms write_nil [of j "si_transport s"] write_queued [of j "si_transport s"]
    write_closed [of "si_transport s" j]
  by (cases "tr_write j (si_transport s)") (auto simp: SI_Send_def)

lemma Close_closes:
  assumes "si_connected s" and "SI_Close tr_close s = (err, gs, s')"
  shows "tr_closed (si_transport s') \<and> tr_queued (si_transport s') = tr_queued (si_transport s) \<and>
    SI_Close tr_close s' = (None, [], s')"
  using assms close_closed [of "si_transport s"] close_queued [of "si_transport s"]
  by (auto simp: SI_Close_def Let_def split: prod.splits)

lemma Send_after_Close:
  "SI_Close tr_close s = (err, gs, s') \<Longrightarrow> SI_Send cd tr_write e d s' = (Some ErrConnectionClosed, s')"
  using SI_Close_frame [of tr_close s] by (auto simp: SI_Send_def)

end

section \<open>Properties\<close>

text \<open>\<open>json.Unmarshal\<close> undoes \<open>json.Marshal\<close> on the messages it accepts.\<close>

definition codec_ok :: "codec \<Rightarrow> bool" where
  "codec_ok cd \<longleftrightarrow> (\<forall>m j. marshal cd m = Inr j \<longrightarrow> unmarshal cd j = Inr m)"

text \<open>What a connected socket sends over the WebSocket transport is what the peer decodes:
  \<open>Send\<close> reports no error, and either appends to the send buffer one text that decodes to the
  event and the data, or (buffer full or transport closed) leaves the buffer as it is with the
  transport closed.  A socket that is not connected reports the error and touches nothing.\<close>

theorem Send_queues_message:
  assumes "codec_ok cd" and "marshal cd \<lparr>msg_Event = e, msg_Data = d\<rparr> = Inr j"
    and "SI_Send cd (WSS_Write cerr) e d s = (err, s')"
  shows "(if si_connected s
     then err = None \<and>
       (if wss_closed (si_transport s')
        then ch_buf (wss_sendCh (si_transport s')) = ch_buf (wss_sendCh (si_transport s))
        else \<exists>x. ch_buf (wss_sendCh (si_transport s')) = ch_buf (wss_sendCh (si_transport s)) @ [x] \<and>
          unmarshal cd x = Inr \<lparr>msg_Event = e, msg_Data = d\<rparr>)
     else err = Some ErrConnectionClosed \<and> s' = s)"
proof (cases "si_connected s")
  case True
  then show ?thesis
    using wss.Send_connected [OF True assms(2,3)] assms(1,2) by (auto simp: codec_ok_def)
next
  case False
  then show ?thesis using assms(3) by (simp add: SI_Send_def)
qed

definition demo_codec :: codec where
  "demo_codec = \<lparr>marshal = (\<lambda>m. if m = \<lparr>msg_Event = ''hi'', msg_Data = GNil\<rparr> then Inr [104, 105]
      else Inl (ErrNew ''unsupported'')),
     unmarshal = (\<lambda>b. if b = [104, 105] then Inr \<lparr>msg_Event = ''hi'', msg_Data = GNil\<rparr>
      else Inl (ErrNew ''invalid''))\<rparr>"

lemma demo_codec_ok: "codec_ok demo_codec"
  by (simp add: codec_ok_def demo_codec_def)

theorem Send_queues_message_witness:
  "fst (SI_Send demo_codec (WSS_Write None) ''hi'' GNil
     (newSocketFromServerTransport ''s''
       (NewWebSocketServerTransport ''s'' DefaultWebSocketServerConfig 0))) = None"
proof -
  let ?s = "newSocketFromServerTransport ''s''
    (NewWebSocketServerTransport ''s'' DefaultWebSocketServerConfig 0) ::
      (nat, WebSocketServerTransport) socketImpl"
  obtain err s' where s: "SI_Send demo_codec (WSS_Write None) ''hi'' GNil ?s = (err, s')"
    by fastforce
  have "marshal demo_codec \<lparr>msg_Event = ''hi'', msg_Data = GNil\<rparr> = Inr [104, 105]"
    by (simp add: demo_codec_def)
  from Send_queues_message [OF demo_codec_ok this s] s show ?thesis
    by (simp add: newSocketFromServerTransport_def SI_Send_def demo_codec_def split: prod.splits)
qed

text \<open>A read error on a connected socket starts every disconnect handler twice: once with the
  error, by the receive loop, and once with \<open>nil\<close>, by the \<open>Close\<close> it calls; then the loop ends
  and the socket is closed.  On a socket that was already closed they start once more.\<close>

theorem read_error_disconnects_twice:
  "SI_receive_step cd c (Inl err) s = (gs, b, s') \<Longrightarrow>
     \<not> b \<and> \<not> si_connected s' \<and>
     gs = map (\<lambda>h. (h, GErr err)) (handlers_of (si_handlers s) EventDisconnect) @
       (if si_connected s then map (\<lambda>h. (h, GNil)) (handlers_of (si_handlers s) EventDisconnect) else [])"
  using receive_error_spawned [of cd c err s gs b s'] by (simp add: SI_triggerEvent_def)

theorem read_error_disconnects_twice_witness:
  "fst (SI_receive_step demo_codec LPS_Close (Inl ErrTimeout)
     (SI_On EventDisconnect (7 :: nat) (newSocketFromServerTransport ''s''
       (NewLongPollingServerTransport ''s'' DefaultLongPollingServerConfig 0)))) =
     [(7, GErr ErrTimeout), (7, GNil)]"
proof -
  let ?s = "SI_On EventDisconnect (7 :: nat) (newSocketFromServerTransport ''s''
       (NewLongPollingServerTransport ''s'' DefaultLongPollingServerConfig 0))"
  obtain gs b s' where s: "SI_receive_step demo_codec LPS_Close (Inl ErrTimeout) ?s = (gs, b, s')"
    by (metis prod_cases3)
  from read_error_disconnects_twice [OF s] s show ?thesis
    by (simp add: newSocketFromServerTransport_def)
qed

text \<open>Closing a socket is final and happens once: the first \<open>Close\<close> starts every disconnect
  handler once and closes the transport; after it \<open>Close\<close> does nothing and \<open>Send\<close> fails with
  \<open>ErrConnectionClosed\<close>.\<close>

theorem socket_close_once:
  assumes "si_connected s" and "SI_Close LPS_Close s = (err, gs, s')"
  shows "gs = map (\<lambda>h. (h, GNil)) (handlers_of (si_handlers s) EventDisconnect) \<and>
    lps_closed (si_transport s') \<and> SI_Close LPS_Close s' = (None, [], s') \<and>
    SI_Send cd LPS_Write e d s' = (Some ErrConnectionClosed, s')"
  using lps.Close_closes [OF assms] lps.Send_after_Close [OF assms(2)] SI_Close_spawned [OF assms(1)]
    assms(2)
  by (auto simp: SI_triggerEvent_def dest!: arg_cong [of _ _ "\<lambda>x. fst (snd x)"])

theorem socket_close_once_witness:
  "fst (snd (SI_Close LPS_Close
     (SI_On EventDisconnect (7 :: nat) (newSocketFromServerTransport ''s''
       (NewLongPollingServerTransport ''s'' DefaultLongPollingServerConfig 0))))) = [(7, GNil)]"
proof -
  let ?s = "SI_On EventDisconnect (7 :: nat) (newSocketFromServerTransport ''s''
       (NewLongPollingServerTransport ''s'' DefaultLongPollingServerConfig 0))"
  obtain err gs s' where s: "SI_Close LPS_Close ?s = (err, gs, s')" by (metis prod_cases3)
  have "si_connected ?s" by (simp add: newSocketFromServerTransport_def)
  from socket_close_once [OF this s] s show ?thesis by (simp add: newSocketFromServerTransport_def)
qed

text \<open>The receive loop on decodable messages starts, message by message, one goroutine per
  handler registered for its event, with its data, in the order of registration; it keeps waiting
  and the socket does not change.\<close>

theorem receiveLoop_dispatches:
  assumes "list_all (\<lambda>d. \<exists>m. unmarshal cd d = Inr m) ds"
  shows "SI_receiveLoop cd c (map Inr ds) s =
    (concat (map (\<lambda>d. case unmarshal cd d of Inl _ \<Rightarrow> []
        | Inr m \<Rightarrow> map (\<lambda>h. (h, msg_Data m)) (handlers_of (si_handlers s) (msg_Event m))) ds), True, s)"
  using receiveLoop_messages [of cd "map Inr ds" c s] assms unfolding SI_triggerEvent_def
  by (simp add: list_all_iff comp_def)

theorem receiveLoop_dispatches_witness:
  "fst (SI_receiveLoop demo_codec LPS_Close (map Inr [[104, 105], [104, 105]])
     (SI_On ''hi'' (7 :: nat) (newSocketFromServerTransport ''s''
       (NewLongPollingServerTransport ''s'' DefaultLongPollingServerConfig 0)))) = [(7, GNil), (7, GNil)]"
proof -
  have "list_all (\<lambda>d. \<exists>m. unmarshal demo_codec d = Inr m) [[104, 105], [104, 105]]"
    by (simp add: demo_codec_def)
  then show ?thesis
    by (subst receiveLoop_dispatches)
      (simp_all add: demo_codec_def newSocketFromServerTransport_def)
qed

end
