(* ===== verification/Server.thy ===== *)
theory Server
  imports Room SocketImpl
begin

text \<open>
  \<open>socket/server.go\<close>: the server with its sockets, sessions, rooms and handlers.  The state of
  the process is a \<open>World\<close>: the fields of the \<open>Server\<close>, the store of socket implementations
  (a \<open>LongPollingSession\<close> points to the socket whose transport it polls), the signal channels of
  \<open>registerSocketAndWaitForDisconnect\<close>, the counter of \<open>utils.go\<close>, and the goroutines that have
  been started and have not run.  Closures are data: \<open>shandler\<close> lists the closures that are
  registered on sockets, \<open>task\<close> the goroutines.  The calls of the application's handlers are
  recorded; what they do is other steps of the system.
\<close>

section \<open>Closures, goroutines, state\<close>

datatype shandler =
    HUser nat                        \<comment> \<open>a handler the application put on the socket\<close>
  | HForward Event                   \<comment> \<open>\<open>handleSocket\<close>: forwards an event to the server's handlers\<close>
  | HDisconnect                      \<comment> \<open>\<open>handleSocket\<close>: the disconnect closure\<close>
  | HSignal nat                      \<comment> \<open>closes the \<open>disconnectChan\<close> with this number\<close>

datatype task =
    TSocket Socket shandler gval     \<comment> \<open>\<open>go handler(data)\<close> of a socket\<close>
  | TServer nat Socket gval          \<comment> \<open>\<open>go handler(socket, data)\<close> of the server\<close>
  | TSend Socket Event gval          \<comment> \<open>one goroutine of \<open>Broadcast\<close>\<close>
  | TRegister Socket                 \<comment> \<open>\<open>go registerSocketAndWaitForDisconnect(socket)\<close>\<close>
  | TSignal Socket                   \<comment> \<open>the same goroutine after \<open>handleSocket\<close>\<close>

datatype transport = TWS WebSocketServerTransport | TLP LongPollingServerTransport

type_synonym simpl = "(shandler, transport) socketImpl"

record LongPollingSession =
  ses_ID :: string
  ses_sock :: nat                    \<comment> \<open>\<open>SocketImpl\<close>; its transport is \<open>Transport\<close>\<close>

record Server =
  srv_sockets :: "(string, Socket) gomap"
  srv_handlers :: "(Event, nat list) gomap"
  srv_sessions :: "(string, LongPollingSession) gomap"
  srv_roomManager :: RoomManager
  srv_pingInterval :: int
  srv_pingTimeout :: int
  srv_maxConcurrency :: int
  srv_semaphore :: "unit chan option"
  srv_compressionEnabled :: bool
  srv_bufferSize :: int

record World =
  w_server :: Server
  w_socks :: "nat \<Rightarrow> simpl"
  w_next :: nat
  w_signals :: "bool list"           \<comment> \<open>for each \<open>disconnectChan\<close>: closed?\<close>
  w_idCounter :: "64 word"
  w_tasks :: "task list"
  w_calls :: "(nat \<times> Socket \<times> gval) list"

text \<open>Answers of the libraries: the codec of messages, the result of \<open>conn.Close\<close>.\<close>

record env =
  env_codec :: codec
  env_connClose :: "gerror option"

section \<open>The two transports behind the interface\<close>

fun tr_Write :: "env \<Rightarrow> bytes \<Rightarrow> transport \<Rightarrow> gerror option \<times> transport" where
  "tr_Write E b (TWS t) = map_prod id TWS (WSS_Write (env_connClose E) b t)"
| "tr_Write E b (TLP t) = map_prod id TLP (LPS_Write b t)"

fun tr_Close :: "env \<Rightarrow> transport \<Rightarrow> gerror option \<times> transport" where
  "tr_Close E (TWS t) = map_prod id TWS (WSS_Close (env_connClose E) t)"
| "tr_Close E (TLP t) = map_prod id TLP (LPS_Close t)"

fun tr_is_closed :: "transport \<Rightarrow> bool" where
  "tr_is_closed (TWS t) = wss_closed t"
| "tr_is_closed (TLP t) = lps_closed t"

fun tr_queue :: "transport \<Rightarrow> bytes list" where
  "tr_queue (TWS t) = ch_buf (wss_sendCh t)"
| "tr_queue (TLP t) = lps_pendingMessages t"

interpretation tr: server_transport "tr_Write E" "tr_Close E" tr_is_closed tr_queue for E
proof unfold_locales
  fix b t
  show "fst (tr_Write E b t) = None"
    by (cases t) (simp_all add: wss.write_nil lps.write_nil)
  show "tr_is_closed t \<Longrightarrow> snd (tr_Write E b t) = t"
    by (cases t) (simp_all add: wss.write_closed lps.write_closed)
  show "tr_queue (snd (tr_Write E b t)) =
      (if tr_is_closed (snd (tr_Write E b t)) then tr_queue t else tr_queue t @ [b])"
    by (cases t) (simp_all add: wss.write_queued lps.write_queued)
  show "tr_is_closed (snd (tr_Close E t))"
    by (cases t) (simp_all add: wss.close_closed lps.close_closed)
  show "tr_is_closed t \<Longrightarrow> tr_Close E t = (None, t)"
    by (cases t) (simp_all add: wss.close_again lps.close_again)
  show "tr_queue (snd (tr_Close E t)) = tr_queue t"
    by (cases t) (simp_all add: wss.close_queued lps.close_queued)
qed

section \<open>Construction and options\<close>

text \<open>\<open>make(chan T, n)\<close> with a Go \<open>int\<close>.\<close>

definition make_chan_int :: "int \<Rightarrow> 'a chan run" where
  "make_chan_int n =
     (if n < 0 then Inl (Panic ''makechan: size out of range'') else Inr (make_chan (nat n)))"

datatype ServerOption =
    WithPingInterval int
  | WithPingTimeout int
  | WithMaxConcurrency int
  | WithCompression bool
  | WithBufferSize int

fun apply_option :: "ServerOption \<Rightarrow> Server \<Rightarrow> Server run" where
  "apply_option (WithPingInterval d) s = Inr (s\<lparr>srv_pingInterval := d\<rparr>)"
| "apply_option (WithPingTimeout d) s = Inr (s\<lparr>srv_pingTimeout := d\<rparr>)"
| "apply_option (WithMaxConcurrency n) s =
     run_bind (make_chan_int n) (\<lambda>c. Inr (s\<lparr>srv_maxConcurrency := n, srv_semaphore := Some c\<rparr>))"
| "apply_option (WithCompression b) s = Inr (s\<lparr>srv_compressionEnabled := b\<rparr>)"
| "apply_option (WithBufferSize n) s = Inr (s\<lparr>srv_bufferSize := n\<rparr>)"

fun apply_options :: "ServerOption list \<Rightarrow> Server \<Rightarrow> Server run" where
  "apply_options [] s = Inr s"
| "apply_options (opt # opts) s = run_bind (apply_option opt s) (apply_options opts)"

definition default_server :: Server where
  "default_server =
     \<lparr>srv_sockets = [], srv_handlers = [], srv_sessions = [], srv_roomManager = NewRoomManager,
      srv_pingInterval = 25 * second, srv_pingTimeout = 5 * second, srv_maxConcurrency = 100,
      srv_semaphore = None, srv_compressionEnabled = False, srv_bufferSize = 1024\<rparr>"

definition NewServer :: "ServerOption list \<Rightarrow> Server run" where
  "NewServer opts =
     run_bind (apply_options opts default_server)
       (\<lambda>s. if srv_semaphore s = None \<and> srv_maxConcurrency s > 0
         then run_bind (make_chan_int (srv_maxConcurrency s)) (\<lambda>c. Inr (s\<lparr>srv_semaphore := Some c\<rparr>))
         else Inr s)"

text \<open>The process when the server has been made.\<close>

definition new_world :: "Server \<Rightarrow> World" where
  "new_world s =
     \<lparr>w_server = s,
      w_socks = (\<lambda>_. newSocketFromServerTransport [] (TLP (NewLongPollingServerTransport []
        DefaultLongPollingServerConfig 0))),
      w_next = 0, w_signals = [], w_idCounter = 0, w_tasks = [], w_calls = []\<rparr>"

section \<open>Access to the parts of the world\<close>

definition spawn :: "task list \<Rightarrow> World \<Rightarrow> World" where
  "spawn ts w = w\<lparr>w_tasks := w_tasks w @ ts\<rparr>"

definition upd_server :: "(Server \<Rightarrow> Server) \<Rightarrow> World \<Rightarrow> World" where
  "upd_server f w = w\<lparr>w_server := f (w_server w)\<rparr>"

definition upd_sock :: "nat \<Rightarrow> (simpl \<Rightarrow> simpl) \<Rightarrow> World \<Rightarrow> World" where
  "upd_sock a f w = w\<lparr>w_socks := (w_socks w)(a := f (w_socks w a))\<rparr>"

definition alloc_sock :: "simpl \<Rightarrow> World \<Rightarrow> Socket \<times> World" where
  "alloc_sock s w =
     (SocketRef (w_next w) (si_id s),
      w\<lparr>w_socks := (w_socks w)(w_next w := s), w_next := Suc (w_next w)\<rparr>)"

definition ref :: "World \<Rightarrow> nat \<Rightarrow> Socket" where
  "ref w a = SocketRef a (si_id (w_socks w a))"

text \<open>\<open>generateID\<close> on the process-wide counter.\<close>

definition fresh_id :: "bytes option \<Rightarrow> World \<Rightarrow> string \<times> World" where
  "fresh_id rnd w =
     (case generateID rnd (w_idCounter w) of (i, c) \<Rightarrow> (i, w\<lparr>w_idCounter := c\<rparr>))"

text \<open>The methods of a socket in the store.\<close>

definition sock_Send :: "env \<Rightarrow> nat \<Rightarrow> Event \<Rightarrow> gval \<Rightarrow> World \<Rightarrow> gerror option \<times> World" where
  "sock_Send E a e d w =
     (case SI_Send (env_codec E) (tr_Write E) e d (w_socks w a) of
        (err, s) \<Rightarrow> (err, upd_sock a (\<lambda>_. s) w))"

definition sock_Close :: "env \<Rightarrow> nat \<Rightarrow> World \<Rightarrow> World" where
  "sock_Close E a w =
     (case SI_Close (tr_Close E) (w_socks w a) of
        (err, gs, s) \<Rightarrow> spawn (map (\<lambda>(h, d). TSocket (ref w a) h d) gs) (upd_sock a (\<lambda>_. s) w))"

text \<open>One turn of the receive loop of the socket at \<open>a\<close> on the result \<open>r\<close> of \<open>Read\<close>.\<close>

definition sock_receive :: "env \<Rightarrow> nat \<Rightarrow> gerror + bytes \<Rightarrow> World \<Rightarrow> World" where
  "sock_receive E a r w =
     (case SI_receive_step (env_codec E) (tr_Close E) r (w_socks w a) of
        (gs, goes_on, s) \<Rightarrow>
          spawn (map (\<lambda>(h, d). TSocket (ref w a) h d) gs) (upd_sock a (\<lambda>_. s) w))"

section \<open>Events\<close>

definition Server_HandleFunc :: "Event \<Rightarrow> nat \<Rightarrow> World \<Rightarrow> World" where
  "Server_HandleFunc event handler =
     upd_server (\<lambda>s. s\<lparr>srv_handlers := add_handler event handler (srv_handlers s)\<rparr>)"

definition Server_triggerEvent :: "Socket \<Rightarrow> Event \<Rightarrow> gval \<Rightarrow> World \<Rightarrow> World" where
  "Server_triggerEvent sk event data w =
     spawn (map (\<lambda>h. TServer h sk data) (handlers_of (srv_handlers (w_server w)) event)) w"

definition forwarded_events :: "Server \<Rightarrow> Event list" where
  "forwarded_events s =
     filter (\<lambda>e. e \<noteq> EventConnect \<and> e \<noteq> EventDisconnect) (gm_keys (srv_handlers s))"

definition Server_handleSocket :: "Socket \<Rightarrow> World \<Rightarrow> World" where
  "Server_handleSocket sk w =
     (let w1 = upd_server (\<lambda>s. s\<lparr>srv_sockets := gm_put (sk_ID sk) sk (srv_sockets s)\<rparr>) w;
          events = forwarded_events (w_server w1);
          w2 = upd_sock (sk_addr sk) (fold (\<lambda>e. SI_On e (HForward e)) events) w1;
          w3 = upd_sock (sk_addr sk) (SI_On EventDisconnect HDisconnect) w2
      in Server_triggerEvent sk EventConnect GNil w3)"

section \<open>Rooms\<close>

definition upd_rooms :: "(RoomManager \<Rightarrow> RoomManager) \<Rightarrow> World \<Rightarrow> World" where
  "upd_rooms f = upd_server (\<lambda>s. s\<lparr>srv_roomManager := f (srv_roomManager s)\<rparr>)"

definition Server_Join :: "string \<Rightarrow> string \<Rightarrow> World \<Rightarrow> World" where
  "Server_Join socketID room w =
     (case gm_get (srv_sockets (w_server w)) socketID of
        None \<Rightarrow> w
      | Some sk \<Rightarrow> upd_rooms (RoomManager_JoinRoom room sk) w)"

definition Server_Leave :: "string \<Rightarrow> string \<Rightarrow> World \<Rightarrow> World" where
  "Server_Leave socketID room = upd_rooms (RoomManager_LeaveRoom room socketID)"

definition Server_LeaveAll :: "string \<Rightarrow> World \<Rightarrow> World" where
  "Server_LeaveAll socketID = upd_rooms (RoomManager_LeaveAllRooms socketID)"

definition Server_RoomsOf :: "string \<Rightarrow> World \<Rightarrow> string list" where
  "Server_RoomsOf socketID w = RoomManager_GetSocketRooms socketID (srv_roomManager (w_server w))"

definition Server_In :: "string \<Rightarrow> World \<Rightarrow> Socket list \<times> World" where
  "Server_In room w =
     (case RoomManager_GetRoom room (srv_roomManager (w_server w)) of
        (a, rm) \<Rightarrow> (Room_GetSockets (rm_heap rm a), upd_rooms (\<lambda>_. rm) w))"

definition Server_GetSocket :: "string \<Rightarrow> World \<Rightarrow> Socket option" where
  "Server_GetSocket i w = gm_get (srv_sockets (w_server w)) i"

definition Server_Count :: "World \<Rightarrow> nat" where
  "Server_Count w = gm_len (srv_sockets (w_server w))"

section \<open>Broadcasts and shutdown\<close>

definition Server_Broadcast :: "Event \<Rightarrow> gval \<Rightarrow> World \<Rightarrow> World" where
  "Server_Broadcast event data w =
     (let socketsCopy = gm_vals (srv_sockets (w_server w)) in
      if length socketsCopy = 0 then w
      else spawn (map (\<lambda>s. TSend s event data) socketsCopy) w)"

definition Server_BroadcastParallel :: "World \<Rightarrow> Socket pool option" where
  "Server_BroadcastParallel w =
     (let socketsCopy = gm_vals (srv_sockets (w_server w)); socketCount = int (length socketsCopy) in
      if socketCount = 0 then None
      else Some (pool_start socketsCopy (go_min socketCount 20)))"

definition Server_BroadcastToRoom :: "string \<Rightarrow> World \<Rightarrow> Socket pool option" where
  "Server_BroadcastToRoom room w = RoomManager_BroadcastToRoom room (srv_roomManager (w_server w))"

definition Server_BroadcastToRooms :: "string list \<Rightarrow> World \<Rightarrow> Socket pool option list" where
  "Server_BroadcastToRooms rooms w = map (\<lambda>room. Server_BroadcastToRoom room w) rooms"

definition Server_Shutdown :: "env \<Rightarrow> World \<Rightarrow> World" where
  "Server_Shutdown E w =
     fold (\<lambda>sk. sock_Close E (sk_addr sk)) (gm_vals (srv_sockets (w_server w))) w"

section \<open>HTTP\<close>

record request =
  rq_upgrade :: string               \<comment> \<open>\<open>r.Header.Get("Upgrade")\<close>\<close>
  rq_path :: string
  rq_sessionId :: string
  rq_body :: "gerror + bytes"

text \<open>The result of \<open>upgraderConfig.Upgrade\<close>; on an error the library has answered the request.\<close>

datatype upgrade = Upgraded | UpgradeFailed response

definition upgrader_config :: "Server \<Rightarrow> upgrader" where
  "upgrader_config s =
     (let config = (if srv_compressionEnabled s then Upgrader\<lparr>ug_EnableCompression := True\<rparr> else Upgrader)
      in config\<lparr>ug_ReadBufferSize := srv_bufferSize s, ug_WriteBufferSize := srv_bufferSize s\<rparr>)"

text \<open>\<open>tryWebSocketUpgrade\<close> after the semaphore; \<open>upg\<close>: what the library makes of a configuration.\<close>

definition upgrade_socket ::
  "(upgrader \<Rightarrow> upgrade) \<Rightarrow> bytes option \<Rightarrow> int \<Rightarrow> World \<Rightarrow> (response \<times> Socket option \<times> World) run" where
  "upgrade_socket upg rnd now w =
     (case upg (upgrader_config (w_server w)) of
        UpgradeFailed resp \<Rightarrow> Inr (resp, None, w)
      | Upgraded \<Rightarrow>
          (case fresh_id rnd w of (i, w1) \<Rightarrow>
             if srv_bufferSize (w_server w1) < 0
             then Inl (Panic ''makechan: size out of range'')
             else
               (let wsConfig = DefaultWebSocketServerConfig\<lparr>wsc_BufferSize :=
                      nat (srv_bufferSize (w_server w1))\<rparr>;
                    wsTransport = NewWebSocketServerTransport i wsConfig now in
                case alloc_sock (newSocketFromServerTransport i (TWS wsTransport)) w1 of
                  (sk, w2) \<Rightarrow> Inr ([], Some sk, w2))))"

definition set_semaphore :: "unit chan \<Rightarrow> World \<Rightarrow> World" where
  "set_semaphore c = upd_server (\<lambda>s. s\<lparr>srv_semaphore := Some c\<rparr>)"

text \<open>The deferred receive that gives the slot back.\<close>

definition release_semaphore :: "World \<Rightarrow> World run" where
  "release_semaphore w =
     (case srv_semaphore (w_server w) of
        None \<Rightarrow> Inl Deadlock
      | Some c \<Rightarrow> (case ch_try_recv c of None \<Rightarrow> Inl Deadlock | Some (_, c') \<Rightarrow> Inr (set_semaphore c' w)))"

definition Server_tryWebSocketUpgrade ::
  "request \<Rightarrow> (upgrader \<Rightarrow> upgrade) \<Rightarrow> bytes option \<Rightarrow> int \<Rightarrow> World \<Rightarrow> (response \<times> Socket option \<times> World) run"
  where
  "Server_tryWebSocketUpgrade rq upg rnd now w =
     (if rq_upgrade rq \<noteq> ''websocket'' then Inr ([], None, w)
      else case srv_semaphore (w_server w) of
        None \<Rightarrow> upgrade_socket upg rnd now w
      | Some sem \<Rightarrow>
          (case ch_try_send () sem of
             None \<Rightarrow> Inr ([HttpError ''Too many connections'' StatusServiceUnavailable], None, w)
           | Some sem' \<Rightarrow>
               run_bind (upgrade_socket upg rnd now (set_semaphore sem' w))
                 (\<lambda>(resp, sk, w'). run_bind (release_semaphore w') (\<lambda>w''. Inr (resp, sk, w'')))))"

definition handleLongPollingConnect :: "bytes option \<Rightarrow> int \<Rightarrow> World \<Rightarrow> response \<times> World" where
  "handleLongPollingConnect rnd now w =
     (case fresh_id rnd w of (sessionID, w1) \<Rightarrow>
        let lpTransport = NewLongPollingServerTransport sessionID DefaultLongPollingServerConfig now in
        case alloc_sock (newSocketFromServerTransport sessionID (TLP lpTransport)) w1 of (sk, w2) \<Rightarrow>
        let session = \<lparr>ses_ID = sessionID, ses_sock = sk_addr sk\<rparr>;
            w3 = upd_server (\<lambda>s. s\<lparr>srv_sessions := gm_put sessionID session (srv_sessions s)\<rparr>) w2
        in ([SetHeader ''Content-Type'' ''application/json'',
             WriteText (''{\"sessionId\":\"'' @ sessionID @ ''\"}'')],
            spawn [TRegister sk] w3))"

text \<open>A session's transport: the long-polling transport of its socket.\<close>

definition on_session_transport ::
  "nat \<Rightarrow> (LongPollingServerTransport \<Rightarrow> response \<times> LongPollingServerTransport) \<Rightarrow> World \<Rightarrow>
     response \<times> World" where
  "on_session_transport a f w =
     (case si_transport (w_socks w a) of
        TWS _ \<Rightarrow> ([], w)
      | TLP t \<Rightarrow> (case f t of (resp, t') \<Rightarrow> (resp, upd_sock a (\<lambda>s. s\<lparr>si_transport := TLP t'\<rparr>) w)))"

definition handleLongPollingPoll :: "int \<Rightarrow> string \<Rightarrow> World \<Rightarrow> response \<times> World" where
  "handleLongPollingPoll now sessionID w =
     (case gm_get (srv_sessions (w_server w)) sessionID of
        None \<Rightarrow> ([HttpError ''Session not found'' StatusNotFound], w)
      | Some session \<Rightarrow> on_session_transport (ses_sock session) (LPS_HandlePoll now) w)"

definition handleLongPollingSend ::
  "int \<Rightarrow> gerror + bytes \<Rightarrow> string \<Rightarrow> World \<Rightarrow> response \<times> World" where
  "handleLongPollingSend now body sessionID w =
     (case gm_get (srv_sessions (w_server w)) sessionID of
        None \<Rightarrow> ([HttpError ''Session not found'' StatusNotFound], w)
      | Some session \<Rightarrow> on_session_transport (ses_sock session) (LPS_HandleSend now body) w)"

text \<open>Deleting a session: both maps, as in \<open>cleanupSessions\<close> and \<open>handleLongPollingDisconnect\<close>.\<close>

definition drop_session :: "string \<Rightarrow> LongPollingSession \<Rightarrow> World \<Rightarrow> World" where
  "drop_session sessionID session w =
     upd_server (\<lambda>s. s\<lparr>srv_sessions := gm_delete sessionID (srv_sessions s),
       srv_sockets := gm_delete (si_id (w_socks w (ses_sock session))) (srv_sockets s)\<rparr>) w"

definition handleLongPollingDisconnect :: "env \<Rightarrow> string \<Rightarrow> World \<Rightarrow> response \<times> World" where
  "handleLongPollingDisconnect E sessionID w =
     (case gm_get (srv_sessions (w_server w)) sessionID of
        None \<Rightarrow> ([WriteHeader StatusOK], w)
      | Some session \<Rightarrow>
          ([WriteHeader StatusOK], sock_Close E (ses_sock session) (drop_session sessionID session w)))"

definition Server_handleLongPolling ::
  "env \<Rightarrow> request \<Rightarrow> bytes option \<Rightarrow> int \<Rightarrow> World \<Rightarrow> response \<times> World" where
  "Server_handleLongPolling E rq rnd now w =
     (let path = rq_path rq; sessionID = rq_sessionId rq in
      if path = ''/connect'' \<or> path = ''/socket/connect'' then handleLongPollingConnect rnd now w
      else if path = ''/poll'' \<or> path = ''/socket/poll'' then handleLongPollingPoll now sessionID w
      else if path = ''/send'' \<or> path = ''/socket/send''
      then handleLongPollingSend now (rq_body rq) sessionID w
      else if path = ''/disconnect'' \<or> path = ''/socket/disconnect''
      then handleLongPollingDisconnect E sessionID w
      else ([HttpError ''Unknown endpoint'' StatusNotFound], w))"

definition Server_HandleHTTP ::
  "env \<Rightarrow> request \<Rightarrow> (upgrader \<Rightarrow> upgrade) \<Rightarrow> bytes option \<Rightarrow> int \<Rightarrow> World \<Rightarrow> (response \<times> World) run" where
  "Server_HandleHTTP E rq upg rnd now w =
     run_bind (Server_tryWebSocketUpgrade rq upg rnd now w)
       (\<lambda>(resp, sk, w'). case sk of
          Some s \<Rightarrow> Inr (resp, Server_handleSocket s w')
        | None \<Rightarrow> (case Server_handleLongPolling E rq rnd now w' of
            (resp', w'') \<Rightarrow> Inr (resp @ resp', w'')))"

text \<open>One tick of \<open>cleanupSessions\<close>, under the server's lock.\<close>

definition session_expired :: "int \<Rightarrow> World \<Rightarrow> LongPollingSession \<Rightarrow> bool" where
  "session_expired now w session \<longleftrightarrow>
     (case si_transport (w_socks w (ses_sock session)) of
        TLP t \<Rightarrow> LPS_IsExpired now t | TWS _ \<Rightarrow> False)"

definition cleanup_one :: "env \<Rightarrow> int \<Rightarrow> string \<times> LongPollingSession \<Rightarrow> World \<Rightarrow> World" where
  "cleanup_one E now e w =
     (if session_expired now w (snd e)
      then sock_Close E (ses_sock (snd e)) (drop_session (fst e) (snd e) w) else w)"

definition Server_cleanupSessions :: "env \<Rightarrow> int \<Rightarrow> World \<Rightarrow> World" where
  "Server_cleanupSessions E now w = fold (cleanup_one E now) (srv_sessions (w_server w)) w"

section \<open>Goroutines\<close>

definition run_disconnect :: "Socket \<Rightarrow> gval \<Rightarrow> World \<Rightarrow> World" where
  "run_disconnect sk data w =
     (let w1 = upd_server (\<lambda>s. s\<lparr>srv_sockets := gm_delete (sk_ID sk) (srv_sockets s)\<rparr>) w;
          w2 = Server_LeaveAll (sk_ID sk) w1
      in Server_triggerEvent sk EventDisconnect data w2)"

text \<open>\<open>close(disconnectChan)\<close> panics when the channel is closed already.\<close>

definition close_signal :: "nat \<Rightarrow> World \<Rightarrow> World run" where
  "close_signal c w =
     (if c < length (w_signals w) \<and> w_signals w ! c then Inl (Panic ''close of closed channel'')
      else Inr (w\<lparr>w_signals := (w_signals w)[c := True]\<rparr>))"

text \<open>The second half of \<open>registerSocketAndWaitForDisconnect\<close>; the goroutine then waits for the
  channel and only prints.\<close>

definition register_signal :: "Socket \<Rightarrow> World \<Rightarrow> World" where
  "register_signal sk w =
     (let c = length (w_signals w) in
      upd_sock (sk_addr sk) (SI_On EventDisconnect (HSignal c)) (w\<lparr>w_signals := w_signals w @ [False]\<rparr>))"

fun run_task :: "env \<Rightarrow> task \<Rightarrow> World \<Rightarrow> World run" where
  "run_task E (TSocket sk (HUser n) d) w = Inr (w\<lparr>w_calls := w_calls w @ [(n, sk, d)]\<rparr>)"
| "run_task E (TSocket sk (HForward e) d) w = Inr (Server_triggerEvent sk e d w)"
| "run_task E (TSocket sk HDisconnect d) w = Inr (run_disconnect sk d w)"
| "run_task E (TSocket sk (HSignal c) d) w = close_signal c w"
| "run_task E (TServer n sk d) w = Inr (w\<lparr>w_calls := w_calls w @ [(n, sk, d)]\<rparr>)"
| "run_task E (TSend sk e d) w = Inr (snd (sock_Send E (sk_addr sk) e d w))"
| "run_task E (TRegister sk) w = Inr (spawn [TSignal sk] (Server_handleSocket sk w))"
| "run_task E (TSignal sk) w = Inr (register_signal sk w)"

end
