(* ===== verification/ServerSteps.thy ===== *)
theory ServerSteps
  imports Server
begin

text \<open>
  The server as a system of steps: requests, goroutines, receive loops, write pumps, calls of the
  application and ticks of the cleanup, in any order.  The granularity is one operation; the
  critical sections inside the room operations are interleaved in the theory RoomThreads.  The
  invariant \<open>world_ok\<close> holds in every reachable state.
\<close>

section \<open>Steps\<close>

definition take_task :: "nat \<Rightarrow> World \<Rightarrow> World" where
  "take_task k w = w\<lparr>w_tasks := take k (w_tasks w) @ drop (Suc k) (w_tasks w)\<rparr>"

inductive wstep :: "env \<Rightarrow> World \<Rightarrow> World \<Rightarrow> bool" for E where
  http: "Server_HandleHTTP E rq upg rnd now w = Inr (resp, w') \<Longrightarrow> wstep E w w'"
| task: "k < length (w_tasks w) \<Longrightarrow> run_task E (w_tasks w ! k) (take_task k w) = Inr w' \<Longrightarrow> wstep E w w'"
| receive_ws: "a < w_next w \<Longrightarrow> si_transport (w_socks w a) = TWS t \<Longrightarrow>
    WSS_Read (env_connClose E) r t = (r', t') \<Longrightarrow>
    wstep E w (sock_receive E a r' (upd_sock a (\<lambda>s. s\<lparr>si_transport := TWS t'\<rparr>) w))"
| receive_lp: "a < w_next w \<Longrightarrow> si_transport (w_socks w a) = TLP t \<Longrightarrow>
    LPS_Read t = Some (r', t') \<Longrightarrow>
    wstep E w (sock_receive E a r' (upd_sock a (\<lambda>s. s\<lparr>si_transport := TLP t'\<rparr>) w))"
| write_pump: "a < w_next w \<Longrightarrow> si_transport (w_socks w a) = TWS t \<Longrightarrow> WSS_pump_turn err now t = Some t' \<Longrightarrow>
    wstep E w (upd_sock a (\<lambda>s. s\<lparr>si_transport := TWS t'\<rparr>) w)"
| cleanup: "wstep E w (Server_cleanupSessions E now w)"
| handle_func: "wstep E w (Server_HandleFunc e h w)"
| socket_on: "a < w_next w \<Longrightarrow> wstep E w (upd_sock a (SI_On e (HUser n)) w)"
| socket_off: "a < w_next w \<Longrightarrow> wstep E w (upd_sock a (SI_Off e) w)"
| socket_send: "a < w_next w \<Longrightarrow> sock_Send E a e d w = (err, w') \<Longrightarrow> wstep E w w'"
| socket_close: "a < w_next w \<Longrightarrow> wstep E w (sock_Close E a w)"
| broadcast: "wstep E w (Server_Broadcast e d w)"
| shutdown: "wstep E w (Server_Shutdown E w)"
| api_join: "wstep E w (Server_Join i room w)"
| api_leave: "wstep E w (Server_Leave i room w)"
| api_leave_all: "wstep E w (Server_LeaveAll i w)"
| api_in: "Server_In room w = (ss, w') \<Longrightarrow> wstep E w w'"

abbreviation wreach :: "env \<Rightarrow> World \<Rightarrow> World \<Rightarrow> bool" where
  "wreach E \<equiv> reaches (wstep E)"

section \<open>The invariant\<close>

fun is_LP :: "transport \<Rightarrow> bool" where
  "is_LP (TLP _) = True"
| "is_LP (TWS _) = False"

fun task_socket :: "task \<Rightarrow> Socket" where
  "task_socket (TSocket sk _ _) = sk"
| "task_socket (TServer _ sk _) = sk"
| "task_socket (TSend sk _ _) = sk"
| "task_socket (TRegister sk) = sk"
| "task_socket (TSignal sk) = sk"

text \<open>A socket value points to an allocated socket and carries its identifier.\<close>

definition sock_ok :: "World \<Rightarrow> Socket \<Rightarrow> bool" where
  "sock_ok w sk \<longleftrightarrow> sk_addr sk < w_next w \<and> si_id (w_socks w (sk_addr sk)) = sk_ID sk"

definition session_ok :: "World \<Rightarrow> string \<Rightarrow> LongPollingSession \<Rightarrow> bool" where
  "session_ok w i ss \<longleftrightarrow> ses_ID ss = i \<and> ses_sock ss < w_next w \<and>
     si_id (w_socks w (ses_sock ss)) = i \<and> is_LP (si_transport (w_socks w (ses_sock ss)))"

definition server_ok :: "World \<Rightarrow> Server \<Rightarrow> bool" where
  "server_ok w s \<longleftrightarrow> gm_ok (srv_sockets s) \<and> gm_ok (srv_sessions s) \<and> rm_ok (srv_roomManager s) \<and>
     gm_ok (srv_handlers s) \<and> (\<forall>sk\<in>rm_refs (srv_roomManager s). sock_ok w sk) \<and>
     (\<forall>i sk. gm_get (srv_sockets s) i = Some sk \<longrightarrow> sk_ID sk = i \<and> sock_ok w sk) \<and>
     (\<forall>i ss. gm_get (srv_sessions s) i = Some ss \<longrightarrow> session_ok w i ss)"

definition world_ok :: "World \<Rightarrow> bool" where
  "world_ok w \<longleftrightarrow> server_ok w (w_server w) \<and> (\<forall>t\<in>set (w_tasks w). sock_ok w (task_socket t))"

text \<open>The store only grows: sockets keep their identifier and the kind of their transport.\<close>

definition store_ext :: "World \<Rightarrow> World \<Rightarrow> bool" where
  "store_ext w w' \<longleftrightarrow> w_next w \<le> w_next w' \<and>
     (\<forall>a<w_next w. si_id (w_socks w' a) = si_id (w_socks w a) \<and>
        is_LP (si_transport (w_socks w' a)) = is_LP (si_transport (w_socks w a)))"

lemma store_ext_refl [simp]: "store_ext w w"
  by (simp add: store_ext_def)

lemma store_ext_trans: "store_ext u v \<Longrightarrow> store_ext v w \<Longrightarrow> store_ext u w"
  by (auto simp: store_ext_def)

lemma store_ext_sock: "store_ext w w' \<Longrightarrow> sock_ok w sk \<Longrightarrow> sock_ok w' sk"
  by (auto simp: store_ext_def sock_ok_def)

lemma store_ext_session: "store_ext w w' \<Longrightarrow> session_ok w i ss \<Longrightarrow> session_ok w' i ss"
  by (auto simp: store_ext_def session_ok_def)

lemma store_ext_server: "store_ext w w' \<Longrightarrow> server_ok w s \<Longrightarrow> server_ok w' s"
  unfolding server_ok_def using store_ext_sock [of w w'] store_ext_session [of w w'] by blast

subsection \<open>Parts of the world after the elementary updates\<close>

lemma world_simps [simp]:
  "w_server (spawn ts w) = w_server w" "w_socks (spawn ts w) = w_socks w"
  "w_next (spawn ts w) = w_next w" "w_tasks (spawn ts w) = w_tasks w @ ts"
  "w_signals (spawn ts w) = w_signals w"
  "w_server (upd_server f w) = f (w_server w)" "w_socks (upd_server f w) = w_socks w"
  "w_next (upd_server f w) = w_next w" "w_tasks (upd_server f w) = w_tasks w"
  "w_signals (upd_server f w) = w_signals w"
  "w_server (upd_sock a g w) = w_server w" "w_socks (upd_sock a g w) = (w_socks w)(a := g (w_socks w a))"
  "w_next (upd_sock a g w) = w_next w" "w_tasks (upd_sock a g w) = w_tasks w"
  "w_signals (upd_sock a g w) = w_signals w"
  by (simp_all add: spawn_def upd_server_def upd_sock_def)

lemma ok_spawn:
  "world_ok w \<Longrightarrow> (\<And>t. t \<in> set ts \<Longrightarrow> sock_ok w (task_socket t)) \<Longrightarrow> world_ok (spawn ts w)"
proof -
  have "store_ext w (spawn ts w)" by (simp add: store_ext_def)
  then show "world_ok w \<Longrightarrow> (\<And>t. t \<in> set ts \<Longrightarrow> sock_ok w (task_socket t)) \<Longrightarrow> world_ok (spawn ts w)"
    unfolding world_ok_def by (auto intro: store_ext_server store_ext_sock)
qed

lemma sock_ok_simps [simp]:
  "sock_ok (spawn ts w) = sock_ok w" "sock_ok (upd_server f w) = sock_ok w"
  by (auto simp: sock_ok_def fun_eq_iff)

lemma session_ok_simps [simp]:
  "session_ok (spawn ts w) = session_ok w" "session_ok (upd_server f w) = session_ok w"
  by (auto simp: session_ok_def fun_eq_iff)

lemma server_ok_simps [simp]:
  "server_ok (spawn ts w) = server_ok w" "server_ok (upd_server f w) = server_ok w"
  by (auto simp: server_ok_def fun_eq_iff)

lemma ok_upd_server:
  "world_ok w \<Longrightarrow> server_ok w (f (w_server w)) \<Longrightarrow> world_ok (upd_server f w)"
  by (simp add: world_ok_def)

lemma ok_store_ext:
  "world_ok w \<Longrightarrow> store_ext w w' \<Longrightarrow> w_server w' = w_server w \<Longrightarrow> set (w_tasks w') \<subseteq> set (w_tasks w) \<Longrightarrow>
     world_ok w'"
  unfolding world_ok_def using store_ext_server store_ext_sock by (metis subsetD)

lemma ext_upd_sock:
  "si_id (g (w_socks w a)) = si_id (w_socks w a) \<Longrightarrow>
   is_LP (si_transport (g (w_socks w a))) = is_LP (si_transport (w_socks w a)) \<Longrightarrow>
     store_ext w (upd_sock a g w)"
  by (auto simp: store_ext_def)

lemma ok_upd_sock:
  "world_ok w \<Longrightarrow> si_id (g (w_socks w a)) = si_id (w_socks w a) \<Longrightarrow>
   is_LP (si_transport (g (w_socks w a))) = is_LP (si_transport (w_socks w a)) \<Longrightarrow>
     world_ok (upd_sock a g w)"
  by (rule ok_store_ext [OF _ ext_upd_sock]) simp_all

lemma sock_ok_ref: "a < w_next w \<Longrightarrow> sock_ok w (ref w a)"
  by (simp add: sock_ok_def ref_def)

lemma ref_eq: "sock_ok w sk \<Longrightarrow> ref w (sk_addr sk) = sk"
  by (cases sk) (simp add: sock_ok_def ref_def)

lemma server_okD:
  assumes "server_ok w s"
  shows "gm_get (srv_sockets s) i = Some sk \<Longrightarrow> sk_ID sk = i \<and> sock_ok w sk"
    and "gm_get (srv_sessions s) i = Some ss \<Longrightarrow> session_ok w i ss"
    and "rm_ok (srv_roomManager s)" and "gm_ok (srv_handlers s)" and "gm_ok (srv_sockets s)" and "gm_ok (srv_sessions s)"
  using assms by (auto simp: server_ok_def)

lemma world_okD: "world_ok w \<Longrightarrow> server_ok w (w_server w)"
  by (simp add: world_ok_def)

lemma world_ok_task: "world_ok w \<Longrightarrow> t \<in> set (w_tasks w) \<Longrightarrow> sock_ok w (task_socket t)"
  by (simp add: world_ok_def)

subsection \<open>Sockets\<close>

lemma tr_kind [simp]:
  "is_LP (snd (tr_Write E b t)) = is_LP t" "is_LP (snd (tr_Close E t)) = is_LP t"
  by (cases t; simp)+

lemma tr_Write_kind: "tr_Write E b t = (err, t') \<Longrightarrow> is_LP t' = is_LP t"
  using tr_kind(1) [of E b t] by simp

lemma tr_Close_kind: "tr_Close E t = (err, t') \<Longrightarrow> is_LP t' = is_LP t"
  using tr_kind(2) [of E t] by simp

lemma SI_Send_kind: "SI_Send cd (tr_Write E) e d s = (err, s') \<Longrightarrow>
    is_LP (si_transport s') = is_LP (si_transport s)"
  by (auto simp: SI_Send_def tr_Write_kind split: if_splits sum.splits prod.splits)

lemma SI_Close_kind: "SI_Close (tr_Close E) s = (err, gs, s') \<Longrightarrow>
    is_LP (si_transport s') = is_LP (si_transport s)"
  by (auto simp: SI_Close_def Let_def tr_Close_kind split: if_splits prod.splits)

lemma receive_frame:
  "SI_receive_step cd (tr_Close E) r s = (gs, b, s') \<Longrightarrow>
     si_id s' = si_id s \<and> is_LP (si_transport s') = is_LP (si_transport s)"
proof -
  assume st: "SI_receive_step cd (tr_Close E) r s = (gs, b, s')"
  show ?thesis
  proof (cases r)
    case (Inl err)
    obtain er hs s2 where c: "SI_Close (tr_Close E) s = (er, hs, s2)" by (metis prod_cases3)
    have "s' = s2" using st Inl by (simp add: SI_receive_step_def c)
    then show ?thesis using SI_Close_frame [OF c] SI_Close_kind [OF c] by simp
  next
    case (Inr d)
    then show ?thesis using st by (cases "unmarshal cd d") (auto simp: SI_receive_step_def)
  qed
qed

lemma ok_sock_Close:
  assumes "world_ok w" and "a < w_next w"
  shows "world_ok (sock_Close E a w)"
proof -
  obtain err gs s where c: "SI_Close (tr_Close E) (w_socks w a) = (err, gs, s)" by (metis prod_cases3)
  have "world_ok (upd_sock a (\<lambda>_. s) w)"
    using assms(1) SI_Close_frame [OF c] SI_Close_kind [OF c] by (intro ok_upd_sock) auto
  moreover have "sock_ok (upd_sock a (\<lambda>_. s) w) (ref w a)"
    using assms(2) SI_Close_frame [OF c] by (simp add: sock_ok_def ref_def)
  ultimately show ?thesis unfolding sock_Close_def c by (auto intro!: ok_spawn)
qed

lemma ok_sock_receive:
  assumes "world_ok w" and "a < w_next w"
  shows "world_ok (sock_receive E a r w)"
proof -
  obtain gs b s where c: "SI_receive_step (env_codec E) (tr_Close E) r (w_socks w a) = (gs, b, s)"
    by (metis prod_cases3)
  have "world_ok (upd_sock a (\<lambda>_. s) w)"
    using assms(1) receive_frame [OF c] by (intro ok_upd_sock) auto
  moreover have "sock_ok (upd_sock a (\<lambda>_. s) w) (ref w a)"
    using assms(2) receive_frame [OF c] by (simp add: sock_ok_def ref_def)
  ultimately show ?thesis unfolding sock_receive_def c by (auto intro!: ok_spawn)
qed

lemma ok_sock_Send: "world_ok w \<Longrightarrow> sock_Send E a e d w = (err, w') \<Longrightarrow> world_ok w'"
proof -
  assume w: "world_ok w" and s: "sock_Send E a e d w = (err, w')"
  obtain err' s' where c: "SI_Send (env_codec E) (tr_Write E) e d (w_socks w a) = (err', s')" by fastforce
  with s have "w' = upd_sock a (\<lambda>_. s') w" by (simp add: sock_Send_def)
  with w show ?thesis using SI_Send_frame [OF c] SI_Send_kind [OF c] by (auto intro!: ok_upd_sock)
qed

lemma sock_Close_simps [simp]:
  "w_server (sock_Close E a w) = w_server w" "w_next (sock_Close E a w) = w_next w"
  "w_signals (sock_Close E a w) = w_signals w"
  by (simp_all add: sock_Close_def split: prod.splits)

subsection \<open>Server operations\<close>

lemma ok_triggerEvent: "world_ok w \<Longrightarrow> sock_ok w sk \<Longrightarrow> world_ok (Server_triggerEvent sk e d w)"
  unfolding Server_triggerEvent_def by (rule ok_spawn) auto

lemma fold_On_frame:
  "si_id (fold (\<lambda>e. SI_On e (HForward e)) es s) = si_id s \<and>
   si_transport (fold (\<lambda>e. SI_On e (HForward e)) es s) = si_transport s \<and>
   si_connected (fold (\<lambda>e. SI_On e (HForward e)) es s) = si_connected s"
  by (induction es arbitrary: s) simp_all

lemma ok_handleSocket:
  assumes "world_ok w" and "sock_ok w sk"
  shows "world_ok (Server_handleSocket sk w)"
proof -
  let ?w1 = "upd_server (\<lambda>s. s\<lparr>srv_sockets := gm_put (sk_ID sk) sk (srv_sockets s)\<rparr>) w"
  let ?es = "forwarded_events (w_server ?w1)"
  let ?w2 = "upd_sock (sk_addr sk) (fold (\<lambda>e. SI_On e (HForward e)) ?es) ?w1"
  let ?w3 = "upd_sock (sk_addr sk) (SI_On EventDisconnect HDisconnect) ?w2"
  have "world_ok ?w1"
    using assms by (intro ok_upd_server) (auto simp: world_ok_def server_ok_def split: if_splits)
  then have "world_ok ?w2" by (rule ok_upd_sock) (simp_all add: fold_On_frame)
  then have "world_ok ?w3" by (rule ok_upd_sock) simp_all
  moreover have "sock_ok ?w3 sk" using assms(2) by (simp add: sock_ok_def fold_On_frame)
  ultimately have "world_ok (Server_triggerEvent sk EventConnect GNil ?w3)" by (rule ok_triggerEvent)
  then show ?thesis unfolding Server_handleSocket_def Let_def .
qed

lemma ok_alloc:
  assumes "world_ok w" and "alloc_sock s w = (sk, w')"
  shows "world_ok w'" "sock_ok w' sk" "w_server w' = w_server w" "sk_ID sk = si_id s"
    "w_socks w' (sk_addr sk) = s" "sk_addr sk < w_next w'"
proof -
  have "store_ext w w'" using assms(2) by (auto simp: alloc_sock_def store_ext_def)
  then show "world_ok w'" by (rule ok_store_ext [OF assms(1)]) (use assms(2) in \<open>auto simp: alloc_sock_def\<close>)
qed (use assms(2) in \<open>auto simp: alloc_sock_def sock_ok_def\<close>)

lemma ok_fresh_id: "world_ok w \<Longrightarrow> fresh_id rnd w = (i, w') \<Longrightarrow> world_ok w'"
  by (erule ok_store_ext) (auto simp: fresh_id_def store_ext_def split: prod.splits)

lemma ok_rooms:
  "world_ok w \<Longrightarrow> (\<And>rm. rm_ok rm \<Longrightarrow> rm_ok (f rm)) \<Longrightarrow>
     (\<And>rm. rm_refs (f rm) \<subseteq> Collect (sock_ok w) \<union> rm_refs rm) \<Longrightarrow> world_ok (upd_rooms f w)"
  unfolding upd_rooms_def by (intro ok_upd_server) (auto simp: world_ok_def server_ok_def)

lemma ok_drop_session: "world_ok w \<Longrightarrow> world_ok (drop_session i ss w)"
  unfolding drop_session_def
  by (intro ok_upd_server) (auto simp: world_ok_def server_ok_def split: if_splits)

lemma ok_disconnect: "world_ok w \<Longrightarrow> sock_ok w sk \<Longrightarrow> world_ok (run_disconnect sk d w)"
proof -
  assume w: "world_ok w" and sk: "sock_ok w sk"
  let ?w1 = "upd_server (\<lambda>s. s\<lparr>srv_sockets := gm_delete (sk_ID sk) (srv_sockets s)\<rparr>) w"
  have "world_ok ?w1"
    using w by (intro ok_upd_server) (auto simp: world_ok_def server_ok_def split: if_splits)
  then have "world_ok (Server_LeaveAll (sk_ID sk) ?w1)"
    unfolding Server_LeaveAll_def using rm_refs_LeaveAll by (intro ok_rooms) auto
  moreover have "sock_ok (Server_LeaveAll (sk_ID sk) ?w1) sk"
    using sk by (simp add: Server_LeaveAll_def upd_rooms_def)
  ultimately show ?thesis unfolding run_disconnect_def Let_def by (rule ok_triggerEvent)
qed

lemma ok_register_signal: "world_ok w \<Longrightarrow> world_ok (register_signal sk w)"
proof -
  assume "world_ok w"
  then have "world_ok (w\<lparr>w_signals := w_signals w @ [False]\<rparr>)"
    by (rule ok_store_ext) (auto simp: store_ext_def)
  then show ?thesis unfolding register_signal_def Let_def by (rule ok_upd_sock) simp_all
qed

lemma ok_close_signal: "world_ok w \<Longrightarrow> close_signal c w = Inr w' \<Longrightarrow> world_ok w'"
  by (erule ok_store_ext) (auto simp: close_signal_def store_ext_def split: if_splits)

lemma ok_register: "world_ok w \<Longrightarrow> sock_ok w sk \<Longrightarrow> world_ok (spawn [TSignal sk] (Server_handleSocket sk w))"
  by (rule ok_spawn [OF ok_handleSocket])
    (auto simp: Server_handleSocket_def Let_def Server_triggerEvent_def sock_ok_def fold_On_frame)

lemma ok_calls: "world_ok w \<Longrightarrow> world_ok (w\<lparr>w_calls := cs\<rparr>)"
  by (erule ok_store_ext) (auto simp: store_ext_def)

lemma ok_run_task:
  assumes "world_ok w" and "sock_ok w (task_socket t)" and "run_task E t w = Inr w'"
  shows "world_ok w'"
proof (cases t)
  case (TSocket sk h d)
  then show ?thesis using assms
    by (cases h) (auto intro: ok_triggerEvent ok_disconnect ok_calls ok_close_signal)
next
  case (TSend sk e d)
  then show ?thesis using assms ok_sock_Send [OF assms(1)] by (metis prod.collapse run_task.simps(6) sum.inject(2))
qed (use assms in \<open>auto intro: ok_calls ok_register ok_register_signal\<close>)

subsection \<open>Requests\<close>

lemma world_ok_semaphore: "world_ok w \<Longrightarrow> world_ok (set_semaphore c w)"
  unfolding set_semaphore_def by (intro ok_upd_server) (auto simp: world_ok_def server_ok_def)

lemma sock_ok_semaphore [simp]: "sock_ok (set_semaphore c w) = sock_ok w"
  by (simp add: set_semaphore_def)

lemma ok_upgrade_socket:
  assumes "world_ok w" and "upgrade_socket upg rnd now w = Inr (resp, sk, w')"
  shows "world_ok w' \<and> (\<forall>s. sk = Some s \<longrightarrow> sock_ok w' s)"
proof (cases "upg (upgrader_config (w_server w))")
  case (UpgradeFailed r)
  then show ?thesis using assms by (simp add: upgrade_socket_def)
next
  case Upgraded
  obtain i w1 where f: "fresh_id rnd w = (i, w1)" by fastforce
  have "world_ok w1" by (rule ok_fresh_id [OF assms(1) f])
  then show ?thesis
    using assms(2) Upgraded ok_alloc [of w1]
    by (auto simp: upgrade_socket_def f Let_def split: if_splits prod.splits)
qed

lemma ok_release: "world_ok w \<Longrightarrow> release_semaphore w = Inr w' \<Longrightarrow> world_ok w' \<and> sock_ok w' = sock_ok w"
  by (auto simp: release_semaphore_def intro: world_ok_semaphore split: option.splits prod.splits)

lemma ok_tryUpgrade:
  assumes "world_ok w" and "Server_tryWebSocketUpgrade rq upg rnd now w = Inr (resp, sk, w')"
  shows "world_ok w' \<and> (\<forall>s. sk = Some s \<longrightarrow> sock_ok w' s)"
proof (cases "rq_upgrade rq = ''websocket''")
  case False
  then show ?thesis using assms by (simp add: Server_tryWebSocketUpgrade_def)
next
  case ws: True
  show ?thesis
  proof (cases "srv_semaphore (w_server w)")
    case None
    then show ?thesis using ok_upgrade_socket [OF assms(1)] assms(2) ws
      by (simp add: Server_tryWebSocketUpgrade_def)
  next
    case (Some sem)
    show ?thesis
    proof (cases "ch_try_send () sem")
      case None
      then show ?thesis using assms ws Some by (simp add: Server_tryWebSocketUpgrade_def)
    next
      case (Some sem')
      with assms(2) ws \<open>srv_semaphore (w_server w) = Some sem\<close> obtain w1 where
        u: "upgrade_socket upg rnd now (set_semaphore sem' w) = Inr (resp, sk, w1)"
        and r: "release_semaphore w1 = Inr w'"
        by (auto simp: Server_tryWebSocketUpgrade_def run_bind_Inr_iff)
      have "world_ok w1 \<and> (\<forall>s. sk = Some s \<longrightarrow> sock_ok w1 s)"
        by (rule ok_upgrade_socket [OF world_ok_semaphore [OF assms(1)] u])
      then show ?thesis using ok_release [OF _ r] by auto
    qed
  qed
qed

lemma ok_connect:
  assumes "world_ok w" and "handleLongPollingConnect rnd now w = (resp, w')"
  shows "world_ok w'"
proof -
  obtain i w1 where f: "fresh_id rnd w = (i, w1)" by fastforce
  let ?s = "newSocketFromServerTransport i
    (TLP (NewLongPollingServerTransport i DefaultLongPollingServerConfig now)) :: simpl"
  obtain sk w2 where a: "alloc_sock ?s w1 = (sk, w2)" by fastforce
  note w2 = ok_alloc [OF ok_fresh_id [OF assms(1) f] a]
  let ?ss = "\<lparr>ses_ID = i, ses_sock = sk_addr sk\<rparr>"
  let ?w3 = "upd_server (\<lambda>s. s\<lparr>srv_sessions := gm_put i ?ss (srv_sessions s)\<rparr>) w2"
  have "session_ok w2 i ?ss"
    using w2 by (simp add: session_ok_def newSocketFromServerTransport_def)
  then have "world_ok ?w3"
    using w2(1) by (intro ok_upd_server) (auto simp: world_ok_def server_ok_def split: if_splits)
  then have "world_ok (spawn [TRegister sk] ?w3)" using w2(2) by (intro ok_spawn) auto
  then show ?thesis using assms(2) by (simp add: handleLongPollingConnect_def f a Let_def)
qed

lemma ok_on_session: "world_ok w \<Longrightarrow> on_session_transport a f w = (resp, w') \<Longrightarrow> world_ok w'"
  by (auto simp: on_session_transport_def intro!: ok_upd_sock split: transport.splits prod.splits)

lemma ok_http_disconnect:
  assumes "world_ok w" and "handleLongPollingDisconnect E i w = (resp, w')"
  shows "world_ok w'"
proof (cases "gm_get (srv_sessions (w_server w)) i")
  case None
  then show ?thesis using assms by (simp add: handleLongPollingDisconnect_def)
next
  case (Some ss)
  then have "session_ok w i ss" using assms(1) by (auto simp: world_ok_def server_ok_def)
  then have "ses_sock ss < w_next (drop_session i ss w)" by (simp add: session_ok_def drop_session_def)
  then have "world_ok (sock_Close E (ses_sock ss) (drop_session i ss w))"
    by (rule ok_sock_Close [OF ok_drop_session [OF assms(1)]])
  then show ?thesis using assms(2) Some by (simp add: handleLongPollingDisconnect_def)
qed

lemma ok_longPolling:
  "world_ok w \<Longrightarrow> Server_handleLongPolling E rq rnd now w = (resp, w') \<Longrightarrow> world_ok w'"
  by (auto simp: Server_handleLongPolling_def Let_def handleLongPollingPoll_def handleLongPollingSend_def
      intro: ok_connect ok_on_session ok_http_disconnect split: if_splits option.splits)

lemma ok_HandleHTTP:
  assumes "world_ok w" and "Server_HandleHTTP E rq upg rnd now w = Inr (resp, w')"
  shows "world_ok w'"
proof -
  from assms(2) obtain r sk w1 where u: "Server_tryWebSocketUpgrade rq upg rnd now w = Inr (r, sk, w1)"
    and rest: "(case sk of Some s \<Rightarrow> Inr (r, Server_handleSocket s w1)
        | None \<Rightarrow> (case Server_handleLongPolling E rq rnd now w1 of
            (resp', w'') \<Rightarrow> Inr (r @ resp', w''))) = (Inr (resp, w') :: (response \<times> World) run)"
    by (auto simp: Server_HandleHTTP_def run_bind_Inr_iff)
  from ok_tryUpgrade [OF assms(1) u] rest show ?thesis
    by (auto intro: ok_handleSocket ok_longPolling split: option.splits prod.splits)
qed

subsection \<open>Cleanup, shutdown\<close>

lemma ok_cleanup_one:
  assumes "world_ok w" and "ses_sock (snd e) < w_next w"
  shows "world_ok (cleanup_one E now e w)"
  unfolding cleanup_one_def using assms ok_drop_session [OF assms(1)]
  by (auto intro!: ok_sock_Close simp: drop_session_def)

lemma cleanup_one_next [simp]: "w_next (cleanup_one E now e w) = w_next w"
  by (simp add: cleanup_one_def drop_session_def)

lemma ok_cleanup_fold:
  "world_ok w \<Longrightarrow> (\<And>e. e \<in> set es \<Longrightarrow> ses_sock (snd e) < w_next w) \<Longrightarrow>
     world_ok (fold (cleanup_one E now) es w)"
  by (induction es arbitrary: w) (simp_all add: ok_cleanup_one)

lemma ok_cleanup: "world_ok w \<Longrightarrow> world_ok (Server_cleanupSessions E now w)"
proof -
  assume w: "world_ok w"
  then have "gm_ok (srv_sessions (w_server w))" by (simp add: world_ok_def server_ok_def)
  with w show ?thesis
    unfolding Server_cleanupSessions_def
    by (intro ok_cleanup_fold)
      (auto simp: gm_entries_iff session_ok_def dest!: server_okD(2) [OF world_okD [OF w]])
qed

lemma ok_close_fold:
  "world_ok w \<Longrightarrow> (\<And>sk. sk \<in> set sks \<Longrightarrow> sk_addr sk < w_next w) \<Longrightarrow>
     world_ok (fold (\<lambda>sk. sock_Close E (sk_addr sk)) sks w)"
  by (induction sks arbitrary: w) (simp_all add: ok_sock_Close)

lemma registered_ok:
  "world_ok w \<Longrightarrow> sk \<in> set (gm_vals (srv_sockets (w_server w))) \<Longrightarrow> sock_ok w sk"
  by (auto simp: world_ok_def server_ok_def gm_vals_iff)

lemma ok_shutdown: "world_ok w \<Longrightarrow> world_ok (Server_Shutdown E w)"
  unfolding Server_Shutdown_def
  by (rule ok_close_fold) (auto simp: sock_ok_def dest: registered_ok)

section \<open>The invariant in every reachable state\<close>

lemma ok_take_task: "world_ok w \<Longrightarrow> world_ok (take_task k w)"
  by (erule ok_store_ext) (auto simp: take_task_def store_ext_def dest: in_set_takeD in_set_dropD)

lemma ok_wstep: "wstep E w w' \<Longrightarrow> world_ok w \<Longrightarrow> world_ok w'"
proof (induction rule: wstep.induct)
  case (http rq upg rnd now w resp w')
  then show ?case by (blast intro: ok_HandleHTTP)
next
  case (task k w w')
  have "sock_ok (take_task k w) (task_socket (w_tasks w ! k))"
    using world_ok_task [OF task(3)] task(1) by (simp add: take_task_def sock_ok_def)
  with task show ?case by (blast intro: ok_run_task ok_take_task)
next
  case (receive_ws a w t r r' t')
  then have "world_ok (upd_sock a (\<lambda>s. s\<lparr>si_transport := TWS t'\<rparr>) w)" by (intro ok_upd_sock) auto
  then show ?case using receive_ws(1) by (intro ok_sock_receive) auto
next
  case (receive_lp a w t r' t')
  then have "world_ok (upd_sock a (\<lambda>s. s\<lparr>si_transport := TLP t'\<rparr>) w)" by (intro ok_upd_sock) auto
  then show ?case using receive_lp(1) by (intro ok_sock_receive) auto
next
  case (handle_func w e h)
  then show ?case unfolding Server_HandleFunc_def
    by (intro ok_upd_server) (auto simp: world_ok_def server_ok_def add_handler_def)
next
  case (broadcast w e d)
  then show ?case unfolding Server_Broadcast_def Let_def
    using registered_ok [OF broadcast] by (auto intro!: ok_spawn)
next
  case (api_join w i room)
  then show ?case using rm_refs_Join
    by (fastforce simp: Server_Join_def intro!: ok_rooms dest: server_okD(1) [OF world_okD] split: option.split)
next
  case (api_leave w i room)
  then show ?case unfolding Server_Leave_def using rm_refs_Leave by (intro ok_rooms) auto
next
  case (api_leave_all w i)
  then show ?case unfolding Server_LeaveAll_def using rm_refs_LeaveAll by (intro ok_rooms) auto
next
  case (api_in room w ss w')
  obtain a rm where g: "RoomManager_GetRoom room (srv_roomManager (w_server w)) = (a, rm)" by fastforce
  then have "rm_ok rm" "rm_refs rm \<subseteq> rm_refs (srv_roomManager (w_server w))"
    using api_in(2) by (auto simp: world_ok_def server_ok_def intro: rm_ok_GetRoom dest: rm_refs_GetRoom)
  then show ?case using api_in unfolding Server_In_def g upd_rooms_def
    by (auto intro!: ok_upd_server) (auto simp: world_ok_def server_ok_def)
next
  case (socket_off a w e)
  then show ?case by (intro ok_upd_sock) (auto simp: SI_Off_def)
qed (auto intro: ok_cleanup ok_upd_sock ok_sock_Send ok_sock_Close ok_shutdown)

interpretation worlds: safe_system "wstep E" world_ok for E
  by unfold_locales (rule ok_wstep)

lemmas ok_wreach = worlds.reach_inv

lemma apply_options_maps:
  "apply_options opts s = Inr s' \<Longrightarrow> srv_sockets s' = srv_sockets s \<and> srv_sessions s' = srv_sessions s \<and>
     srv_roomManager s' = srv_roomManager s \<and> srv_handlers s' = srv_handlers s"
proof (induction opts arbitrary: s)
  case (Cons opt opts)
  then obtain s1 where "apply_option opt s = Inr s1" "apply_options opts s1 = Inr s'"
    by (auto simp: run_bind_Inr_iff)
  with Cons.IH [of s1] show ?case by (cases opt) (auto simp: run_bind_Inr_iff)
qed simp

lemma NewServer_maps:
  "NewServer opts = Inr s \<Longrightarrow> srv_sockets s = [] \<and> srv_sessions s = [] \<and>
     srv_roomManager s = NewRoomManager \<and> srv_handlers s = []"
  by (auto simp: NewServer_def run_bind_Inr_iff default_server_def dest: apply_options_maps split: if_splits)

lemma ok_new_world: "NewServer opts = Inr s \<Longrightarrow> world_ok (new_world s)"
  using NewServer_maps [of opts s] by (simp add: world_ok_def server_ok_def new_world_def)

end
