(* ===== verification/ServerProps.thy ===== *)
theory ServerProps
  imports ServerSteps
begin

text \<open>
  The properties of the server: the invariant in every reachable state, the way of a message from
  the transport to the application's handlers, what disconnects and cleanup remove, what the
  concurrency limit limits, and the requests that make the process panic or leave closed sockets
  registered.
\<close>

section \<open>The invariant\<close>

text \<open>C2. In every state a new server can reach, through requests, goroutines, receive loops,
  cleanup ticks and calls of the application in any order: the maps have no duplicate keys, a
  registered socket and a session are found under their own identifier and point to an allocated
  socket with that identifier, a session's socket has a long-polling transport, the rooms keep
  their invariant and hold only allocated sockets with their identifiers, and every pending goroutine refers to an allocated socket.\<close>

theorem server_invariant:
  "NewServer opts = Inr s \<Longrightarrow> wreach E (new_world s) w \<Longrightarrow> world_ok w"
  by (rule ok_wreach [OF _ ok_new_world])

definition demo_env :: env where
  "demo_env = \<lparr>env_codec = \<lparr>marshal = (\<lambda>m. Inr [1]),
     unmarshal = (\<lambda>b. if b = [0] then Inr \<lparr>msg_Event = EventDisconnect, msg_Data = GNil\<rparr>
       else Inr \<lparr>msg_Event = ''chat'', msg_Data = GString ''hi''\<rparr>)\<rparr>, env_connClose = None\<rparr>"

definition demo_request :: "string \<Rightarrow> string \<Rightarrow> string \<Rightarrow> request" where
  "demo_request upgr path sid =
     \<lparr>rq_upgrade = upgr, rq_path = path, rq_sessionId = sid, rq_body = Inr [0]\<rparr>"

definition demo_server :: Server where
  "demo_server = default_server\<lparr>srv_semaphore := Some (make_chan 100)\<rparr>"

lemma NewServer_default: "NewServer [] = Inr demo_server"
  by (simp add: NewServer_def demo_server_def default_server_def make_chan_int_def)

lemma ok_demo: "world_ok (new_world demo_server)"
  by (rule ok_new_world [OF NewServer_default])

theorem server_invariant_witness:
  "\<exists>w. wreach demo_env (new_world demo_server) w \<and> w_tasks w \<noteq> [] \<and> world_ok w"
proof -
  obtain resp w where l: "Server_handleLongPolling demo_env (demo_request [] ''/connect'' [])
      None 0 (new_world demo_server) = (resp, w)" by fastforce
  then have h: "Server_HandleHTTP demo_env (demo_request [] ''/connect'' [])
      (\<lambda>_. Upgraded) None 0 (new_world demo_server) = Inr (resp, w)"
    by (simp add: Server_HandleHTTP_def Server_tryWebSocketUpgrade_def demo_request_def)
  have r: "wreach demo_env (new_world demo_server) w"
    by (rule reaches_one [where step = "wstep demo_env", OF wstep.http [OF h]])
  moreover have "w_tasks w \<noteq> []"
    using l by (auto simp: demo_request_def
        Server_handleLongPolling_def handleLongPollingConnect_def split: prod.splits)
  ultimately show ?thesis using server_invariant [OF NewServer_default r] by blast
qed

section \<open>From a message to the handlers\<close>

lemma handlers_fold_On:
  "handlers_of (si_handlers (fold (\<lambda>e. SI_On e (HForward e)) es s)) e =
     handlers_of (si_handlers s) e @ replicate (count_list es e) (HForward e)"
  by (induction es arbitrary: s) (auto simp: replicate_append_same)

lemma count_list_distinct: "distinct xs \<Longrightarrow> count_list xs x = (if x \<in> set xs then 1 else 0)"
  by (induction xs) auto

lemma count_forwarded:
  "gm_ok (srv_handlers s) \<Longrightarrow> count_list (forwarded_events s) e =
     (if e \<noteq> EventConnect \<and> e \<noteq> EventDisconnect \<and> gm_has (srv_handlers s) e then 1 else 0)"
  by (subst count_list_distinct)
    (auto simp: forwarded_events_def gm_ok_def gm_keys_def gm_has_keys [unfolded gm_keys_def])

text \<open>The handlers of a socket that \<open>handleSocket\<close> has set up.\<close>

lemma handleSocket_handlers:
  assumes "gm_ok (srv_handlers (w_server w))"
  shows "handlers_of (si_handlers (w_socks (Server_handleSocket sk w) (sk_addr sk))) e =
    handlers_of (si_handlers (w_socks w (sk_addr sk))) e @
    (if e = EventDisconnect then [HDisconnect]
     else if e \<noteq> EventConnect \<and> gm_has (srv_handlers (w_server w)) e then [HForward e] else [])"
proof -
  let ?s = "w_server w\<lparr>srv_sockets := gm_put (sk_ID sk) sk (srv_sockets (w_server w))\<rparr>"
  have "gm_ok (srv_handlers ?s)" using assms by simp
  from count_forwarded [OF this, of e] show ?thesis
    by (auto simp: Server_handleSocket_def Let_def Server_triggerEvent_def handlers_fold_On)
qed

lemma handleSocket_simps [simp]:
  "w_signals (Server_handleSocket sk w) = w_signals w" "w_next (Server_handleSocket sk w) = w_next w"
  "srv_handlers (w_server (Server_handleSocket sk w)) = srv_handlers (w_server w)"
  "srv_sockets (w_server (Server_handleSocket sk w)) = gm_put (sk_ID sk) sk (srv_sockets (w_server w))"
  "srv_sessions (w_server (Server_handleSocket sk w)) = srv_sessions (w_server w)"
  "srv_semaphore (w_server (Server_handleSocket sk w)) = srv_semaphore (w_server w)"
  "srv_bufferSize (w_server (Server_handleSocket sk w)) = srv_bufferSize (w_server w)"
  "si_id (w_socks (Server_handleSocket sk w) a) = si_id (w_socks w a)"
  "si_connected (w_socks (Server_handleSocket sk w) a) = si_connected (w_socks w a)"
  "si_transport (w_socks (Server_handleSocket sk w) a) = si_transport (w_socks w a)"
  by (simp_all add: Server_handleSocket_def Let_def Server_triggerEvent_def fold_On_frame)

lemma HandleFunc_simps [simp]:
  "w_socks (Server_HandleFunc e h w) = w_socks w" "w_tasks (Server_HandleFunc e h w) = w_tasks w"
  by (simp_all add: Server_HandleFunc_def)

lemma fold_HandleFunc:
  "w_socks (fold (\<lambda>(e, h). Server_HandleFunc e h) later w) = w_socks w \<and>
   w_tasks (fold (\<lambda>(e, h). Server_HandleFunc e h) later w) = w_tasks w"
  by (induction later arbitrary: w) auto

lemma sock_receive_message:
  assumes "unmarshal (env_codec E) data = Inr m"
  shows "w_tasks (sock_receive E a (Inr data) w) =
      w_tasks w @ map (\<lambda>h. TSocket (ref w a) h (msg_Data m)) (handlers_of (si_handlers (w_socks w a)) (msg_Event m))"
    and "w_socks (sock_receive E a (Inr data) w) = w_socks w"
    and "w_signals (sock_receive E a (Inr data) w) = w_signals w"
    and "w_server (sock_receive E a (Inr data) w) = w_server w"
    and "w_next (sock_receive E a (Inr data) w) = w_next w"
  using assms by (simp_all add: sock_receive_def SI_receive_step_def SI_triggerEvent_def)

text \<open>C4. What an application's message starts.  Let a new socket be registered, and let more
  handlers be registered on the server after that.  When a message arrives on the socket, exactly
  one forwarding goroutine is started for it if its event had a handler at the time of the
  registration, and none otherwise, whatever was registered since.  The forwarding goroutine
  starts every handler the server has for the event when it runs, once, with the socket and the
  data of the message.\<close>

theorem message_reaches_handlers:
  assumes "world_ok w" and "a < w_next w" and "si_handlers (w_socks w a) = []"
    and "unmarshal (env_codec E) data = Inr m" and "msg_Event m = e"
    and "e \<noteq> EventConnect" and "e \<noteq> EventDisconnect"
    and "w' = fold (\<lambda>(e, h). Server_HandleFunc e h) later (Server_handleSocket (ref w a) w)"
  shows "w_tasks (sock_receive E a (Inr data) w') = w_tasks w' @
      (if gm_has (srv_handlers (w_server w)) e then [TSocket (ref w a) (HForward e) (msg_Data m)] else [])
    \<and> (\<forall>v. \<exists>v'. run_task E (TSocket (ref w a) (HForward e) (msg_Data m)) v = Inr v' \<and>
        w_tasks v' = w_tasks v @
          map (\<lambda>h. TServer h (ref w a) (msg_Data m)) (handlers_of (srv_handlers (w_server v)) e))"
proof -
  have "gm_ok (srv_handlers (w_server w))" using assms(1) by (simp add: world_ok_def server_ok_def)
  from handleSocket_handlers [OF this, of "ref w a" e]
  have h: "handlers_of (si_handlers (w_socks w' a)) e =
      (if gm_has (srv_handlers (w_server w)) e then [HForward e] else [])"
    using assms(3,6,7) by (simp add: assms(8) fold_HandleFunc ref_def)
  have r: "ref w' a = ref w a" by (simp add: ref_def assms(8) fold_HandleFunc)
  show ?thesis using sock_receive_message(1) [OF assms(4), of a w'] h r assms(5)
    by (simp add: Server_triggerEvent_def)
qed

definition demo_connected :: World where
  "demo_connected = Server_HandleFunc ''chat'' 5
     (snd (alloc_sock (newSocketFromServerTransport ''s'' (TLP (NewLongPollingServerTransport ''s''
       DefaultLongPollingServerConfig 0))) (new_world demo_server)))"

lemma demo_connected_simps:
  "w_next demo_connected = 1" "w_tasks demo_connected = []" "w_signals demo_connected = []"
  "w_socks demo_connected 0 = newSocketFromServerTransport ''s''
     (TLP (NewLongPollingServerTransport ''s'' DefaultLongPollingServerConfig 0))"
  "srv_handlers (w_server demo_connected) = [(''chat'', [5])]"
  "srv_sockets (w_server demo_connected) = []"
  by (simp_all add: demo_connected_def alloc_sock_def new_world_def Server_HandleFunc_def
      upd_server_def demo_server_def default_server_def add_handler_def gm_put_def)

lemma ok_demo_connected: "world_ok demo_connected"
proof -
  let ?s = "newSocketFromServerTransport ''s''
     (TLP (NewLongPollingServerTransport ''s'' DefaultLongPollingServerConfig 0)) :: simpl"
  obtain sk w where a: "alloc_sock ?s (new_world demo_server) = (sk, w)" by fastforce
  show ?thesis unfolding demo_connected_def a
    using ok_wstep [OF wstep.handle_func ok_alloc(1) [OF ok_demo a]] by simp
qed

theorem message_reaches_handlers_witness:
  "w_tasks (sock_receive demo_env 0 (Inr [1])
     (Server_HandleFunc ''late'' 6 (Server_handleSocket (ref demo_connected 0) demo_connected))) =
   [TSocket (ref demo_connected 0) (HForward ''chat'') (GString ''hi'')]"
proof -
  let ?w = "Server_HandleFunc ''late'' 6 (Server_handleSocket (ref demo_connected 0) demo_connected)"
  have "w_tasks ?w = []"
    by (simp add: Server_handleSocket_def Let_def Server_triggerEvent_def demo_connected_simps
        handlers_of_def EventConnect_def)
  moreover have "?w = fold (\<lambda>(e, h). Server_HandleFunc e h) [(''late'', 6)]
      (Server_handleSocket (ref demo_connected 0) demo_connected)" by simp
  from message_reaches_handlers [OF ok_demo_connected _ _ _ _ _ _ this, of demo_env "[1]"]
  have "w_tasks (sock_receive demo_env 0 (Inr [1]) ?w) =
      w_tasks ?w @ [TSocket (ref demo_connected 0) (HForward ''chat'') (GString ''hi'')]"
    by (simp add: demo_connected_simps demo_env_def EventConnect_def EventDisconnect_def
        newSocketFromServerTransport_def gm_has_def)
  ultimately show ?thesis by simp
qed

section \<open>Disconnects\<close>

text \<open>C25. When the disconnect closure of a socket has run, the socket is not registered any more
  and is in no room, the other sockets are registered as before and in the rooms they were in,
  and every disconnect handler of the server has been started once with the socket.\<close>

theorem disconnect_removes_socket:
  assumes "world_ok w" and "sock_ok w sk"
  shows "\<exists>w'. run_task E (TSocket sk HDisconnect d) w = Inr w' \<and> world_ok w' \<and>
    Server_GetSocket (sk_ID sk) w' = None \<and> Server_RoomsOf (sk_ID sk) w' = [] \<and>
    (\<forall>j. j \<noteq> sk_ID sk \<longrightarrow> Server_GetSocket j w' = Server_GetSocket j w \<and>
       set (Server_RoomsOf j w') = set (Server_RoomsOf j w)) \<and>
    w_tasks w' = w_tasks w @
      map (\<lambda>h. TServer h sk d) (handlers_of (srv_handlers (w_server w)) EventDisconnect)"
proof -
  let ?rm = "srv_roomManager (w_server w)" and ?w' = "run_disconnect sk d w"
  have rm: "rm_ok ?rm" using assms(1) by (simp add: world_ok_def server_ok_def)
  have rooms: "srv_roomManager (w_server ?w') = RoomManager_LeaveAllRooms (sk_ID sk) ?rm"
    and handlers: "w_tasks ?w' = w_tasks w @
      map (\<lambda>h. TServer h sk d) (handlers_of (srv_handlers (w_server w)) EventDisconnect)"
    and sockets: "srv_sockets (w_server ?w') = gm_delete (sk_ID sk) (srv_sockets (w_server w))"
    by (simp_all add: run_disconnect_def Let_def Server_LeaveAll_def upd_rooms_def Server_triggerEvent_def)
  have m: "n \<in> set (Server_RoomsOf j ?w') \<longleftrightarrow> j \<noteq> sk_ID sk \<and> n \<in> set (Server_RoomsOf j w)" for n j
    using rooms.wf_leave_all [OF rm] rooms.mem_leave_all [OF rm] rm
    by (simp add: Server_RoomsOf_def rooms GetSocketRooms_set)
  have "set (Server_RoomsOf (sk_ID sk) ?w') = {}" by (simp only: set_eq_iff m) simp
  moreover have "j \<noteq> sk_ID sk \<Longrightarrow> set (Server_RoomsOf j ?w') = set (Server_RoomsOf j w)" for j
    by (simp only: set_eq_iff m) simp
  ultimately show ?thesis
    using handlers sockets ok_disconnect [OF assms] by (simp add: Server_GetSocket_def)
qed

theorem disconnect_removes_socket_witness:
  "\<exists>w'. run_task demo_env (TSocket (ref demo_connected 0) HDisconnect GNil)
     (Server_Join ''s'' ''lobby'' (Server_handleSocket (ref demo_connected 0) demo_connected)) = Inr w' \<and>
     Server_GetSocket ''s'' w' = None"
proof -
  have s: "sock_ok demo_connected (ref demo_connected 0)"
    by (rule sock_ok_ref) (simp add: demo_connected_simps)
  let ?w = "Server_handleSocket (ref demo_connected 0) demo_connected"
  have w: "world_ok ?w" by (rule ok_handleSocket [OF ok_demo_connected s])
  have k: "world_ok (Server_Join ''s'' ''lobby'' ?w)" by (rule ok_wstep [OF wstep.api_join w])
  have "sock_ok (Server_Join ''s'' ''lobby'' ?w) (ref demo_connected 0)"
    using s by (simp add: sock_ok_def Server_Join_def upd_rooms_def split: option.split)
  from disconnect_removes_socket [OF k this, of demo_env GNil]
  obtain w' where r: "run_task demo_env (TSocket (ref demo_connected 0) HDisconnect GNil)
      (Server_Join ''s'' ''lobby'' ?w) = Inr w'"
    and g: "Server_GetSocket (sk_ID (ref demo_connected 0)) w' = None" by blast
  have "sk_ID (ref demo_connected 0) = ''s''"
    by (simp add: ref_def demo_connected_simps newSocketFromServerTransport_def)
  with g have "Server_GetSocket ''s'' w' = None" by (simp only:)
  with r show ?thesis by blast
qed

section \<open>The limit on connections\<close>

text \<open>A sequence of upgrade requests, each with the random bytes and the time it gets.\<close>

fun ws_connects :: "env \<Rightarrow> request \<Rightarrow> (bytes option \<times> int) list \<Rightarrow> World \<Rightarrow> World run" where
  "ws_connects E rq [] w = Inr w"
| "ws_connects E rq ((rnd, now) # cs) w =
     run_bind (Server_HandleHTTP E rq (\<lambda>_. Upgraded) rnd now w) (\<lambda>(resp, w'). ws_connects E rq cs w')"

lemma ws_connect_one:
  assumes "rq_upgrade rq = ''websocket''" and "srv_semaphore (w_server w) = Some c"
    and "ch_buf c = []" and "0 < ch_cap c" and "0 \<le> srv_bufferSize (w_server w)"
  shows "\<exists>w'. Server_HandleHTTP E rq (\<lambda>_. Upgraded) rnd now w = Inr ([], w') \<and>
    w_next w' = Suc (w_next w) \<and> srv_semaphore (w_server w') = Some c \<and>
    srv_bufferSize (w_server w') = srv_bufferSize (w_server w) \<and>
    si_connected (w_socks w' (w_next w)) \<and>
    (\<forall>a<w_next w. si_connected (w_socks w' a) = si_connected (w_socks w a))"
proof -
  obtain i n where g: "generateID rnd (w_idCounter w) = (i, n)" by fastforce
  have s: "ch_try_send () c = Some (c\<lparr>ch_buf := [()]\<rparr>)" using assms(3,4) by (simp add: ch_try_send_def)
  have b: "c\<lparr>ch_buf := []\<rparr> = c" using assms(3) by simp
  show ?thesis using assms(1,2,5)
    by (simp add: Server_HandleHTTP_def Server_tryWebSocketUpgrade_def s upgrade_socket_def
        set_semaphore_def fresh_id_def alloc_sock_def g Let_def upd_server_def release_semaphore_def
        ch_try_recv_def b newSocketFromServerTransport_def)
qed

text \<open>\<open>WithMaxConcurrency\<close> does not limit the connections of a server.  The slot of an
  upgrade is given back when \<open>tryWebSocketUpgrade\<close> returns, so however small the capacity, any
  number of clients connect one after the other, all of them are accepted and stay connected,
  and the semaphore is empty again.\<close>

theorem semaphore_does_not_limit_connections:
  assumes "rq_upgrade rq = ''websocket''" and "srv_semaphore (w_server w) = Some c"
    and "ch_buf c = []" and "0 < ch_cap c" and "0 \<le> srv_bufferSize (w_server w)"
  shows "\<exists>w'. ws_connects E rq cs w = Inr w' \<and> w_next w' = w_next w + length cs \<and>
    srv_semaphore (w_server w') = Some c \<and>
    (\<forall>a\<in>{w_next w..<w_next w'}. si_connected (w_socks w' a)) \<and>
    (\<forall>a<w_next w. si_connected (w_socks w' a) = si_connected (w_socks w a))"
  using assms(2,5)
proof (induction cs arbitrary: w)
  case (Cons r cs)
  obtain rnd now where r: "r = (rnd, now)" by (cases r)
  obtain w1 where h: "Server_HandleHTTP E rq (\<lambda>_. Upgraded) rnd now w = Inr ([], w1)"
      and n: "w_next w1 = Suc (w_next w)" and c: "srv_semaphore (w_server w1) = Some c"
      and b: "srv_bufferSize (w_server w1) = srv_bufferSize (w_server w)"
      and k: "si_connected (w_socks w1 (w_next w))"
        "\<And>a. a < w_next w \<Longrightarrow> si_connected (w_socks w1 a) = si_connected (w_socks w a)"
    using ws_connect_one [OF assms(1) Cons.prems(1) assms(3,4) Cons.prems(2)] by metis
  obtain w2 where w2: "ws_connects E rq cs w1 = Inr w2" "w_next w2 = w_next w1 + length cs"
      "srv_semaphore (w_server w2) = Some c"
      "\<And>a. a \<in> {w_next w1..<w_next w2} \<Longrightarrow> si_connected (w_socks w2 a)"
      "\<And>a. a < w_next w1 \<Longrightarrow> si_connected (w_socks w2 a) = si_connected (w_socks w1 a)"
    using Cons.IH [OF c] Cons.prems(2) b by auto
  have "si_connected (w_socks w2 a)" if "a \<in> {w_next w..<w_next w2}" for a
    using that w2(4,5) [of a] k(1) n by (cases "a = w_next w") auto
  moreover have "ws_connects E rq (r # cs) w = Inr w2" using h w2(1) by (simp add: r)
  ultimately show ?case using w2(2,3,5) k(2) n by auto
qed simp

theorem semaphore_does_not_limit_connections_witness:
  "\<exists>s w'. NewServer [WithMaxConcurrency 1] = Inr s \<and>
     ws_connects demo_env (demo_request ''websocket'' ''/socket'' []) [(None, 0), (None, 1), (None, 2)]
       (new_world s) = Inr w' \<and> (\<forall>a\<in>{0..<3}. si_connected (w_socks w' a))"
proof -
  let ?s = "default_server\<lparr>srv_maxConcurrency := 1, srv_semaphore := Some (make_chan 1)\<rparr>"
  have n: "NewServer [WithMaxConcurrency 1] = Inr ?s"
    by (simp add: NewServer_def make_chan_int_def)
  have "rq_upgrade (demo_request ''websocket'' ''/socket'' []) = ''websocket''"
    by (simp add: demo_request_def)
  from semaphore_does_not_limit_connections [OF this, of "new_world ?s" "make_chan 1" demo_env
      "[(None, 0), (None, 1), (None, 2)]"] n
  show ?thesis by (auto simp: new_world_def default_server_def)
qed

text \<open>A request that is refused for lack of a slot is answered 503 and then handled as a
  long-polling request all the same: on the path of an upgrade a second error (404) is written to
  the answered response, and on a connect path a session is created for the refused client.\<close>

theorem refused_upgrade_falls_through:
  assumes "rq_upgrade rq = ''websocket''" and "srv_semaphore (w_server w) = Some c"
    and "ch_cap c \<le> length (ch_buf c)"
  shows "\<exists>resp w'. Server_HandleHTTP E rq upg rnd now w =
      Inr (HttpError ''Too many connections'' StatusServiceUnavailable # resp, w') \<and>
    (rq_path rq = ''/socket'' \<longrightarrow> resp = [HttpError ''Unknown endpoint'' StatusNotFound] \<and> w' = w) \<and>
    (rq_path rq = ''/socket/connect'' \<longrightarrow>
      (\<exists>i ss. gm_get (srv_sessions (w_server w')) i = Some ss \<and> ses_sock ss = w_next w \<and>
        si_connected (w_socks w' (w_next w))))"
proof -
  have "ch_try_send () c = None" using assms(3) by (simp add: ch_send_None)
  then have u: "Server_tryWebSocketUpgrade rq upg rnd now w =
      Inr ([HttpError ''Too many connections'' StatusServiceUnavailable], None, w)"
    using assms(1,2) by (simp add: Server_tryWebSocketUpgrade_def)
  obtain resp w' where l: "Server_handleLongPolling E rq rnd now w = (resp, w')" by fastforce
  have "rq_path rq = ''/socket'' \<Longrightarrow> resp = [HttpError ''Unknown endpoint'' StatusNotFound] \<and> w' = w"
    using l by (simp add: Server_handleLongPolling_def)
  moreover have "\<exists>i ss. gm_get (srv_sessions (w_server w')) i = Some ss \<and> ses_sock ss = w_next w \<and>
        si_connected (w_socks w' (w_next w))" if "rq_path rq = ''/socket/connect''"
    using l that by (auto simp: Server_handleLongPolling_def handleLongPollingConnect_def fresh_id_def
        alloc_sock_def Let_def newSocketFromServerTransport_def split: prod.splits
        intro!: exI [of _ "fst (generateID rnd (w_idCounter w))"])
  ultimately show ?thesis using u l by (simp add: Server_HandleHTTP_def)
qed

theorem refused_upgrade_falls_through_witness:
  "\<exists>s resp w'. NewServer [WithMaxConcurrency 0] = Inr s \<and>
     Server_HandleHTTP demo_env (demo_request ''websocket'' ''/socket'' []) (\<lambda>_. Upgraded) None 0 (new_world s) =
       Inr ([HttpError ''Too many connections'' StatusServiceUnavailable,
             HttpError ''Unknown endpoint'' StatusNotFound], w')"
proof -
  let ?s = "default_server\<lparr>srv_maxConcurrency := 0, srv_semaphore := Some (make_chan 0)\<rparr>"
  have n: "NewServer [WithMaxConcurrency 0] = Inr ?s"
    by (simp add: NewServer_def make_chan_int_def)
  have "rq_upgrade (demo_request ''websocket'' ''/socket'' []) = ''websocket''"
    by (simp add: demo_request_def)
  from refused_upgrade_falls_through [OF this, of "new_world ?s" "make_chan 0" demo_env "\<lambda>_. Upgraded" None 0] n
  show ?thesis by (auto simp: new_world_def demo_request_def)
qed

section \<open>Panics and stale registrations\<close>

definition signal_closed :: "nat \<Rightarrow> World \<Rightarrow> bool" where
  "signal_closed c w \<longleftrightarrow> c < length (w_signals w) \<and> w_signals w ! c"

lemma signals_simps [simp]:
  "w_signals (sock_receive E a r w) = w_signals w"
  "w_signals (take_task k w) = w_signals w"
  "w_signals (Server_triggerEvent sk e d w) = w_signals w"
  "w_signals (upd_rooms f w) = w_signals w"
  "w_signals (drop_session i ss w) = w_signals w"
  "w_signals (set_semaphore sem w) = w_signals w"
  "w_signals (Server_HandleFunc e h w) = w_signals w"
  "w_signals (snd (sock_Send E a e d w)) = w_signals w"
  by (simp_all add: sock_receive_def take_task_def Server_triggerEvent_def upd_rooms_def drop_session_def
      set_semaphore_def Server_HandleFunc_def sock_Send_def split: prod.splits)

lemma signals_sock_Send: "sock_Send E a e d w = (err, w') \<Longrightarrow> w_signals w' = w_signals w"
  using signals_simps(8) [of E a e d w] by simp

lemma signals_more [simp]:
  "w_signals (run_disconnect sk d w) = w_signals w"
  "w_signals (Server_LeaveAll i w) = w_signals w" "w_signals (Server_Leave i n w) = w_signals w"
  "w_signals (Server_Join i n w) = w_signals w"
  "w_signals (cleanup_one E now e w) = w_signals w"
  "w_signals (Server_Broadcast e' d w) = w_signals w"
  by (simp_all add: run_disconnect_def Let_def Server_LeaveAll_def Server_Leave_def Server_Join_def
      cleanup_one_def Server_Broadcast_def split: option.split)

lemma signals_cleanup [simp]: "w_signals (fold (cleanup_one E now) es w) = w_signals w"
  by (induction es arbitrary: w) simp_all

lemma signals_closes [simp]: "w_signals (fold (\<lambda>sk. sock_Close E (sk_addr sk)) sks w) = w_signals w"
  by (induction sks arbitrary: w) simp_all

lemma signals_In: "Server_In n w = (ss, w') \<Longrightarrow> w_signals w' = w_signals w"
  by (auto simp: Server_In_def split: prod.splits)

lemma signals_upgrade:
  "upgrade_socket upg rnd now w = Inr (resp, sk, w') \<Longrightarrow> w_signals w' = w_signals w"
  by (auto simp: upgrade_socket_def fresh_id_def alloc_sock_def Let_def split: upgrade.splits prod.splits if_splits)

lemma signals_release: "release_semaphore w = Inr w' \<Longrightarrow> w_signals w' = w_signals w"
  by (auto simp: release_semaphore_def split: option.splits prod.splits)

lemma signals_longPolling:
  "Server_handleLongPolling E rq rnd now w = (resp, w') \<Longrightarrow> w_signals w' = w_signals w"
  by (auto simp: Server_handleLongPolling_def handleLongPollingConnect_def handleLongPollingPoll_def
      handleLongPollingSend_def handleLongPollingDisconnect_def on_session_transport_def fresh_id_def
      alloc_sock_def Let_def split: if_splits option.splits prod.splits transport.splits)

lemma signals_HTTP:
  assumes "Server_HandleHTTP E rq upg rnd now w = Inr (resp, w')"
  shows "w_signals w' = w_signals w"
proof -
  from assms obtain r sk w1 where u: "Server_tryWebSocketUpgrade rq upg rnd now w = Inr (r, sk, w1)"
    and rest: "(case sk of Some s \<Rightarrow> Inr (r, Server_handleSocket s w1)
        | None \<Rightarrow> (case Server_handleLongPolling E rq rnd now w1 of
            (resp', w'') \<Rightarrow> Inr (r @ resp', w''))) = (Inr (resp, w') :: (response \<times> World) run)"
    by (auto simp: Server_HandleHTTP_def run_bind_Inr_iff)
  have "w_signals w1 = w_signals w"
    using u by (auto simp: Server_tryWebSocketUpgrade_def run_bind_Inr_iff
        dest!: signals_release signals_upgrade split: if_splits option.splits)
  then show ?thesis using rest by (auto dest: signals_longPolling split: option.splits prod.splits)
qed

text \<open>A closed \<open>disconnectChan\<close> stays closed.\<close>

lemma update_True: "xs ! c \<Longrightarrow> c < length xs \<Longrightarrow> xs[i := True] ! c"
  by (cases "i = c") auto

lemma signal_stays_closed_task: "run_task E t w = Inr w' \<Longrightarrow> signal_closed c w \<Longrightarrow> signal_closed c w'"
proof -
  assume r: "run_task E t w = Inr w'" and c: "signal_closed c w"
  show "signal_closed c w'"
  proof (cases t)
    case (TSocket sk h d)
    then show ?thesis using r c
      by (cases h) (auto simp: signal_closed_def close_signal_def update_True split: if_splits)
  qed (use r c in \<open>auto simp: signal_closed_def register_signal_def nth_append\<close>)
qed

lemma signal_stays_closed_step: "wstep E w w' \<Longrightarrow> signal_closed c w \<Longrightarrow> signal_closed c w'"
proof (induction rule: wstep.induct)
  case (task k w w')
  have "signal_closed c (take_task k w)" using task(3) by (simp add: signal_closed_def)
  then show ?case by (rule signal_stays_closed_task [OF task(2)])
qed (auto simp: signal_closed_def Server_cleanupSessions_def Server_Shutdown_def
    dest!: signals_HTTP signals_sock_Send signals_In)

interpretation signals: safe_system "wstep E" "signal_closed c" for E c
  by unfold_locales (rule signal_stays_closed_step)

lemmas signal_stays_closed = signals.reach_inv

lemma two_positions:
  "x \<in> set xs \<Longrightarrow> \<exists>i j. i < j \<and> j < length (ts @ xs @ xs) \<and> (ts @ xs @ xs) ! i = x \<and> (ts @ xs @ xs) ! j = x"
proof -
  assume "x \<in> set xs"
  then obtain k where k: "k < length xs" "xs ! k = x" by (auto simp: in_set_conv_nth)
  then show ?thesis
    by (intro exI [of _ "length ts + k"] exI [of _ "length ts + length xs + k"]) (auto simp: nth_append)
qed

text \<open>C37. A long-polling client can make the process panic.  The closure that
  \<open>registerSocketAndWaitForDisconnect\<close> puts on its socket closes a channel each time it runs.  If
  the client sends two messages whose event is \<open>disconnect\<close>, two goroutines with that closure
  are started, and whichever runs second, after any further steps of the system, panics with a
  close of a closed channel.\<close>

theorem disconnect_messages_panic:
  assumes "HSignal c \<in> set (handlers_of (si_handlers (w_socks w a)) EventDisconnect)"
    and "unmarshal (env_codec E) data = Inr m" and "msg_Event m = EventDisconnect"
    and "ts = w_tasks (sock_receive E a (Inr data) (sock_receive E a (Inr data) w))"
    and "t = TSocket (ref w a) (HSignal c) (msg_Data m)"
  shows "(\<exists>i j. i < j \<and> j < length ts \<and> ts ! i = t \<and> ts ! j = t) \<and>
    (\<forall>v v' v''. c < length (w_signals v) \<and> run_task E t v = Inr v' \<and> wreach E v' v'' \<longrightarrow>
       run_task E t v'' = Inl (Panic ''close of closed channel''))"
proof -
  let ?t = "TSocket (ref w a) (HSignal c) (msg_Data m)"
  let ?new = "map (\<lambda>h. TSocket (ref w a) h (msg_Data m))
    (handlers_of (si_handlers (w_socks w a)) EventDisconnect)"
  have ts: "ts = w_tasks w @ ?new @ ?new"
    using sock_receive_message [OF assms(2)] by (simp add: assms(3,4) ref_def)
  have "?t \<in> set ?new" using assms(1) by auto
  from two_positions [OF this, of "w_tasks w"] ts
  obtain i j where ij: "i < j" "j < length ts" "ts ! i = ?t" "ts ! j = ?t" by blast
  have "run_task E ?t v'' = Inl (Panic ''close of closed channel'')"
    if "c < length (w_signals v)" "run_task E ?t v = Inr v'" "wreach E v' v''" for v v' v''
  proof -
    have "signal_closed c v'" using that(1,2) by (auto simp: close_signal_def signal_closed_def split: if_splits)
    from signal_stays_closed [OF that(3) this] show ?thesis by (simp add: close_signal_def signal_closed_def)
  qed
  then show ?thesis using ij by (auto simp: assms(5))
qed

definition demo_session :: World where
  "demo_session = register_signal (ref demo_connected 0)
     (Server_handleSocket (ref demo_connected 0) demo_connected)"

lemma demo_session_simps:
  "handlers_of (si_handlers (w_socks demo_session 0)) EventDisconnect = [HDisconnect, HSignal 0]"
  "w_signals demo_session = [False]"
proof -
  have "gm_ok (srv_handlers (w_server demo_connected))" by (simp add: demo_connected_simps gm_ok_def)
  from handleSocket_handlers [OF this, of "ref demo_connected 0" EventDisconnect]
  show "handlers_of (si_handlers (w_socks demo_session 0)) EventDisconnect = [HDisconnect, HSignal 0]"
    by (simp add: demo_session_def register_signal_def Let_def ref_def demo_connected_simps
        newSocketFromServerTransport_def)
qed (simp add: demo_session_def register_signal_def demo_connected_simps)

theorem disconnect_messages_panic_witness:
  "\<exists>t v'. t \<in> set (w_tasks (sock_receive demo_env 0 (Inr [0]) (sock_receive demo_env 0 (Inr [0]) demo_session))) \<and>
     run_task demo_env t demo_session = Inr v' \<and>
     run_task demo_env t v' = Inl (Panic ''close of closed channel'')"
proof -
  let ?ts = "w_tasks (sock_receive demo_env 0 (Inr [0]) (sock_receive demo_env 0 (Inr [0]) demo_session))"
  let ?t = "TSocket (ref demo_session 0) (HSignal 0) GNil"
  obtain v' where v': "run_task demo_env ?t demo_session = Inr v'"
    by (simp add: close_signal_def demo_session_simps)
  have "(\<exists>i j. i < j \<and> j < length ?ts \<and> ?ts ! i = ?t \<and> ?ts ! j = ?t) \<and>
    (\<forall>v v' v''. 0 < length (w_signals v) \<and> run_task demo_env ?t v = Inr v' \<and> wreach demo_env v' v'' \<longrightarrow>
       run_task demo_env ?t v'' = Inl (Panic ''close of closed channel''))"
    by (rule disconnect_messages_panic [where m = "\<lparr>msg_Event = EventDisconnect, msg_Data = GNil\<rparr>"])
      (simp_all add: demo_session_simps demo_env_def)
  then have "\<exists>i<length ?ts. ?ts ! i = ?t" and
    "0 < length (w_signals demo_session) \<and> run_task demo_env ?t demo_session = Inr v' \<and>
       wreach demo_env v' v' \<longrightarrow> run_task demo_env ?t v' = Inl (Panic ''close of closed channel'')"
    by blast+
  then have "?t \<in> set ?ts" "run_task demo_env ?t v' = Inl (Panic ''close of closed channel'')"
    using v' reaches.start [of "wstep demo_env" v'] demo_session_simps(2) by (simp_all add: in_set_conv_nth)
  with v' show ?thesis by blast
qed

lemma spawn_Nil [simp]: "spawn [] w = w"
  by (simp add: spawn_def)

lemma upd_sock_same [simp]: "upd_sock a (\<lambda>_. w_socks w a) w = w"
  by (simp add: upd_sock_def)

text \<open>A session that is disconnected before its registration has run leaves a closed socket
  registered for good.  \<open>handleLongPollingDisconnect\<close> removes the session and closes the socket
  when no disconnect closure is on it yet; then \<open>handleSocket\<close> registers it.  No closure that
  would remove it has been started, closing it again starts none, and every send to it fails.\<close>

theorem early_disconnect_leaves_registration:
  assumes "world_ok w" and "gm_get (srv_sessions (w_server w)) i = Some ss"
    and "si_handlers (w_socks w (ses_sock ss)) = []" and "si_connected (w_socks w (ses_sock ss))"
    and "handleLongPollingDisconnect E i w = (resp, w1)"
    and "run_task E (TRegister (ref w (ses_sock ss))) w1 = Inr w2"
  shows "gm_get (srv_sessions (w_server w2)) i = None \<and>
    Server_GetSocket i w2 = Some (ref w (ses_sock ss)) \<and>
    \<not> si_connected (w_socks w2 (ses_sock ss)) \<and>
    (\<exists>ts. w_tasks w2 = w_tasks w @ ts \<and> (\<forall>sk h d. TSocket sk h d \<notin> set ts)) \<and>
    sock_Close E (ses_sock ss) w2 = w2 \<and>
    sock_Send E (ses_sock ss) e d w2 = (Some ErrConnectionClosed, w2)"
proof -
  let ?a = "ses_sock ss" and ?sk = "ref w (ses_sock ss)"
  have id: "si_id (w_socks w ?a) = i"
    using server_okD(2) [OF world_okD [OF assms(1)] assms(2)] by (simp add: session_ok_def)
  obtain err gs s where c: "SI_Close (tr_Close E) (w_socks w ?a) = (err, gs, s)" by (metis prod_cases3)
  have gs: "gs = []" and s: "\<not> si_connected s"
    using SI_Close_spawned [OF assms(4), of "tr_Close E"] assms(3) SI_Close_frame [OF c] c
    by (simp_all add: SI_triggerEvent_def)
  have w1: "w1 = upd_sock ?a (\<lambda>_. s) (drop_session i ss w)"
    using assms(2,5) c gs
    by (auto simp: handleLongPollingDisconnect_def sock_Close_def drop_session_def spawn_Nil)
  have w2: "w2 = spawn [TSignal ?sk] (Server_handleSocket ?sk w1)" using assms(6) by simp
  have conn: "\<not> si_connected (w_socks w2 ?a)" using s by (simp add: w2 w1)
  have "w_tasks w2 = w_tasks w @ (map (\<lambda>h. TServer h ?sk GNil)
      (handlers_of (srv_handlers (w_server w1)) EventConnect) @ [TSignal ?sk])"
    by (simp add: w2 Server_handleSocket_def Let_def Server_triggerEvent_def)
      (simp add: w1 drop_session_def)
  then have "\<exists>ts. w_tasks w2 = w_tasks w @ ts \<and> (\<forall>sk h d. TSocket sk h d \<notin> set ts)"
    by (intro exI) auto
  moreover have "gm_get (srv_sessions (w_server w2)) i = None"
    by (simp add: w2 w1 drop_session_def)
  moreover have "Server_GetSocket i w2 = Some ?sk"
    by (simp add: w2 Server_GetSocket_def ref_def id)
  moreover have "sock_Close E ?a w2 = w2" and "sock_Send E ?a e d w2 = (Some ErrConnectionClosed, w2)"
    using conn by (simp_all add: sock_Close_def SI_Close_def sock_Send_def SI_Send_def spawn_def)
  ultimately show ?thesis using conn by blast
qed

lemma demo_connect:
  "\<exists>i ss w. gm_get (srv_sessions (w_server w)) i = Some ss \<and>
     wreach demo_env (new_world demo_server) w \<and> si_handlers (w_socks w (ses_sock ss)) = [] \<and>
     si_connected (w_socks w (ses_sock ss)) \<and> w_tasks w = [TRegister (ref w (ses_sock ss))]"
proof -
  let ?rq = "demo_request [] ''/connect'' []"
  obtain resp w where l: "Server_handleLongPolling demo_env ?rq None 0 (new_world demo_server) = (resp, w)"
    by fastforce
  have h: "Server_HandleHTTP demo_env ?rq (\<lambda>_. Upgraded) None 0 (new_world demo_server) = Inr (resp, w)"
    using l by (simp add: Server_HandleHTTP_def Server_tryWebSocketUpgrade_def demo_request_def)
  obtain i n where g: "generateID None 0 = (i, n)" by fastforce
  have "gm_get (srv_sessions (w_server w)) i = Some \<lparr>ses_ID = i, ses_sock = 0\<rparr>"
    "w_socks w 0 = newSocketFromServerTransport i
       (TLP (NewLongPollingServerTransport i DefaultLongPollingServerConfig 0))"
    "w_tasks w = [TRegister (SocketRef 0 i)]"
    using l by (auto simp: demo_request_def Server_handleLongPolling_def handleLongPollingConnect_def
        fresh_id_def g alloc_sock_def new_world_def Let_def newSocketFromServerTransport_def)
  then show ?thesis using reaches_one [where step = "wstep demo_env", OF wstep.http [OF h]]
    by (intro exI [of _ i] exI [of _ "\<lparr>ses_ID = i, ses_sock = 0\<rparr>"] exI [of _ w])
      (simp add: newSocketFromServerTransport_def ref_def)
qed

theorem early_disconnect_leaves_registration_witness:
  "\<exists>w i a resp w1 w2. wreach demo_env (new_world demo_server) w \<and> w_tasks w = [TRegister (ref w a)] \<and>
     handleLongPollingDisconnect demo_env i w = (resp, w1) \<and>
     run_task demo_env (hd (w_tasks w)) w1 = Inr w2 \<and>
     Server_GetSocket i w2 = Some (ref w a) \<and> \<not> si_connected (w_socks w2 a)"
proof -
  obtain i ss w where w: "gm_get (srv_sessions (w_server w)) i = Some ss"
      "wreach demo_env (new_world demo_server) w" "si_handlers (w_socks w (ses_sock ss)) = []"
      "si_connected (w_socks w (ses_sock ss))" "w_tasks w = [TRegister (ref w (ses_sock ss))]"
    using demo_connect by (elim exE conjE) (rule that)
  obtain resp w1 where d: "handleLongPollingDisconnect demo_env i w = (resp, w1)" by fastforce
  obtain w2 where r: "run_task demo_env (TRegister (ref w (ses_sock ss))) w1 = Inr w2" by simp
  have "world_ok w" by (rule ok_wreach [OF w(2) ok_demo])
  note q = early_disconnect_leaves_registration [OF this w(1,3,4) d r, of EventMessage GNil]
  have "run_task demo_env (hd (w_tasks w)) w1 = Inr w2" using r w(5) by (simp only: list.sel)
  with w(2,5) d q show ?thesis by blast
qed

section \<open>Cleanup and shutdown\<close>

lemma drop_session_simps [simp]:
  "w_socks (drop_session i ss w) = w_socks w" "w_next (drop_session i ss w) = w_next w"
  "srv_sessions (w_server (drop_session i ss w)) = gm_delete i (srv_sessions (w_server w))"
  "srv_sockets (w_server (drop_session i ss w)) =
     gm_delete (si_id (w_socks w (ses_sock ss))) (srv_sockets (w_server w))"
  by (simp_all add: drop_session_def)

lemma sock_Close_other: "a' \<noteq> a \<Longrightarrow> w_socks (sock_Close E a w) a' = w_socks w a'"
  by (simp add: sock_Close_def split: prod.split)

lemma sock_Close_id [simp]: "si_id (w_socks (sock_Close E a w) a') = si_id (w_socks w a')"
proof -
  obtain err gs s where c: "SI_Close (tr_Close E) (w_socks w a) = (err, gs, s)" by (metis prod_cases3)
  then show ?thesis using SI_Close_frame [OF c] by (simp add: sock_Close_def)
qed

lemma sock_Close_closed: "\<not> si_connected (w_socks (sock_Close E a w) a)"
proof -
  obtain err gs s where c: "SI_Close (tr_Close E) (w_socks w a) = (err, gs, s)" by (metis prod_cases3)
  then show ?thesis using SI_Close_frame [OF c] by (simp add: sock_Close_def)
qed

lemma cleanup_one_other:
  "ses_sock ss \<noteq> ses_sock (snd e) \<Longrightarrow> w_socks (cleanup_one E now e w) (ses_sock ss) = w_socks w (ses_sock ss)"
  by (simp add: cleanup_one_def sock_Close_other)

lemma cleanup_one_maps:
  assumes "si_id (w_socks w (ses_sock (snd e))) = fst e"
  shows "srv_sessions (w_server (cleanup_one E now e w)) =
      filter (\<lambda>x. \<not> (fst x = fst e \<and> session_expired now w (snd e))) (srv_sessions (w_server w))"
    and "srv_sockets (w_server (cleanup_one E now e w)) =
      filter (\<lambda>x. \<not> (fst x = fst e \<and> session_expired now w (snd e))) (srv_sockets (w_server w))"
  using assms by (simp_all add: cleanup_one_def gm_delete_def)

lemma cleanup_one_expired:
  "session_expired now w (snd e) \<Longrightarrow> \<not> si_connected (w_socks (cleanup_one E now e w) (ses_sock (snd e)))"
  by (simp add: cleanup_one_def sock_Close_closed)

definition expired_id :: "int \<Rightarrow> World \<Rightarrow> (string \<times> LongPollingSession) list \<Rightarrow> string \<Rightarrow> bool" where
  "expired_id now w es k \<longleftrightarrow> (\<exists>e\<in>set es. fst e = k \<and> session_expired now w (snd e))"

definition sessions_ok :: "World \<Rightarrow> (string \<times> LongPollingSession) list \<Rightarrow> bool" where
  "sessions_ok w es \<longleftrightarrow> distinct (map (ses_sock \<circ> snd) es) \<and>
     (\<forall>e\<in>set es. si_id (w_socks w (ses_sock (snd e))) = fst e)"

lemma sessions_step:
  assumes "sessions_ok w (e # es)"
  shows "sessions_ok (cleanup_one E now e w) es" "si_id (w_socks w (ses_sock (snd e))) = fst e"
    "e' \<in> set es \<Longrightarrow> session_expired now' (cleanup_one E now e w) (snd e') = session_expired now' w (snd e')"
    "ses_sock (snd e) \<notin> (ses_sock \<circ> snd) ` set es"
proof -
  have same: "w_socks (cleanup_one E now e w) (ses_sock (snd e')) = w_socks w (ses_sock (snd e'))"
    if "e' \<in> set es" for e'
    using assms that by (intro cleanup_one_other) (auto simp: sessions_ok_def image_iff)
  show "sessions_ok (cleanup_one E now e w) es"
    using assms same by (simp add: sessions_ok_def)
  show "e' \<in> set es \<Longrightarrow> session_expired now' (cleanup_one E now e w) (snd e') = session_expired now' w (snd e')"
    using same by (simp add: session_expired_def)
qed (use assms in \<open>simp_all add: sessions_ok_def\<close>)

lemma expired_id_Cons:
  "sessions_ok w (e # es) \<Longrightarrow> expired_id now w (e # es) k \<longleftrightarrow>
     k = fst e \<and> session_expired now w (snd e) \<or> expired_id now (cleanup_one E now e w) es k"
  using sessions_step(3) [of w e es _ now E now] by (auto simp: expired_id_def)

lemma cleanup_maps:
  "sessions_ok w es \<Longrightarrow>
     srv_sessions (w_server (fold (cleanup_one E now) es w)) =
       filter (\<lambda>x. \<not> expired_id now w es (fst x)) (srv_sessions (w_server w)) \<and>
     srv_sockets (w_server (fold (cleanup_one E now) es w)) =
       filter (\<lambda>x. \<not> expired_id now w es (fst x)) (srv_sockets (w_server w))"
proof (induction es arbitrary: w)
  case (Cons e es)
  then show ?case
    using Cons.IH [OF sessions_step(1) [OF Cons.prems]] cleanup_one_maps [OF sessions_step(2) [OF Cons.prems]]
    by (simp add: expired_id_Cons [OF Cons.prems, of now _ E] conj_commute)
qed (simp add: expired_id_def)

lemma cleanup_keeps:
  "sessions_ok w es \<Longrightarrow> \<forall>e\<in>set es. ses_sock (snd e) = a \<longrightarrow> \<not> session_expired now w (snd e) \<Longrightarrow>
     w_socks (fold (cleanup_one E now) es w) a = w_socks w a"
proof (induction es arbitrary: w)
  case (Cons e es)
  have "w_socks (cleanup_one E now e w) a = w_socks w a"
    using Cons.prems(2) by (auto simp: cleanup_one_def sock_Close_other)
  then show ?case
    using Cons.IH [OF sessions_step(1) [OF Cons.prems(1)], of E now] sessions_step(3) [OF Cons.prems(1)]
      Cons.prems(2) by simp
qed simp

lemma cleanup_closes:
  "sessions_ok w es \<Longrightarrow> e \<in> set es \<Longrightarrow> session_expired now w (snd e) \<Longrightarrow>
     \<not> si_connected (w_socks (fold (cleanup_one E now) es w) (ses_sock (snd e)))"
proof (induction es arbitrary: w)
  case (Cons x es)
  show ?case
  proof (cases "e = x")
    case True
    have "w_socks (fold (cleanup_one E now) es (cleanup_one E now x w)) (ses_sock (snd x)) =
        w_socks (cleanup_one E now x w) (ses_sock (snd x))"
      using sessions_step(4) [OF Cons.prems(1)]
      by (intro cleanup_keeps [OF sessions_step(1) [OF Cons.prems(1)]]) (auto simp: image_iff)
    then show ?thesis using cleanup_one_expired [of now w x E] Cons.prems(3) True by simp
  next
    case False
    then show ?thesis using Cons.IH [OF sessions_step(1) [OF Cons.prems(1)]] Cons.prems
        sessions_step(3) [OF Cons.prems(1)] by simp
  qed
qed simp

lemma world_sessions_ok:
  assumes "world_ok w"
  shows "sessions_ok w (srv_sessions (w_server w))"
proof -
  let ?es = "srv_sessions (w_server w)"
  have k: "gm_ok ?es" using server_okD(6) [OF world_okD [OF assms]] .
  have id: "si_id (w_socks w (ses_sock (snd e))) = fst e" if "e \<in> set ?es" for e
    using server_okD(2) [OF world_okD [OF assms], of "fst e" "snd e"] that gm_entries_iff [OF k, of "fst e" "snd e"]
    by (simp add: session_ok_def)
  have "inj_on (ses_sock \<circ> snd) (set ?es)"
  proof (rule inj_onI)
    fix x y assume "x \<in> set ?es" "y \<in> set ?es" "(ses_sock \<circ> snd) x = (ses_sock \<circ> snd) y"
    then have "fst x = fst y" using id [of x] id [of y] by simp
    then show "x = y" using k \<open>x \<in> set ?es\<close> \<open>y \<in> set ?es\<close>
      by (auto simp: gm_ok_def distinct_map dest: inj_onD)
  qed
  then show ?thesis using k id by (auto simp: sessions_ok_def gm_ok_def distinct_map)
qed

text \<open>A tick of the cleanup removes exactly the expired sessions: those whose transport is
  closed or whose last activity is longer ago than the disconnect timeout.  They leave the
  session map, their identifiers leave the socket map, and their sockets are closed; every other
  session, registration and socket is as before.\<close>

theorem cleanup_removes_exactly_expired:
  assumes "world_ok w" and "w' = Server_cleanupSessions E now w"
  shows "(gm_get (srv_sessions (w_server w')) i = (case gm_get (srv_sessions (w_server w)) i of
      None \<Rightarrow> None | Some ss \<Rightarrow> if session_expired now w ss then None else Some ss)) \<and>
    (case gm_get (srv_sessions (w_server w)) i of
       None \<Rightarrow> Server_GetSocket i w' = Server_GetSocket i w
     | Some ss \<Rightarrow>
         (if session_expired now w ss
          then Server_GetSocket i w' = None \<and> \<not> si_connected (w_socks w' (ses_sock ss))
          else Server_GetSocket i w' = Server_GetSocket i w \<and>
            w_socks w' (ses_sock ss) = w_socks w (ses_sock ss)))"
proof -
  let ?es = "srv_sessions (w_server w)"
  note k = world_sessions_ok [OF assms(1)]
  have m: "gm_ok ?es" using server_okD(6) [OF world_okD [OF assms(1)]] .
  have s: "gm_get (srv_sessions (w_server w')) i = (if \<not> expired_id now w ?es i then gm_get ?es i else None)"
    and r: "Server_GetSocket i w' = (if \<not> expired_id now w ?es i then Server_GetSocket i w else None)"
    using cleanup_maps [OF k, of E now]
    by (simp_all add: assms(2) Server_cleanupSessions_def Server_GetSocket_def gm_get_filter [of "\<lambda>k. \<not> expired_id now w ?es k"])
  show ?thesis
  proof (cases "gm_get ?es i")
    case None
    then have "\<not> expired_id now w ?es i" using m by (auto simp: expired_id_def gm_ok_def)
    then show ?thesis using s r None by simp
  next
    case (Some ss)
    then have e: "(i, ss) \<in> set ?es" by (rule map_of_SomeD)
    have x: "expired_id now w ?es i \<longleftrightarrow> session_expired now w ss"
    proof
      assume "expired_id now w ?es i"
      then obtain ss' where "(i, ss') \<in> set ?es" "session_expired now w ss'"
        by (auto simp: expired_id_def)
      then show "session_expired now w ss" using Some gm_entries_iff [OF m] by simp
    next
      assume "session_expired now w ss"
      with e show "expired_id now w ?es i" unfolding expired_id_def by (intro bexI [of _ "(i, ss)"]) simp_all
    qed
    have "session_expired now w ss \<Longrightarrow> \<not> si_connected (w_socks w' (ses_sock ss))"
      using cleanup_closes [OF k e, of now E] by (simp add: assms(2) Server_cleanupSessions_def)
    moreover have "w_socks w' (ses_sock ss) = w_socks w (ses_sock ss)" if "\<not> session_expired now w ss"
      unfolding assms(2) Server_cleanupSessions_def
    proof (rule cleanup_keeps [OF k], intro ballI impI)
      fix e' assume "e' \<in> set ?es" "ses_sock (snd e') = ses_sock ss"
      then have "e' = (i, ss)" using k e by (auto simp: sessions_ok_def distinct_map dest!: inj_onD [of _ _ e' "(i, ss)"])
      then show "\<not> session_expired now w (snd e')" using that by simp
    qed
    ultimately show ?thesis using s r x Some by simp
  qed
qed

definition demo_expired :: World where
  "demo_expired = upd_server (\<lambda>s. s\<lparr>srv_sessions := [(''s'', \<lparr>ses_ID = ''s'', ses_sock = 0\<rparr>)]\<rparr>) demo_connected"

theorem cleanup_removes_exactly_expired_witness:
  "gm_get (srv_sessions (w_server demo_expired)) ''s'' \<noteq> None \<and>
   gm_get (srv_sessions (w_server (Server_cleanupSessions demo_env (61 * second) demo_expired))) ''s'' = None \<and>
   gm_get (srv_sessions (w_server (Server_cleanupSessions demo_env (60 * second) demo_expired))) ''s'' \<noteq> None"
proof -
  have "session_ok demo_connected ''s'' \<lparr>ses_ID = ''s'', ses_sock = 0\<rparr>"
    by (simp add: session_ok_def demo_connected_simps newSocketFromServerTransport_def)
  then have ok: "world_ok demo_expired" unfolding demo_expired_def
    using ok_demo_connected by (intro ok_upd_server) (auto simp: world_ok_def server_ok_def gm_ok_def)
  have "session_expired t demo_expired \<lparr>ses_ID = ''s'', ses_sock = 0\<rparr> \<longleftrightarrow> t > 60 * second" for t
    by (simp add: session_expired_def demo_expired_def demo_connected_simps newSocketFromServerTransport_def
        LPS_IsExpired_def NewLongPollingServerTransport_def DefaultLongPollingServerConfig_def second_def)
  moreover have "gm_get (srv_sessions (w_server demo_expired)) ''s'' = Some \<lparr>ses_ID = ''s'', ses_sock = 0\<rparr>"
    by (simp add: demo_expired_def)
  ultimately show ?thesis
    using cleanup_removes_exactly_expired [OF ok HOL.refl, of demo_env "61 * second" "''s''"]
      cleanup_removes_exactly_expired [OF ok HOL.refl, of demo_env "60 * second" "''s''"]
    by (simp add: second_def)
qed

lemma close_fold_disconnects:
  "(sk \<in> set sks \<or> \<not> si_connected (w_socks w (sk_addr sk))) \<Longrightarrow>
     \<not> si_connected (w_socks (fold (\<lambda>sk. sock_Close E (sk_addr sk)) sks w) (sk_addr sk))"
proof (induction sks arbitrary: w)
  case (Cons x sks)
  have "\<not> si_connected (w_socks (sock_Close E (sk_addr x) w) (sk_addr sk))"
    if "\<not> si_connected (w_socks w (sk_addr sk))"
    using that sock_Close_closed [of E "sk_addr x" w] sock_Close_other [of "sk_addr sk" "sk_addr x" E w]
    by (cases "sk_addr sk = sk_addr x") auto
  then show ?case
    using Cons sock_Close_closed [of E "sk_addr x" w] by auto
qed simp

text \<open>\<open>Shutdown\<close> closes every registered socket, and after that no send to any of them is
  accepted.  It removes none of them from the server: that is left to the disconnect closures it
  starts.\<close>

theorem Shutdown_closes_all:
  assumes "Server_GetSocket i w = Some sk" and "gm_ok (srv_sockets (w_server w))"
  shows "\<not> si_connected (w_socks (Server_Shutdown E w) (sk_addr sk)) \<and>
    fst (sock_Send E (sk_addr sk) e d (Server_Shutdown E w)) = Some ErrConnectionClosed \<and>
    Server_GetSocket i (Server_Shutdown E w) = Some sk"
proof -
  have "sk \<in> set (gm_vals (srv_sockets (w_server w)))"
    using assms by (auto simp: gm_vals_iff Server_GetSocket_def)
  then have c: "\<not> si_connected (w_socks (Server_Shutdown E w) (sk_addr sk))"
    unfolding Server_Shutdown_def by (intro close_fold_disconnects) simp
  have "w_server (fold (\<lambda>sk. sock_Close E (sk_addr sk)) sks w) = w_server w" for sks
    by (induction sks arbitrary: w) simp_all
  then have "Server_GetSocket i (Server_Shutdown E w) = Some sk"
    using assms(1) by (simp add: Server_GetSocket_def Server_Shutdown_def)
  with c show ?thesis by (simp add: sock_Send_def SI_Send_def)
qed

theorem Shutdown_closes_all_witness:
  "\<not> si_connected (w_socks (Server_Shutdown demo_env
     (Server_handleSocket (ref demo_connected 0) demo_connected)) 0)"
proof -
  let ?w = "Server_handleSocket (ref demo_connected 0) demo_connected"
  have "Server_GetSocket ''s'' ?w = Some (ref demo_connected 0)" "gm_ok (srv_sockets (w_server ?w))"
    by (simp_all add: Server_GetSocket_def ref_def demo_connected_simps newSocketFromServerTransport_def)
  from Shutdown_closes_all [OF this, of demo_env EventMessage GNil] show ?thesis
    by (simp add: ref_def)
qed

section \<open>Broadcasts\<close>

text \<open>C21. Both broadcasts of the server reach every registered socket exactly once and nobody
  else.  \<open>Broadcast\<close> starts one sending goroutine per registered socket; \<open>BroadcastParallel\<close>,
  however its producer and its at most twenty workers interleave, has sent once to each of them
  when it returns, and it can always return.\<close>

theorem broadcasts_reach_every_socket_once:
  assumes "world_ok w" and "Server_BroadcastParallel w = Some p" and "pool_reach p q"
  shows "(\<exists>sks. w_tasks (Server_Broadcast e d w) = w_tasks w @ map (\<lambda>sk. TSend sk e d) sks \<and>
      distinct (map sk_ID sks) \<and> set sks = {sk. Server_GetSocket (sk_ID sk) w = Some sk}) \<and>
    (pool_returned q \<longrightarrow> mset (pl_sent q) = mset_set {sk. Server_GetSocket (sk_ID sk) w = Some sk}) \<and>
    (\<exists>r. pool_reach q r \<and> pool_returned r) \<and> length (pl_workers q) \<le> 20"
proof -
  let ?m = "srv_sockets (w_server w)"
  note s = server_okD(1,5) [OF world_okD [OF assms(1)]]
  have ids: "map sk_ID (gm_vals ?m) = map fst ?m"
    using s(1) gm_entries_iff [OF s(2)] by (auto simp: gm_vals_def)
  then have d: "distinct (map sk_ID (gm_vals ?m))" using s(2) by (simp add: gm_ok_def)
  have set: "set (gm_vals ?m) = {sk. Server_GetSocket (sk_ID sk) w = Some sk}"
    using s(1) by (auto simp: gm_vals_iff [OF s(2)] Server_GetSocket_def)
  have "w_tasks (Server_Broadcast e d w) = w_tasks w @ map (\<lambda>sk. TSend sk e d) (gm_vals ?m)"
    by (simp add: Server_Broadcast_def Let_def)
  moreover have p: "p = pool_start (gm_vals ?m) (min (int (length (gm_vals ?m))) 20)" and ne: "gm_vals ?m \<noteq> []"
    using assms(2) by (auto simp: Server_BroadcastParallel_def Let_def split: if_splits)
  note inv = pool_reach_inv [OF assms(3)
      pool_inv_start [of "gm_vals ?m" "min (int (length (gm_vals ?m))) 20", folded p]]
  have "mset (pl_sent q) = mset_set {sk. Server_GetSocket (sk_ID sk) w = Some sk}" if "pool_returned q"
    using pool_returned_sent [OF inv that] ne d set by (simp add: mset_set_set [symmetric] distinct_map)
  moreover have "length (pl_workers q) \<le> 20" using inv by (simp add: pool_inv_def)
  ultimately show ?thesis using pool_returns [OF inv] d set by blast
qed

theorem broadcasts_reach_every_socket_once_witness:
  "\<exists>p q. Server_BroadcastParallel (Server_handleSocket (ref demo_connected 0) demo_connected) = Some p \<and>
     pool_reach p q \<and> pool_returned q \<and> pl_sent q = [ref demo_connected 0]"
proof -
  let ?w = "Server_handleSocket (ref demo_connected 0) demo_connected"
  let ?sk = "ref demo_connected 0"
  have id: "sk_ID ?sk = ''s''" by (simp add: ref_def demo_connected_simps newSocketFromServerTransport_def)
  have s: "sock_ok demo_connected ?sk" by (rule sock_ok_ref) (simp add: demo_connected_simps)
  have w: "world_ok ?w" by (rule ok_handleSocket [OF ok_demo_connected s])
  obtain p where p: "Server_BroadcastParallel ?w = Some p"
    by (simp add: Server_BroadcastParallel_def Let_def demo_connected_simps gm_put_def gm_vals_def)
  obtain q where q: "pool_reach p q" "pool_returned q"
    using broadcasts_reach_every_socket_once [OF w p reaches.start] by blast
  have "{sk. Server_GetSocket (sk_ID sk) ?w = Some sk} = {?sk}"
    using id by (auto simp: Server_GetSocket_def demo_connected_simps split: if_splits)
  then have "mset (pl_sent q) = {#?sk#}"
    using broadcasts_reach_every_socket_once [OF w p q(1)] q(2) by simp
  with p q show ?thesis by auto
qed

end
