(* ===== verification/GoContext.thy ===== *)
theory GoContext
  imports GoSync
begin

text \<open>
  Go's \<open>context\<close> package as far as the code uses it: contexts with a parent and a cancel function.
  A context is done when it or one of its ancestors has been cancelled.  The contexts of a program
  are a list; the position is the identity, and a context is made after its parent.
\<close>

section \<open>Contexts\<close>

type_synonym ctxs = "(nat option \<times> bool) list"      \<comment> \<open>parent, cancelled\<close>

text \<open>\<open>context.WithCancel(parent)\<close>; \<open>None\<close> is \<open>context.Background()\<close>.\<close>

definition ctx_WithCancel :: "nat option \<Rightarrow> ctxs \<Rightarrow> nat \<times> ctxs" where
  "ctx_WithCancel p cs = (length cs, cs @ [(p, False)])"

definition ctx_cancel :: "nat \<Rightarrow> ctxs \<Rightarrow> ctxs" where
  "ctx_cancel c cs = cs[c := (fst (cs ! c), True)]"

text \<open>A context and its ancestors.\<close>

function ctx_line :: "ctxs \<Rightarrow> nat \<Rightarrow> nat list" where
  "ctx_line cs c =
     (if c < length cs
      then c # (case fst (cs ! c) of None \<Rightarrow> [] | Some p \<Rightarrow> if p < c then ctx_line cs p else [])
      else [])"
  by auto
termination
  by (relation "measure snd") auto

declare ctx_line.simps [simp del]

definition ctx_done :: "ctxs \<Rightarrow> nat \<Rightarrow> bool" where
  "ctx_done cs c \<longleftrightarrow> list_ex (\<lambda>a. snd (cs ! a)) (ctx_line cs c)"

lemma ctx_cancel_length [simp]: "length (ctx_cancel c cs) = length cs"
  by (simp add: ctx_cancel_def)

lemma ctx_cancel_nth:
  "a < length cs \<Longrightarrow> ctx_cancel c cs ! a = (fst (cs ! a), snd (cs ! a) \<or> a = c)"
  by (cases "a = c") (simp_all add: ctx_cancel_def prod_eq_iff)

lemma ctx_line_bound: "a \<in> set (ctx_line cs c) \<Longrightarrow> a \<le> c \<and> a < length cs"
proof (induction cs c rule: ctx_line.induct)
  case (1 cs c)
  from 1(2) consider "a = c" "c < length cs"
    | q where "c < length cs" "Some q = fst (cs ! c)" "q < c" "a \<in> set (ctx_line cs q)"
    unfolding ctx_line.simps [of cs c] by (auto split: if_splits option.splits)
  then show ?case
  proof cases
    case 2
    from 1(1) [OF 2(1) 2(2) [symmetric] 2(3,4)] show ?thesis using 2(3) by simp
  qed simp
qed

lemma ctx_line_self [simp]: "c \<in> set (ctx_line cs c) \<longleftrightarrow> c < length cs"
  by (subst ctx_line.simps) (auto dest: ctx_line_bound split: option.splits)

lemma ctx_line_append: "c < length cs \<Longrightarrow> ctx_line (cs @ xs) c = ctx_line cs c"
proof (induction cs c rule: ctx_line.induct)
  case (1 cs c)
  then show ?case by (subst (1 2) ctx_line.simps) (auto simp: nth_append split: option.splits)
qed

lemma ctx_line_cancel [simp]: "ctx_line (ctx_cancel a cs) c = ctx_line cs c"
proof (induction cs c rule: ctx_line.induct)
  case (1 cs c)
  then show ?case by (subst (1 2) ctx_line.simps) (auto simp: ctx_cancel_nth split: option.splits)
qed

lemma ctx_line_new:
  "ctx_line (cs @ [(p, b)]) (length cs) =
     length cs # (case p of None \<Rightarrow> [] | Some q \<Rightarrow> if q < length cs then ctx_line cs q else [])"
  by (subst ctx_line.simps) (auto simp: ctx_line_append split: option.splits)

lemma ctx_done_append: "c < length cs \<Longrightarrow> ctx_done (cs @ xs) c = ctx_done cs c"
  unfolding ctx_done_def ctx_line_append
  by (auto simp: list_ex_iff nth_append ctx_line_append dest: ctx_line_bound)

lemma ctx_done_new:
  "ctx_done (cs @ [(p, False)]) (length cs) =
     (case p of None \<Rightarrow> False | Some q \<Rightarrow> q < length cs \<and> ctx_done cs q)"
  by (auto simp: ctx_done_def ctx_line_new list_ex_iff nth_append split: option.splits dest: ctx_line_bound)

text \<open>Cancelling a context ends it and what was derived from it, and nothing else.\<close>

lemma ctx_done_cancel:
  "ctx_done (ctx_cancel a cs) c \<longleftrightarrow> ctx_done cs c \<or> a \<in> set (ctx_line cs c)"
proof -
  have "snd (ctx_cancel a cs ! x) \<longleftrightarrow> snd (cs ! x) \<or> x = a" if "x \<in> set (ctx_line cs c)" for x
    using ctx_line_bound [OF that] by (simp add: ctx_cancel_nth)
  then show ?thesis by (auto simp: ctx_done_def list_ex_iff)
qed

end
