(* ===== verification/Node.thy ===== *)
theory Node
  imports Server GoContext Complex_Main
begin

text \<open>
  \<open>socket/distributed/node.go\<close>, the node: its processes, mailboxes and room subscriptions.
  Processes are pointers, so they live in a store and the map of the node holds addresses; the
  goroutine of a process goes on as long as its context is not done, whether or not the map
  still leads to it.  A loop of blocking sends is a function that tells how far it gets before
  it has to wait.
\<close>

section \<open>State\<close>

record Process =
  pr_ID :: string
  pr_Function :: nat
  pr_mailbox :: "gval chan"
  pr_ctx :: nat
  pr_alive :: bool
  pr_running :: bool                 \<comment> \<open>its goroutine has not returned\<close>

record Node =
  nd_processes :: "(string, nat) gomap"
  nd_supervisors :: "(string, nat) gomap"
  nd_nextProcessID :: "64 word"
  nd_ctx :: nat
  nd_name :: string
  nd_roomSubscriptions :: "(string, (string, bool) gomap) gomap"
  nd_SocketServer :: bool
  nd_heap :: "nat \<Rightarrow> Process"
  nd_next :: nat
  nd_ctxs :: ctxs

definition new_process :: "string \<Rightarrow> nat \<Rightarrow> nat \<Rightarrow> nat \<Rightarrow> Process" where
  "new_process i f sz c =
     \<lparr>pr_ID = i, pr_Function = f, pr_mailbox = make_chan sz, pr_ctx = c, pr_alive = True, pr_running = True\<rparr>"

text \<open>The one option; its argument is whether the pointer it is given leads to a server.\<close>

datatype NodeOption = WithSocketServer bool

fun apply_node_option :: "NodeOption \<Rightarrow> Node \<Rightarrow> Node" where
  "apply_node_option (WithSocketServer server) n = n\<lparr>nd_SocketServer := server\<rparr>"

text \<open>\<open>NewNode\<close>; \<open>hs\<close>: the numbers of the three handlers it registers when it has a socket server.\<close>

definition NewNode :: "string \<Rightarrow> NodeOption list \<Rightarrow> nat \<times> nat \<times> nat \<Rightarrow> World \<Rightarrow> Node \<times> World" where
  "NewNode name opts hs w =
     (case ctx_WithCancel None [] of
        (c, cs) \<Rightarrow>
          let node = fold apply_node_option opts
            \<lparr>nd_processes = [], nd_supervisors = [], nd_nextProcessID = 0, nd_ctx = c, nd_name = name,
             nd_roomSubscriptions = [], nd_SocketServer = False,
             nd_heap = (\<lambda>_. new_process [] 0 0 0), nd_next = 0, nd_ctxs = cs\<rparr>
          in (node,
            if nd_SocketServer node
            then case hs of (joinH, leaveH, discH) \<Rightarrow>
              Server_HandleFunc EventDisconnect discH
                (Server_HandleFunc ''leave'' leaveH (Server_HandleFunc ''join'' joinH w))
            else w))"

lemma node_options [simp]:
  "nd_processes (fold apply_node_option opts n) = nd_processes n"
  "nd_supervisors (fold apply_node_option opts n) = nd_supervisors n"
  "nd_nextProcessID (fold apply_node_option opts n) = nd_nextProcessID n"
  "nd_ctx (fold apply_node_option opts n) = nd_ctx n" "nd_name (fold apply_node_option opts n) = nd_name n"
  "nd_roomSubscriptions (fold apply_node_option opts n) = nd_roomSubscriptions n"
  "nd_heap (fold apply_node_option opts n) = nd_heap n" "nd_next (fold apply_node_option opts n) = nd_next n"
  "nd_ctxs (fold apply_node_option opts n) = nd_ctxs n"
proof -
  have "\<exists>b. fold apply_node_option opts n = n\<lparr>nd_SocketServer := b\<rparr>"
  proof (induction opts arbitrary: n)
    case Nil
    have "n = n\<lparr>nd_SocketServer := nd_SocketServer n\<rparr>" by simp
    then show ?case unfolding fold_simps id_def by blast
  next
    case (Cons opt opts)
    obtain b where b: "apply_node_option opt n = n\<lparr>nd_SocketServer := b\<rparr>" by (cases opt) auto
    show ?case using Cons [of "n\<lparr>nd_SocketServer := b\<rparr>"] by (auto simp: b)
  qed
  then show "nd_processes (fold apply_node_option opts n) = nd_processes n"
    "nd_supervisors (fold apply_node_option opts n) = nd_supervisors n"
    "nd_nextProcessID (fold apply_node_option opts n) = nd_nextProcessID n"
    "nd_ctx (fold apply_node_option opts n) = nd_ctx n" "nd_name (fold apply_node_option opts n) = nd_name n"
    "nd_roomSubscriptions (fold apply_node_option opts n) = nd_roomSubscriptions n"
    "nd_heap (fold apply_node_option opts n) = nd_heap n" "nd_next (fold apply_node_option opts n) = nd_next n"
    "nd_ctxs (fold apply_node_option opts n) = nd_ctxs n" by auto
qed

definition upd_proc :: "nat \<Rightarrow> (Process \<Rightarrow> Process) \<Rightarrow> Node \<Rightarrow> Node" where
  "upd_proc a f n = n\<lparr>nd_heap := (nd_heap n)(a := f (nd_heap n a))\<rparr>"

section \<open>Processes\<close>

text \<open>\<open>fmt.Sprint\<close> of an unsigned number.\<close>

fun dec_digits :: "nat \<Rightarrow> string" where
  "dec_digits n = (if n < 10 then [''0123456789'' ! n] else dec_digits (n div 10) @ [''0123456789'' ! (n mod 10)])"

declare dec_digits.simps [simp del]

text \<open>\<open>clock\<close>: the formatted time.\<close>

definition Node_generateProcessID :: "string \<Rightarrow> Node \<Rightarrow> string \<times> Node" where
  "Node_generateProcessID clock n =
     (let k = nd_nextProcessID n + 1
      in (nd_name n @ ''-'' @ clock @ ''-'' @ dec_digits (unat k), n\<lparr>nd_nextProcessID := k\<rparr>))"

text \<open>The common part of the spawns: a process whose context is a child of \<open>parent\<close>.\<close>

definition start_process :: "string \<Rightarrow> nat \<Rightarrow> nat \<Rightarrow> nat \<Rightarrow> Node \<Rightarrow> Node" where
  "start_process i f sz parent n =
     (case ctx_WithCancel (Some parent) (nd_ctxs n) of
        (c, cs) \<Rightarrow>
          n\<lparr>nd_ctxs := cs, nd_heap := (nd_heap n)(nd_next n := new_process i f sz c),
            nd_next := Suc (nd_next n), nd_processes := gm_put i (nd_next n) (nd_processes n)\<rparr>)"

definition Node_SpawnProcessWithID :: "string \<Rightarrow> nat \<Rightarrow> Node \<Rightarrow> (gerror + string) \<times> Node" where
  "Node_SpawnProcessWithID i f n =
     (if ctx_done (nd_ctxs n) (nd_ctx n) then (Inl ErrNodeStopped, n)
      else (Inr i, start_process i f 100 (nd_ctx n) n))"

definition Node_SpawnProcess :: "string \<Rightarrow> nat \<Rightarrow> Node \<Rightarrow> (gerror + string) \<times> Node" where
  "Node_SpawnProcess clock f n =
     (case Node_generateProcessID clock n of (i, n') \<Rightarrow> Node_SpawnProcessWithID i f n')"

datatype ProcessPriority = LowPriority | NormalPriority | HighPriority | CriticalPriority

text \<open>The order of the constants, as integers.\<close>

fun priority_int :: "ProcessPriority \<Rightarrow> int" where
  "priority_int LowPriority = 0"
| "priority_int NormalPriority = 1"
| "priority_int HighPriority = 2"
| "priority_int CriticalPriority = 3"

instantiation ProcessPriority :: linorder
begin

definition less_eq_ProcessPriority :: "ProcessPriority \<Rightarrow> ProcessPriority \<Rightarrow> bool" where
  "less_eq_ProcessPriority a b \<longleftrightarrow> priority_int a \<le> priority_int b"

definition less_ProcessPriority :: "ProcessPriority \<Rightarrow> ProcessPriority \<Rightarrow> bool" where
  "less_ProcessPriority a b \<longleftrightarrow> priority_int a < priority_int b"

instance
proof
  fix a b c :: ProcessPriority
  show "a < b \<longleftrightarrow> a \<le> b \<and> \<not> b \<le> a" by (auto simp: less_eq_ProcessPriority_def less_ProcessPriority_def)
  show "a \<le> a" by (simp add: less_eq_ProcessPriority_def)
  show "a \<le> b \<Longrightarrow> b \<le> c \<Longrightarrow> a \<le> c" by (simp add: less_eq_ProcessPriority_def)
  show "a \<le> b \<Longrightarrow> b \<le> a \<Longrightarrow> a = b"
    by (cases a; cases b) (simp_all add: less_eq_ProcessPriority_def)
  show "a \<le> b \<or> b \<le> a" by (auto simp: less_eq_ProcessPriority_def)
qed

end

record ProcessOptions =
  po_Priority :: ProcessPriority
  po_MailboxSize :: int
  po_Capabilities :: "(string, int) gomap"

definition DefaultProcessOptions :: ProcessOptions where
  "DefaultProcessOptions = \<lparr>po_Priority = NormalPriority, po_MailboxSize = 100, po_Capabilities = []\<rparr>"

definition Node_SpawnProcessWithIDAndOptions ::
  "string \<Rightarrow> nat \<Rightarrow> ProcessOptions \<Rightarrow> Node \<Rightarrow> (gerror + string) \<times> Node" where
  "Node_SpawnProcessWithIDAndOptions i f opts n =
     (if ctx_done (nd_ctxs n) (nd_ctx n) then (Inl ErrNodeStopped, n)
      else
        (let mailboxSize = (if po_MailboxSize opts > 0 then nat (po_MailboxSize opts) else 100)
         in (Inr i, start_process i f mailboxSize (nd_ctx n) n)))"

definition Node_SpawnProcessWithOptions ::
  "string \<Rightarrow> nat \<Rightarrow> ProcessOptions \<Rightarrow> Node \<Rightarrow> (gerror + string) \<times> Node" where
  "Node_SpawnProcessWithOptions clock f opts n =
     (case Node_generateProcessID clock n of (i, n') \<Rightarrow> Node_SpawnProcessWithIDAndOptions i f opts n')"

definition Node_Send :: "string \<Rightarrow> gval \<Rightarrow> Node \<Rightarrow> gerror option \<times> Node" where
  "Node_Send dest message n =
     (case gm_get (nd_processes n) dest of
        None \<Rightarrow> (Some ErrProcessNotFound, n)
      | Some a \<Rightarrow>
          if \<not> pr_alive (nd_heap n a) then (Some ErrProcessNotFound, n)
          else
            (case ch_try_send message (pr_mailbox (nd_heap n a)) of
               Some c \<Rightarrow> (None, upd_proc a (\<lambda>p. p\<lparr>pr_mailbox := c\<rparr>) n)
             | None \<Rightarrow> (Some (ErrNew ''mailbox full''), n)))"

definition cancel_process :: "nat \<Rightarrow> Node \<Rightarrow> Node" where
  "cancel_process a n = n\<lparr>nd_ctxs := ctx_cancel (pr_ctx (nd_heap n a)) (nd_ctxs n)\<rparr>"

definition drop_subscriptions :: "string \<Rightarrow> Node \<Rightarrow> Node" where
  "drop_subscriptions i n = n\<lparr>nd_roomSubscriptions := gm_delete i (nd_roomSubscriptions n)\<rparr>"

definition Node_Kill :: "string \<Rightarrow> Node \<Rightarrow> gerror option \<times> Node" where
  "Node_Kill i n =
     (case gm_get (nd_processes n) i of
        None \<Rightarrow> (Some ErrProcessNotFound, n)
      | Some a \<Rightarrow>
          (let n1 = cancel_process a n;
               n2 = upd_proc a (\<lambda>p. p\<lparr>pr_alive := False\<rparr>) n1;
               n3 = n2\<lparr>nd_processes := gm_delete i (nd_processes n2)\<rparr>
           in (None, drop_subscriptions i n3)))"

definition stop_one :: "string \<times> nat \<Rightarrow> Node \<Rightarrow> Node" where
  "stop_one e n =
     (let n1 = cancel_process (snd e) n in n1\<lparr>nd_processes := gm_delete (fst e) (nd_processes n1)\<rparr>)"

definition Node_Stop :: "Node \<Rightarrow> Node" where
  "Node_Stop n =
     (let n1 = n\<lparr>nd_ctxs := ctx_cancel (nd_ctx n) (nd_ctxs n)\<rparr>
      in fold stop_one (nd_processes n1) n1)"

text \<open>Floating-point numbers are stored and never computed with.\<close>

type_synonym float64 = real

record ProcessStats =
  st_ProcessID :: string
  st_MessagesTotal :: "64 word"
  st_MessagesPerSec :: float64
  st_AvgProcessingMs :: float64
  st_ErrorCount :: "64 word"
  st_LastActive :: int

definition Node_GetProcessStats :: "int \<Rightarrow> string \<Rightarrow> Node \<Rightarrow> gerror + ProcessStats" where
  "Node_GetProcessStats now i n =
     (case gm_get (nd_processes n) i of
        None \<Rightarrow> Inl ErrProcessNotFound
      | Some _ \<Rightarrow> Inr \<lparr>st_ProcessID = i, st_MessagesTotal = 0, st_MessagesPerSec = 0, st_AvgProcessingMs = 0,
          st_ErrorCount = 0, st_LastActive = now\<rparr>)"

text \<open>System events.  \<open>Monitor\<close> takes a handler for them and drops it; nothing makes an event.\<close>

datatype SystemEventType = ProcessStarted | ProcessTerminated | NodeJoined | NodeLeft | SupervisorRestarting

record SystemEvent =
  se_Type :: SystemEventType
  se_Timestamp :: int
  se_ProcessID :: string
  se_NodeID :: string
  se_Error :: "gerror option"

definition Node_Monitor :: "(SystemEvent \<Rightarrow> 'a) \<Rightarrow> Node \<Rightarrow> Node" where
  "Node_Monitor handler n = n"

section \<open>Room subscriptions\<close>

definition Node_Subscribe :: "string \<Rightarrow> string \<Rightarrow> Node \<Rightarrow> Node" where
  "Node_Subscribe i room n =
     (let s1 = (if gm_has (nd_roomSubscriptions n) i then nd_roomSubscriptions n
                else gm_put i [] (nd_roomSubscriptions n));
          rooms = the (gm_get s1 i)
      in n\<lparr>nd_roomSubscriptions := gm_put i (gm_put room True rooms) s1\<rparr>)"

definition Node_Unsubscribe :: "string \<Rightarrow> string \<Rightarrow> Node \<Rightarrow> Node" where
  "Node_Unsubscribe i room n =
     (case gm_get (nd_roomSubscriptions n) i of
        None \<Rightarrow> n
      | Some rooms \<Rightarrow>
          (let rooms' = gm_delete room rooms; s1 = gm_put i rooms' (nd_roomSubscriptions n)
           in n\<lparr>nd_roomSubscriptions := (if gm_len rooms' = 0 then gm_delete i s1 else s1)\<rparr>))"

text \<open>\<open>rooms[room]\<close>: a missing key reads as false.\<close>

definition room_flag :: "(string, bool) gomap \<Rightarrow> string \<Rightarrow> bool" where
  "room_flag rooms room \<longleftrightarrow> gm_get rooms room = Some True"

text \<open>The processes a handler addresses: those it finds alive, in the order of the loop.\<close>

definition live_targets :: "Node \<Rightarrow> string list \<Rightarrow> nat list" where
  "live_targets n pids =
     concat (map (\<lambda>pid. case gm_get (nd_processes n) pid of None \<Rightarrow> []
       | Some a \<Rightarrow> if pr_alive (nd_heap n a) then [a] else []) pids)"

definition room_targets :: "Node \<Rightarrow> string \<Rightarrow> nat list" where
  "room_targets n room =
     live_targets n (map fst (filter (\<lambda>e. room_flag (snd e) room) (nd_roomSubscriptions n)))"

definition room_message :: "string \<Rightarrow> string \<Rightarrow> Socket \<Rightarrow> gval" where
  "room_message kind room sk =
     GMap [(''type'', GString kind), (''room'', GString room), (''socket'', GString (sk_ID sk))]"

definition disconnect_message :: "Socket \<Rightarrow> gval" where
  "disconnect_message sk = GMap [(''type'', GString ''socket_disconnect''), (''socket'', GString (sk_ID sk))]"

text \<open>The sends a handler makes, one after the other, while it holds the read lock.\<close>

definition Node_handleRoomJoin :: "Socket \<Rightarrow> gval \<Rightarrow> Node \<Rightarrow> (nat \<times> gval) list" where
  "Node_handleRoomJoin sk data n =
     (case as_string data of None \<Rightarrow> []
      | Some room \<Rightarrow> map (\<lambda>a. (a, room_message ''room_join'' room sk)) (room_targets n room))"

definition Node_handleRoomLeave :: "Socket \<Rightarrow> gval \<Rightarrow> Node \<Rightarrow> (nat \<times> gval) list" where
  "Node_handleRoomLeave sk data n =
     (case as_string data of None \<Rightarrow> []
      | Some room \<Rightarrow> map (\<lambda>a. (a, room_message ''room_leave'' room sk)) (room_targets n room))"

definition Node_handleSocketDisconnect :: "Socket \<Rightarrow> gval \<Rightarrow> Node \<Rightarrow> (nat \<times> gval) list" where
  "Node_handleSocketDisconnect sk data n =
     map (\<lambda>a. (a, disconnect_message sk)) (live_targets n (gm_keys (nd_processes n)))"

text \<open>\<open>process.mailbox <- m\<close> for each of them: what is left when the loop has to wait.\<close>

fun blocking_sends :: "(nat \<times> gval) list \<Rightarrow> Node \<Rightarrow> (nat \<times> gval) list \<times> Node" where
  "blocking_sends [] n = ([], n)"
| "blocking_sends ((a, m) # ms) n =
     (case ch_try_send m (pr_mailbox (nd_heap n a)) of
        None \<Rightarrow> ((a, m) # ms, n)
      | Some c \<Rightarrow> blocking_sends ms (upd_proc a (\<lambda>p. p\<lparr>pr_mailbox := c\<rparr>) n))"

section \<open>The goroutine of a process\<close>

text \<open>One turn of its \<open>select\<close>: the message it hands to the function, if any.  When the context is
  done and a message is there too, either may happen.\<close>

definition proc_take :: "nat \<Rightarrow> Node \<Rightarrow> (gval \<times> Node) option" where
  "proc_take a n =
     (if \<not> pr_running (nd_heap n a) then None
      else case ch_try_recv (pr_mailbox (nd_heap n a)) of
        None \<Rightarrow> None
      | Some (m, c) \<Rightarrow> Some (m, upd_proc a (\<lambda>p. p\<lparr>pr_mailbox := c\<rparr>) n))"

definition proc_exit :: "nat \<Rightarrow> Node \<Rightarrow> Node option" where
  "proc_exit a n =
     (if pr_running (nd_heap n a) \<and> ctx_done (nd_ctxs n) (pr_ctx (nd_heap n a))
      then Some (upd_proc a (\<lambda>p. p\<lparr>pr_running := False\<rparr>) n) else None)"

section \<open>Steps\<close>

inductive nstep :: "Node \<Rightarrow> Node \<Rightarrow> bool" where
  spawn: "Node_SpawnProcessWithID i f n = (r, n') \<Longrightarrow> nstep n n'"
| spawn_fresh: "Node_SpawnProcess clock f n = (r, n') \<Longrightarrow> nstep n n'"
| spawn_opts: "Node_SpawnProcessWithIDAndOptions i f opts n = (r, n') \<Longrightarrow> nstep n n'"
| spawn_fresh_opts: "Node_SpawnProcessWithOptions clock f opts n = (r, n') \<Longrightarrow> nstep n n'"
| send: "Node_Send i m n = (r, n') \<Longrightarrow> nstep n n'"
| kill: "Node_Kill i n = (r, n') \<Longrightarrow> nstep n n'"
| stop: "nstep n (Node_Stop n)"
| subscribe: "nstep n (Node_Subscribe i room n)"
| unsubscribe: "nstep n (Node_Unsubscribe i room n)"
| notify: "blocking_sends ms n = (rest, n') \<Longrightarrow> list_all (\<lambda>(a, m). a < nd_next n) ms \<Longrightarrow> nstep n n'"
| take: "a < nd_next n \<Longrightarrow> proc_take a n = Some (m, n') \<Longrightarrow> nstep n n'"
| exit: "a < nd_next n \<Longrightarrow> proc_exit a n = Some n' \<Longrightarrow> nstep n n'"

end
