(* ===== verification/NodeSteps.thy ===== *)
theory NodeSteps
  imports Node
begin

text \<open>
  The invariant of a node and its preservation by every operation; the room subscriptions as a
  registry (the locale \<open>subscriptions\<close> of the prelude).
\<close>

section \<open>The subscription registry\<close>

definition subs_ok :: "Node \<Rightarrow> bool" where
  "subs_ok n \<longleftrightarrow> gm_ok (nd_roomSubscriptions n) \<and>
     (\<forall>i rooms. gm_get (nd_roomSubscriptions n) i = Some rooms \<longrightarrow> rooms \<noteq> [] \<and> gm_ok rooms)"

definition subscribed :: "Node \<Rightarrow> string \<Rightarrow> string \<Rightarrow> bool" where
  "subscribed n room i \<longleftrightarrow>
     (case gm_get (nd_roomSubscriptions n) i of None \<Rightarrow> False | Some rooms \<Rightarrow> room_flag rooms room)"

lemma subscribed_Subscribe:
  "subscribed (Node_Subscribe i room n) room' i' \<longleftrightarrow> (room' = room \<and> i' = i) \<or> subscribed n room' i'"
  by (auto simp: subscribed_def Node_Subscribe_def Let_def room_flag_def gm_has_def split: option.splits)

lemma subs_ok_Subscribe: "subs_ok n \<Longrightarrow> subs_ok (Node_Subscribe i room n)"
  by (auto simp: subs_ok_def Node_Subscribe_def Let_def gm_has_def gm_empty_iff split: if_splits)

lemma subscribed_Unsubscribe:
  "subs_ok n \<Longrightarrow> subscribed (Node_Unsubscribe i room n) room' i' \<longleftrightarrow>
     \<not> (room' = room \<and> i' = i) \<and> subscribed n room' i'"
proof (cases "gm_get (nd_roomSubscriptions n) i")
  case (Some rooms)
  have "gm_delete room rooms = [] \<Longrightarrow> room' \<noteq> room \<Longrightarrow> gm_get rooms room' = None"
    by (metis gm_get_delete map_of.simps(1))
  then show ?thesis using Some
    by (auto simp: subscribed_def Node_Unsubscribe_def Let_def room_flag_def split: option.splits)
qed (auto simp: subscribed_def Node_Unsubscribe_def)

lemma subs_ok_Unsubscribe: "subs_ok n \<Longrightarrow> subs_ok (Node_Unsubscribe i room n)"
  by (auto simp: subs_ok_def Node_Unsubscribe_def Let_def split: option.splits if_splits)

lemma subscribed_drop: "subscribed (drop_subscriptions i n) room' i' \<longleftrightarrow> i' \<noteq> i \<and> subscribed n room' i'"
  by (auto simp: subscribed_def drop_subscriptions_def split: option.splits)

lemma subs_ok_drop: "subs_ok n \<Longrightarrow> subs_ok (drop_subscriptions i n)"
  by (auto simp: subs_ok_def drop_subscriptions_def split: if_splits)

interpretation subs: subscriptions subs_ok subscribed "\<lambda>room i. Node_Subscribe i room"
    "\<lambda>room i. Node_Unsubscribe i room" drop_subscriptions
  by unfold_locales
    (simp_all add: subscribed_Subscribe subs_ok_Subscribe subscribed_Unsubscribe subs_ok_Unsubscribe
      subscribed_drop subs_ok_drop)

section \<open>The invariant\<close>

text \<open>A context a process may be derived from: under the node's, and under no process.\<close>

definition parent_ok :: "Node \<Rightarrow> nat \<Rightarrow> bool" where
  "parent_ok n p \<longleftrightarrow> p < length (nd_ctxs n) \<and> nd_ctx n \<in> set (ctx_line (nd_ctxs n) p) \<and>
     (\<forall>a<nd_next n. pr_ctx (nd_heap n a) \<notin> set (ctx_line (nd_ctxs n) p))"

definition proc_ok :: "Node \<Rightarrow> nat \<Rightarrow> bool" where
  "proc_ok n a \<longleftrightarrow> ch_ok (pr_mailbox (nd_heap n a)) \<and> 0 < ch_cap (pr_mailbox (nd_heap n a)) \<and>
     pr_ctx (nd_heap n a) < length (nd_ctxs n) \<and>
     nd_ctx n \<in> set (ctx_line (nd_ctxs n) (pr_ctx (nd_heap n a))) \<and>
     (\<forall>b<nd_next n. pr_ctx (nd_heap n b) \<in> set (ctx_line (nd_ctxs n) (pr_ctx (nd_heap n a))) \<longrightarrow> b = a) \<and>
     (\<not> pr_running (nd_heap n a) \<longrightarrow> ctx_done (nd_ctxs n) (pr_ctx (nd_heap n a)))"

definition entry_ok :: "Node \<Rightarrow> string \<Rightarrow> nat \<Rightarrow> bool" where
  "entry_ok n i a \<longleftrightarrow> a < nd_next n \<and> pr_ID (nd_heap n a) = i \<and> pr_alive (nd_heap n a) \<and>
     \<not> snd (nd_ctxs n ! pr_ctx (nd_heap n a))"

definition node_ok :: "Node \<Rightarrow> bool" where
  "node_ok n \<longleftrightarrow> gm_ok (nd_processes n) \<and> subs_ok n \<and> parent_ok n (nd_ctx n) \<and>
     (\<forall>a<nd_next n. proc_ok n a) \<and>
     (\<forall>i a. gm_get (nd_processes n) i = Some a \<longrightarrow> entry_ok n i a)"

lemma node_okD:
  assumes "node_ok n"
  shows "gm_ok (nd_processes n)" "subs_ok n" "parent_ok n (nd_ctx n)" "a < nd_next n \<Longrightarrow> proc_ok n a"
    "gm_get (nd_processes n) i = Some a \<Longrightarrow> entry_ok n i a"
  using assms by (auto simp: node_ok_def)

lemma subs_ok_cong: "nd_roomSubscriptions n' = nd_roomSubscriptions n \<Longrightarrow> subs_ok n' = subs_ok n"
  by (simp add: subs_ok_def)

lemma start_simps [simp]:
  "nd_next (start_process i f sz p n) = Suc (nd_next n)"
  "nd_ctx (start_process i f sz p n) = nd_ctx n"
  "nd_roomSubscriptions (start_process i f sz p n) = nd_roomSubscriptions n"
  "nd_processes (start_process i f sz p n) = gm_put i (nd_next n) (nd_processes n)"
  "nd_ctxs (start_process i f sz p n) = nd_ctxs n @ [(Some p, False)]"
  "nd_heap (start_process i f sz p n) = (nd_heap n)(nd_next n := new_process i f sz (length (nd_ctxs n)))"
  "nd_name (start_process i f sz p n) = nd_name n"
  by (simp_all add: start_process_def ctx_WithCancel_def)

lemma line_start:
  assumes "c < length (nd_ctxs n)"
  shows "ctx_line (nd_ctxs (start_process i f sz p n)) c = ctx_line (nd_ctxs n) c"
  using assms by (simp add: ctx_line_append)

lemma line_start_new:
  "p < length (nd_ctxs n) \<Longrightarrow> ctx_line (nd_ctxs (start_process i f sz p n)) (length (nd_ctxs n)) =
     length (nd_ctxs n) # ctx_line (nd_ctxs n) p"
  by (simp add: ctx_line_new)

lemma new_process_simps [simp]:
  "pr_ID (new_process i f sz c) = i" "pr_ctx (new_process i f sz c) = c"
  "pr_mailbox (new_process i f sz c) = make_chan sz" "pr_alive (new_process i f sz c)"
  "pr_running (new_process i f sz c)" "pr_Function (new_process i f sz c) = f"
  by (simp_all add: new_process_def)

lemma parent_ok_start:
  assumes "parent_ok n q" "parent_ok n p"
  shows "parent_ok (start_process i f sz p n) q"
proof -
  have "q < length (nd_ctxs n)" using assms(1) by (simp add: parent_ok_def)
  then have "length (nd_ctxs n) \<notin> set (ctx_line (nd_ctxs n) q)" by (auto dest: ctx_line_bound)
  then show ?thesis using assms(1) by (auto simp: parent_ok_def ctx_line_append less_Suc_eq)
qed

lemma ok_start:
  assumes ok: "node_ok n" and p: "parent_ok n p" and sz: "0 < sz"
  shows "node_ok (start_process i f sz p n)"
proof -
  let ?n = "start_process i f sz p n" and ?L = "length (nd_ctxs n)"
  note D = node_okD [OF ok]
  have lp: "p < ?L" using p by (simp add: parent_ok_def)
  have old: "pr_ctx (nd_heap n a) < ?L" if "a < nd_next n" for a
    using D(4) [OF that] by (simp add: proc_ok_def)
  have fresh: "?L \<notin> set (ctx_line (nd_ctxs n) c)" for c
    by (auto dest: ctx_line_bound)
  have "proc_ok ?n a" if "a < nd_next n" for a
    using D(4) [OF that] that old [OF that] fresh
    by (auto simp: proc_ok_def ctx_line_append less_Suc_eq ctx_done_append)
  moreover have "proc_ok ?n (nd_next n)"
    using p lp sz by (auto simp: proc_ok_def parent_ok_def ctx_line_new less_Suc_eq dest!: old)
  moreover have "entry_ok ?n j a" if "gm_get (nd_processes ?n) j = Some a" for j a
  proof (cases "j = i")
    case True
    then show ?thesis using that by (simp add: entry_ok_def nth_append)
  next
    case False
    then have "entry_ok n j a" using that D(5) by simp
    then show ?thesis using old by (auto simp: entry_ok_def nth_append)
  qed
  ultimately show ?thesis
    using D(1,2) parent_ok_start [OF D(3) p]
    by (auto simp: node_ok_def less_Suc_eq subs_ok_cong [of ?n n])
qed

text \<open>Operations that touch one process and leave the contexts.\<close>

lemma upd_proc_simps [simp]:
  "nd_processes (upd_proc a g n) = nd_processes n" "nd_ctxs (upd_proc a g n) = nd_ctxs n"
  "nd_ctx (upd_proc a g n) = nd_ctx n" "nd_next (upd_proc a g n) = nd_next n"
  "nd_heap (upd_proc a g n) = (nd_heap n)(a := g (nd_heap n a))"
  "nd_roomSubscriptions (upd_proc a g n) = nd_roomSubscriptions n" "nd_name (upd_proc a g n) = nd_name n"
  by (simp_all add: upd_proc_def)

lemma ok_upd_proc:
  assumes "node_ok n" and "pr_ctx (g (nd_heap n a)) = pr_ctx (nd_heap n a)"
    and "pr_ID (g (nd_heap n a)) = pr_ID (nd_heap n a)" and "pr_alive (g (nd_heap n a)) = pr_alive (nd_heap n a)"
    and "ch_cap (pr_mailbox (g (nd_heap n a))) = ch_cap (pr_mailbox (nd_heap n a))"
    and "ch_ok (pr_mailbox (nd_heap n a)) \<longrightarrow> ch_ok (pr_mailbox (g (nd_heap n a)))"
    and "\<not> pr_running (g (nd_heap n a)) \<longrightarrow> \<not> pr_running (nd_heap n a) \<or> ctx_done (nd_ctxs n) (pr_ctx (nd_heap n a))"
  shows "node_ok (upd_proc a g n)"
proof -
  have "proc_ok (upd_proc a g n) b" if "b < nd_next n" for b
    using node_okD(4) [OF assms(1) that] assms(2-) by (auto simp: proc_ok_def)
  moreover have "entry_ok (upd_proc a g n) i b" if "gm_get (nd_processes n) i = Some b" for i b
    using node_okD(5) [OF assms(1) that] assms(2-) by (auto simp: entry_ok_def)
  moreover have "parent_ok (upd_proc a g n) (nd_ctx n)"
    using node_okD(3) [OF assms(1)] assms(2) by (auto simp: parent_ok_def)
  ultimately show ?thesis using node_okD(1,2) [OF assms(1)]
    by (auto simp: node_ok_def subs_ok_cong [of "upd_proc a g n" n])
qed

lemma ok_mailbox:
  "node_ok n \<Longrightarrow> ch_cap c = ch_cap (pr_mailbox (nd_heap n a)) \<Longrightarrow>
     (ch_ok (pr_mailbox (nd_heap n a)) \<longrightarrow> ch_ok c) \<Longrightarrow> node_ok (upd_proc a (\<lambda>p. p\<lparr>pr_mailbox := c\<rparr>) n)"
  by (rule ok_upd_proc) simp_all

text \<open>Removing a process: its context is cancelled and its entry deleted.\<close>

lemma cancel_simps [simp]:
  "nd_processes (cancel_process a n) = nd_processes n" "nd_next (cancel_process a n) = nd_next n"
  "nd_ctxs (cancel_process a n) = ctx_cancel (pr_ctx (nd_heap n a)) (nd_ctxs n)"
  "nd_ctx (cancel_process a n) = nd_ctx n" "nd_heap (cancel_process a n) = nd_heap n"
  "nd_roomSubscriptions (cancel_process a n) = nd_roomSubscriptions n"
  by (simp_all add: cancel_process_def)

lemma stop_one_simps [simp]:
  "nd_processes (stop_one e n) = gm_delete (fst e) (nd_processes n)" "nd_next (stop_one e n) = nd_next n"
  "nd_ctxs (stop_one e n) = ctx_cancel (pr_ctx (nd_heap n (snd e))) (nd_ctxs n)"
  "nd_ctx (stop_one e n) = nd_ctx n" "nd_heap (stop_one e n) = nd_heap n"
  "nd_roomSubscriptions (stop_one e n) = nd_roomSubscriptions n"
  by (simp_all add: stop_one_def Let_def)

lemma proc_ctx_inj:
  assumes "node_ok n" "a < nd_next n" "b < nd_next n" "pr_ctx (nd_heap n a) = pr_ctx (nd_heap n b)"
  shows "a = b"
  using node_okD(4) [OF assms(1,3)] assms(2,3,4) by (auto simp: proc_ok_def)

lemma proc_ok_cancel: "nd_ctxs n' = ctx_cancel c (nd_ctxs n) \<Longrightarrow> nd_heap n' = nd_heap n \<Longrightarrow>
    nd_next n' = nd_next n \<Longrightarrow> nd_ctx n' = nd_ctx n \<Longrightarrow> proc_ok n a \<Longrightarrow> proc_ok n' a"
  by (auto simp: proc_ok_def ctx_done_cancel)

lemma parent_ok_cong: "nd_ctxs n' = ctx_cancel c (nd_ctxs n) \<Longrightarrow> nd_heap n' = nd_heap n \<Longrightarrow>
    nd_next n' = nd_next n \<Longrightarrow> nd_ctx n' = nd_ctx n \<Longrightarrow> parent_ok n p \<Longrightarrow> parent_ok n' p"
  by (simp add: parent_ok_def)

lemma parent_ok_upd:
  "parent_ok n q \<Longrightarrow> (\<And>p. pr_ctx (g p) = pr_ctx p) \<Longrightarrow> parent_ok (upd_proc a g n) q"
  by (auto simp: parent_ok_def)

lemma ok_stop_one:
  assumes ok: "node_ok n" and e: "gm_get (nd_processes n) (fst e) = Some (snd e)"
  shows "node_ok (stop_one e n)"
proof -
  let ?n = "stop_one e n"
  note D = node_okD [OF ok]
  have a: "snd e < nd_next n" "pr_ID (nd_heap n (snd e)) = fst e"
    using D(5) [OF e] by (simp_all add: entry_ok_def)
  have "entry_ok ?n j b" if "gm_get (nd_processes ?n) j = Some b" for j b
  proof -
    from that have j: "j \<noteq> fst e" and b: "entry_ok n j b" using D(5) by (auto split: if_splits)
    then have "snd e \<noteq> b" using a(2) by (auto simp: entry_ok_def)
    then have "pr_ctx (nd_heap n b) \<noteq> pr_ctx (nd_heap n (snd e))"
      using proc_ctx_inj [OF ok, of b "snd e"] a(1) b by (auto simp: entry_ok_def)
    then show ?thesis using b D(4) [of b] by (simp add: entry_ok_def proc_ok_def ctx_cancel_nth)
  qed
  moreover have "parent_ok ?n (nd_ctx ?n)"
    using parent_ok_cong [of ?n "pr_ctx (nd_heap n (snd e))" n] D(3) by simp
  moreover have "proc_ok ?n b" if "b < nd_next ?n" for b
    using proc_ok_cancel [of ?n "pr_ctx (nd_heap n (snd e))" n] D(4) that by simp
  ultimately show ?thesis using D(1,2) by (auto simp: node_ok_def subs_ok_cong [of ?n n])
qed

lemma ok_drop: "node_ok n \<Longrightarrow> node_ok (drop_subscriptions i n)"
  using subs_ok_drop [of n i]
  by (auto simp: node_ok_def parent_ok_def proc_ok_def entry_ok_def drop_subscriptions_def)

lemma ok_subs:
  "node_ok n \<Longrightarrow> subs_ok (n\<lparr>nd_roomSubscriptions := s\<rparr>) \<Longrightarrow> node_ok (n\<lparr>nd_roomSubscriptions := s\<rparr>)"
  by (auto simp: node_ok_def parent_ok_def proc_ok_def entry_ok_def)

lemma ok_Subscribe: "node_ok n \<Longrightarrow> node_ok (Node_Subscribe i room n)"
  using subs_ok_Subscribe [of n i room] node_okD(2) [of n]
  by (simp add: Node_Subscribe_def Let_def ok_subs)

lemma ok_Unsubscribe: "node_ok n \<Longrightarrow> node_ok (Node_Unsubscribe i room n)"
  using subs_ok_Unsubscribe [of n i room] node_okD(2) [of n]
  by (auto simp: Node_Unsubscribe_def Let_def intro!: ok_subs split: option.splits)

text \<open>A dead process without an entry.\<close>

lemma ok_mark_dead:
  assumes ok: "node_ok n" and e: "\<And>i. gm_get (nd_processes n) i \<noteq> Some a"
  shows "node_ok (upd_proc a (\<lambda>p. p\<lparr>pr_alive := False\<rparr>) n)"
proof -
  let ?n = "upd_proc a (\<lambda>p. p\<lparr>pr_alive := False\<rparr>) n"
  have "proc_ok ?n b" if "b < nd_next n" for b
    using node_okD(4) [OF ok that] by (auto simp: proc_ok_def)
  moreover have "entry_ok ?n i b" if "gm_get (nd_processes n) i = Some b" for i b
    using node_okD(5) [OF ok that] that e [of i] by (auto simp: entry_ok_def)
  moreover have "parent_ok ?n (nd_ctx n)" using node_okD(3) [OF ok] by (simp add: parent_ok_def)
  ultimately show ?thesis using node_okD(1,2) [OF ok] by (auto simp: node_ok_def subs_ok_cong [of ?n n])
qed

lemma Kill_eq:
  "gm_get (nd_processes n) i = Some a \<Longrightarrow> Node_Kill i n =
     (None, drop_subscriptions i (upd_proc a (\<lambda>p. p\<lparr>pr_alive := False\<rparr>) (stop_one (i, a) n)))"
  by (simp add: Node_Kill_def Let_def stop_one_def upd_proc_def cancel_process_def drop_subscriptions_def)

lemma ok_Kill: "node_ok n \<Longrightarrow> Node_Kill i n = (r, n') \<Longrightarrow> node_ok n'"
proof (cases "gm_get (nd_processes n) i")
  case (Some a)
  assume ok: "node_ok n" and k: "Node_Kill i n = (r, n')"
  have id: "pr_ID (nd_heap n a) = i" using node_okD(5) [OF ok Some] by (simp add: entry_ok_def)
  have "gm_get (nd_processes (stop_one (i, a) n)) j \<noteq> Some a" for j
    using node_okD(5) [OF ok, of j a] id by (auto simp: entry_ok_def)
  then have "node_ok (upd_proc a (\<lambda>p. p\<lparr>pr_alive := False\<rparr>) (stop_one (i, a) n))"
    using ok_stop_one [OF ok, of "(i, a)"] Some by (intro ok_mark_dead) simp_all
  then show ?thesis using k by (auto simp: Kill_eq [OF Some] intro: ok_drop)
qed (simp add: Node_Kill_def)

lemma ok_stop_fold:
  "node_ok n \<Longrightarrow> gm_ok es \<Longrightarrow> (\<And>e. e \<in> set es \<Longrightarrow> gm_get (nd_processes n) (fst e) = Some (snd e)) \<Longrightarrow>
     node_ok (fold stop_one es n)"
proof (induction es arbitrary: n)
  case (Cons e es)
  have "node_ok (stop_one e n)" using Cons.prems by (intro ok_stop_one) simp_all
  moreover have "gm_get (nd_processes (stop_one e n)) (fst e') = Some (snd e')" if "e' \<in> set es" for e'
  proof -
    have "fst e' \<noteq> fst e" using Cons.prems(2) that by (auto simp: gm_ok_def image_iff)
    then show ?thesis using Cons.prems(3) that by simp
  qed
  ultimately show ?case using Cons.IH [of "stop_one e n"] Cons.prems(2) by (simp add: gm_ok_def)
qed simp

lemma ok_cancel_node:
  assumes ok: "node_ok n"
  shows "node_ok (n\<lparr>nd_ctxs := ctx_cancel (nd_ctx n) (nd_ctxs n)\<rparr>)"
proof -
  let ?n = "n\<lparr>nd_ctxs := ctx_cancel (nd_ctx n) (nd_ctxs n)\<rparr>"
  have "entry_ok ?n i a" if "gm_get (nd_processes n) i = Some a" for i a
  proof -
    have e: "entry_ok n i a" by (rule node_okD(5) [OF ok that])
    then have a: "a < nd_next n" by (simp add: entry_ok_def)
    then have "pr_ctx (nd_heap n a) \<notin> set (ctx_line (nd_ctxs n) (nd_ctx n))"
      and "nd_ctx n \<in> set (ctx_line (nd_ctxs n) (nd_ctx n))"
      using node_okD(3) [OF ok] unfolding parent_ok_def by blast+
    then have "pr_ctx (nd_heap n a) \<noteq> nd_ctx n" by metis
    moreover have "pr_ctx (nd_heap n a) < length (nd_ctxs n)"
      using node_okD(4) [OF ok a] by (simp add: proc_ok_def)
    ultimately show ?thesis using e by (simp add: entry_ok_def ctx_cancel_nth)
  qed
  moreover have "parent_ok ?n (nd_ctx n)" using parent_ok_cong [of ?n "nd_ctx n" n] node_okD(3) [OF ok] by simp
  moreover have "proc_ok ?n b" if "b < nd_next n" for b
    using proc_ok_cancel [of ?n "nd_ctx n" n] node_okD(4) [OF ok] that by simp
  ultimately show ?thesis using node_okD(1,2) [OF ok] by (auto simp: node_ok_def subs_ok_cong [of ?n n])
qed

lemma ok_Stop: "node_ok n \<Longrightarrow> node_ok (Node_Stop n)"
  unfolding Node_Stop_def Let_def
  by (rule ok_stop_fold [OF ok_cancel_node])
    (auto simp: node_okD(1) gm_entries_iff [OF node_okD(1), symmetric])

section \<open>The invariant is kept\<close>

lemma ok_spawn_process: "node_ok n \<Longrightarrow> 0 < sz \<Longrightarrow> node_ok (start_process i f sz (nd_ctx n) n)"
  using ok_start node_okD(3) by blast

lemma ok_counter: "node_ok n \<Longrightarrow> node_ok (n\<lparr>nd_nextProcessID := k\<rparr>)"
  by (auto simp: node_ok_def parent_ok_def proc_ok_def entry_ok_def subs_ok_def)

lemma ok_generate: "node_ok n \<Longrightarrow> Node_generateProcessID clock n = (i, n') \<Longrightarrow> node_ok n'"
  by (auto simp: Node_generateProcessID_def Let_def intro: ok_counter)

lemma ok_SpawnWithID: "node_ok n \<Longrightarrow> Node_SpawnProcessWithID i f n = (r, n') \<Longrightarrow> node_ok n'"
  by (auto simp: Node_SpawnProcessWithID_def intro: ok_spawn_process split: if_splits)

lemma ok_SpawnOptions: "node_ok n \<Longrightarrow> Node_SpawnProcessWithIDAndOptions i f opts n = (r, n') \<Longrightarrow> node_ok n'"
  by (auto simp: Node_SpawnProcessWithIDAndOptions_def Let_def intro: ok_spawn_process split: if_splits)

lemma ok_try_send: "node_ok n \<Longrightarrow> ch_try_send m (pr_mailbox (nd_heap n a)) = Some c \<Longrightarrow>
    node_ok (upd_proc a (\<lambda>p. p\<lparr>pr_mailbox := c\<rparr>) n)"
  by (rule ok_mailbox) (auto simp: ch_send_iff ch_ok_def)

lemma ok_blocking_sends: "node_ok n \<Longrightarrow> node_ok (snd (blocking_sends ms n))"
  by (induction ms n rule: blocking_sends.induct) (auto intro: ok_try_send split: option.split)

lemma ok_nstep: "nstep n n' \<Longrightarrow> node_ok n \<Longrightarrow> node_ok n'"
proof (induction rule: nstep.induct)
  case (spawn_fresh clock f n r n')
  then show ?case
    by (auto simp: Node_SpawnProcess_def intro: ok_SpawnWithID ok_generate split: prod.splits)
next
  case (spawn_fresh_opts clock f opts n r n')
  then show ?case
    by (auto simp: Node_SpawnProcessWithOptions_def intro: ok_SpawnOptions ok_generate split: prod.splits)
next
  case (send i m n r n')
  then show ?case
    by (auto simp: Node_Send_def intro: ok_try_send split: option.splits if_splits)
next
  case (notify ms n rest n')
  then show ?case using ok_blocking_sends [of n ms] by simp
next
  case (take a n m n')
  then show ?case
    by (auto simp: proc_take_def ch_try_recv_def ch_ok_def intro!: ok_mailbox split: if_splits option.splits list.splits)
next
  case (exit a n n')
  then show ?case by (auto simp: proc_exit_def intro!: ok_upd_proc split: if_splits)
qed (auto intro: ok_SpawnWithID ok_SpawnOptions ok_Kill ok_Stop ok_Subscribe ok_Unsubscribe)

abbreviation nreach :: "Node \<Rightarrow> Node \<Rightarrow> bool" where
  "nreach \<equiv> reaches nstep"

interpretation nodes: safe_system nstep node_ok
  by unfold_locales (rule ok_nstep)

lemmas ok_nreach = nodes.reach_inv

lemma ok_NewNode: "node_ok (fst (NewNode name opts hs w))"
proof -
  have "ctx_line [(None, False)] 0 = [0]" by (subst ctx_line.simps) simp
  then show ?thesis
    by (simp add: NewNode_def ctx_WithCancel_def Let_def node_ok_def subs_ok_def parent_ok_def)
qed

end
