(* ===== verification/NodeProps.thy ===== *)
theory NodeProps
  imports NodeSteps
begin

text \<open>
  The properties of a node: what its operations promise about processes, mailboxes, identifiers
  and room notifications, and the process that survives its own replacement.
\<close>

section \<open>Every registered process is alive\<close>

text \<open>C9. In every state a node reaches, an entry of the process map leads to a live process with
  that identifier whose own context is not cancelled.  So \<open>Send\<close> and \<open>Kill\<close> report
  \<open>ErrProcessNotFound\<close> exactly for identifiers without an entry, and \<open>Send\<close> fails otherwise
  only when the mailbox is full; it never waits.\<close>

theorem node_invariant:
  assumes "nreach (fst (NewNode name opts hs w)) n"
  shows "node_ok n \<and>
    (fst (Node_Send i m n) = Some ErrProcessNotFound \<longleftrightarrow> gm_get (nd_processes n) i = None) \<and>
    (fst (Node_Kill i n) = Some ErrProcessNotFound \<longleftrightarrow> gm_get (nd_processes n) i = None) \<and>
    (fst (Node_Send i m n) = Some (ErrNew ''mailbox full'') \<longleftrightarrow>
       (\<exists>a. gm_get (nd_processes n) i = Some a \<and>
          length (ch_buf (pr_mailbox (nd_heap n a))) = ch_cap (pr_mailbox (nd_heap n a))))"
proof -
  have ok: "node_ok n" by (rule ok_nreach [OF assms ok_NewNode])
  show ?thesis
  proof (cases "gm_get (nd_processes n) i")
    case (Some a)
    have e: "entry_ok n i a" by (rule node_okD(5) [OF ok Some])
    then have "ch_ok (pr_mailbox (nd_heap n a))"
      using node_okD(4) [OF ok, of a] by (simp add: entry_ok_def proc_ok_def)
    then show ?thesis using ok Some e
      by (auto simp: Node_Send_def Kill_eq entry_ok_def ch_send_iff ch_send_None ch_ok_def split: option.splits)
  qed (use ok in \<open>simp add: Node_Send_def Node_Kill_def\<close>)
qed

definition demo_node :: Node where
  "demo_node = fst (NewNode ''n'' [] (0, 0, 0) (new_world default_server))"

lemma ok_demo_node: "node_ok demo_node"
  by (simp add: demo_node_def ok_NewNode)

definition demo_node1 :: Node where
  "demo_node1 = start_process ''p'' 7 100 0 demo_node"

lemma demo_node_simps:
  "nd_processes demo_node = []" "nd_ctx demo_node = 0" "nd_ctxs demo_node = [(None, False)]"
  "nd_next demo_node = 0" "nd_roomSubscriptions demo_node = []"
  by (simp_all add: demo_node_def NewNode_def ctx_WithCancel_def Let_def)

lemma demo_not_done: "\<not> ctx_done (nd_ctxs demo_node) (nd_ctx demo_node)"
  by (simp add: demo_node_simps ctx_done_def ctx_line.simps)

lemma demo_spawn: "Node_SpawnProcessWithID ''p'' 7 demo_node = (Inr ''p'', demo_node1)"
  using demo_not_done by (simp add: Node_SpawnProcessWithID_def demo_node1_def demo_node_simps)

lemma demo_node1_simps:
  "gm_get (nd_processes demo_node1) ''p'' = Some 0" "nd_heap demo_node1 0 = new_process ''p'' 7 100 1"
  "nd_processes demo_node1 = [(''p'', 0)]"
  "nd_ctx demo_node1 = 0" "nd_ctxs demo_node1 = [(None, False), (Some 0, False)]" "nd_next demo_node1 = 1"
  "nd_roomSubscriptions demo_node1 = []"
  by (simp_all add: demo_node1_def demo_node_simps gm_put_def)

lemma demo_reach: "nreach demo_node demo_node1"
  by (rule reaches_one [where step = nstep, OF nstep.spawn [OF demo_spawn]])

lemma ok_demo_node1: "node_ok demo_node1"
  by (rule ok_nreach [OF demo_reach ok_demo_node])

theorem node_invariant_witness:
  "nreach (fst (NewNode ''n'' [] (0, 0, 0) (new_world default_server))) demo_node1 \<and> node_ok demo_node1 \<and>
   fst (Node_Send ''q'' GNil demo_node1) = Some ErrProcessNotFound"
  using node_invariant [OF demo_reach [unfolded demo_node_def], of "''q''" GNil] demo_reach
  by (simp add: demo_node_def demo_node1_simps)

section \<open>Mailboxes\<close>

datatype mb_op = MbSend gval | MbTake

text \<open>Sends to a process and turns of its goroutine, in any order: the accepted messages, the
  messages handed to the function, the node.\<close>

fun mb_run :: "string \<Rightarrow> nat \<Rightarrow> mb_op list \<Rightarrow> Node \<Rightarrow> gval list \<times> gval list \<times> Node" where
  "mb_run i a [] n = ([], [], n)"
| "mb_run i a (MbSend m # xs) n =
     (case Node_Send i m n of (err, n') \<Rightarrow>
        case mb_run i a xs n' of (acc, tk, n'') \<Rightarrow> ((if err = None then m # acc else acc), tk, n''))"
| "mb_run i a (MbTake # xs) n =
     (case proc_take a n of
        None \<Rightarrow> mb_run i a xs n
      | Some (m, n') \<Rightarrow> (case mb_run i a xs n' of (acc, tk, n'') \<Rightarrow> (acc, m # tk, n'')))"

lemma Send_entry:
  assumes "node_ok n" and "gm_get (nd_processes n) i = Some a"
  obtains (accepted) c where "Node_Send i m n = (None, upd_proc a (\<lambda>p. p\<lparr>pr_mailbox := c\<rparr>) n)"
      "ch_buf c = ch_buf (pr_mailbox (nd_heap n a)) @ [m]" "ch_cap c = ch_cap (pr_mailbox (nd_heap n a))"
  | (full) "Node_Send i m n = (Some (ErrNew ''mailbox full''), n)"
proof (cases "ch_try_send m (pr_mailbox (nd_heap n a))")
  case None
  then show ?thesis using node_okD(5) [OF assms] assms(2) full by (simp add: Node_Send_def entry_ok_def)
next
  case (Some c)
  have "Node_Send i m n = (None, upd_proc a (\<lambda>p. p\<lparr>pr_mailbox := c\<rparr>) n)"
    using node_okD(5) [OF assms] assms(2) Some by (simp add: Node_Send_def entry_ok_def)
  from accepted [OF this] ch_send_SomeD [OF Some] show ?thesis by blast
qed

lemma take_entry:
  obtains (none) "proc_take a n = None"
  | (some) m c where "proc_take a n = Some (m, upd_proc a (\<lambda>p. p\<lparr>pr_mailbox := c\<rparr>) n)"
      "ch_buf (pr_mailbox (nd_heap n a)) = m # ch_buf c" "ch_cap c = ch_cap (pr_mailbox (nd_heap n a))"
proof (cases "proc_take a n")
  case (Some x)
  then obtain m c where "ch_try_recv (pr_mailbox (nd_heap n a)) = Some (m, c)"
      and "proc_take a n = Some (m, upd_proc a (\<lambda>p. p\<lparr>pr_mailbox := c\<rparr>) n)"
    by (auto simp: proc_take_def split: if_splits option.splits)
  from some [OF this(2)] ch_recv_SomeD [OF this(1)] show ?thesis by blast
qed (rule none)



section \<open>Killing and stopping\<close>

text \<open>\<open>Kill\<close> ends exactly one process: its context is done, its entry and its subscriptions
  are gone, so a later \<open>Send\<close> to it fails; every other process keeps its entry, its mailbox,
  its state and its subscriptions.\<close>

theorem Kill_ends_one_process:
  assumes "node_ok n" and "gm_get (nd_processes n) i = Some a" and "Node_Kill i n = (r, n')"
  shows "r = None \<and> node_ok n' \<and> ctx_done (nd_ctxs n') (pr_ctx (nd_heap n' a)) \<and>
    fst (Node_Send i m n') = Some ErrProcessNotFound \<and> \<not> subscribed n' room i \<and>
    (\<forall>j. j \<noteq> i \<longrightarrow> gm_get (nd_processes n') j = gm_get (nd_processes n) j \<and>
       subscribed n' room j = subscribed n room j) \<and>
    (\<forall>b<nd_next n. b \<noteq> a \<longrightarrow> nd_heap n' b = nd_heap n b \<and>
       ctx_done (nd_ctxs n') (pr_ctx (nd_heap n b)) = ctx_done (nd_ctxs n) (pr_ctx (nd_heap n b)))"
proof -
  let ?n = "upd_proc a (\<lambda>p. p\<lparr>pr_alive := False\<rparr>) (stop_one (i, a) n)"
  have r: "r = None" and n': "n' = drop_subscriptions i ?n" using assms(3) by (simp_all add: Kill_eq [OF assms(2)])
  have a: "a < nd_next n" using node_okD(5) [OF assms(1,2)] by (simp add: entry_ok_def)
  have p: "nd_processes n' = gm_delete i (nd_processes n)"
    and c: "nd_ctxs n' = ctx_cancel (pr_ctx (nd_heap n a)) (nd_ctxs n)"
    and h: "nd_heap n' = (nd_heap n)(a := (nd_heap n a)\<lparr>pr_alive := False\<rparr>)"
    by (simp_all add: n' drop_subscriptions_def)
  have "pr_ctx (nd_heap n a) < length (nd_ctxs n)" using node_okD(4) [OF assms(1) a] by (simp add: proc_ok_def)
  then have d: "ctx_done (nd_ctxs n') (pr_ctx (nd_heap n' a))" by (simp add: c h ctx_done_cancel)
  have s: "subscribed n' room j \<longleftrightarrow> j \<noteq> i \<and> subscribed n room j" for j
    by (simp add: n' subscribed_drop) (simp add: subscribed_def)
  have o: "ctx_done (nd_ctxs n') (pr_ctx (nd_heap n b)) = ctx_done (nd_ctxs n) (pr_ctx (nd_heap n b))"
    if "b < nd_next n" "b \<noteq> a" for b
    using node_okD(4) [OF assms(1) that(1)] a that(2) by (auto simp: c ctx_done_cancel proc_ok_def)
  show ?thesis using r d s o ok_Kill [OF assms(1,3)] by (simp add: p h Node_Send_def)
qed

theorem Kill_ends_one_process_witness:
  "\<exists>n'. Node_Kill ''p'' demo_node1 = (None, n') \<and> fst (Node_Send ''p'' GNil n') = Some ErrProcessNotFound"
proof -
  obtain r n' where k: "Node_Kill ''p'' demo_node1 = (r, n')" by fastforce
  from Kill_ends_one_process [OF ok_demo_node1 demo_node1_simps(1) k, of GNil] k show ?thesis by blast
qed

lemma stop_fold_simps [simp]:
  "nd_heap (fold stop_one es n) = nd_heap n" "nd_next (fold stop_one es n) = nd_next n"
  "nd_ctx (fold stop_one es n) = nd_ctx n"
  "nd_roomSubscriptions (fold stop_one es n) = nd_roomSubscriptions n"
  by (induction es arbitrary: n) simp_all

lemma stop_fold_line [simp]: "ctx_line (nd_ctxs (fold stop_one es n)) c = ctx_line (nd_ctxs n) c"
  by (induction es arbitrary: n) simp_all

lemma stop_fold_done: "ctx_done (nd_ctxs n) c \<Longrightarrow> ctx_done (nd_ctxs (fold stop_one es n)) c"
  by (induction es arbitrary: n) (simp_all add: ctx_done_cancel)

lemma stop_fold_entries:
  "gm_get (nd_processes (fold stop_one es n)) i = (if i \<in> set (map fst es) then None else gm_get (nd_processes n) i)"
  by (induction es arbitrary: n) simp_all

text \<open>C26. After \<open>Stop\<close> every process the node ever had is done, the node has no entries, and it
  starts nothing any more: every spawn reports \<open>ErrNodeStopped\<close> and changes nothing, and every
  send fails.\<close>

theorem Stop_ends_everything:
  assumes "node_ok n" and "n' = Node_Stop n"
  shows "(\<forall>a<nd_next n. ctx_done (nd_ctxs n') (pr_ctx (nd_heap n' a))) \<and>
    (\<forall>i. gm_get (nd_processes n') i = None) \<and>
    Node_SpawnProcessWithID i f n' = (Inl ErrNodeStopped, n') \<and>
    Node_SpawnProcessWithIDAndOptions i f opts n' = (Inl ErrNodeStopped, n') \<and>
    Node_Send i m n' = (Some ErrProcessNotFound, n')"
proof -
  let ?c = "n\<lparr>nd_ctxs := ctx_cancel (nd_ctx n) (nd_ctxs n)\<rparr>"
  have n': "n' = fold stop_one (nd_processes n) ?c" by (simp add: assms(2) Node_Stop_def)
  have cdone: "ctx_done (nd_ctxs n') c" if "nd_ctx n \<in> set (ctx_line (nd_ctxs n) c)" for c
    unfolding n' by (rule stop_fold_done) (simp add: ctx_done_cancel that)
  have node: "ctx_done (nd_ctxs n') (nd_ctx n')"
    using cdone [of "nd_ctx n"] node_okD(3) [OF assms(1)] by (simp add: n' parent_ok_def)
  have "ctx_done (nd_ctxs n') (pr_ctx (nd_heap n' a))" if "a < nd_next n" for a
    using cdone node_okD(4) [OF assms(1) that] by (simp add: n' proc_ok_def)
  moreover have "gm_get (nd_processes n') j = None" for j
    by (simp add: n' stop_fold_entries) (metis map_of_eq_None_iff image_set)
  ultimately show ?thesis using node
    by (simp add: Node_SpawnProcessWithID_def Node_SpawnProcessWithIDAndOptions_def Node_Send_def)
qed

theorem Stop_ends_everything_witness:
  "Node_SpawnProcessWithID ''q'' 1 (Node_Stop demo_node1) = (Inl ErrNodeStopped, Node_Stop demo_node1)"
  using Stop_ends_everything [OF ok_demo_node1 HOL.refl, of "''q''" 1] by blast

section \<open>Room notifications\<close>

definition mb_full :: "Node \<Rightarrow> nat \<Rightarrow> bool" where
  "mb_full n a \<longleftrightarrow> ch_cap (pr_mailbox (nd_heap n a)) \<le> length (ch_buf (pr_mailbox (nd_heap n a)))"

lemma blocking_sends_frame:
  assumes "distinct (map fst ms)"
  shows "fst (blocking_sends ms n) = dropWhile (\<lambda>e. \<not> mb_full n (fst e)) ms \<and>
    ch_buf (pr_mailbox (nd_heap (snd (blocking_sends ms n)) b)) = ch_buf (pr_mailbox (nd_heap n b)) @
      map snd (filter (\<lambda>e. fst e = b) (takeWhile (\<lambda>e. \<not> mb_full n (fst e)) ms))"
  using assms
proof (induction ms n rule: blocking_sends.induct)
  case (2 a m ms n)
  show ?case
  proof (cases "ch_try_send m (pr_mailbox (nd_heap n a))")
    case None
    then have "mb_full n a" by (simp add: mb_full_def ch_send_None)
    then show ?thesis by (simp add: None)
  next
    case (Some c)
    let ?n = "upd_proc a (\<lambda>p. p\<lparr>pr_mailbox := c\<rparr>) n"
    have nf: "\<not> mb_full n a" using Some by (auto simp: mb_full_def ch_send_iff)
    have same: "mb_full ?n (fst e) = mb_full n (fst e)" if "e \<in> set ms" for e
      using that 2(2) by (auto simp: mb_full_def)
    then have "dropWhile (\<lambda>e. \<not> mb_full ?n (fst e)) ms = dropWhile (\<lambda>e. \<not> mb_full n (fst e)) ms"
      and "takeWhile (\<lambda>e. \<not> mb_full ?n (fst e)) ms = takeWhile (\<lambda>e. \<not> mb_full n (fst e)) ms"
      by (auto intro: dropWhile_cong takeWhile_cong)
    then show ?thesis using 2(1) [OF Some] 2(2) Some nf ch_send_SomeD [OF Some] by simp
  qed
qed simp

lemma live_targets_eq:
  assumes "node_ok n"
  shows "live_targets n pids = List.map_filter (gm_get (nd_processes n)) pids"
proof -
  have "(case gm_get (nd_processes n) pid of None \<Rightarrow> [] | Some a \<Rightarrow> if pr_alive (nd_heap n a) then [a] else []) =
      (case gm_get (nd_processes n) pid of None \<Rightarrow> [] | Some a \<Rightarrow> [a])" for pid
    using node_okD(5) [OF assms, of pid] by (auto simp: entry_ok_def split: option.split)
  then show ?thesis unfolding live_targets_def
    by (induction pids) (simp_all split: option.split)
qed

lemma live_targets_set:
  "node_ok n \<Longrightarrow> set (live_targets n pids) = {a. \<exists>i\<in>set pids. gm_get (nd_processes n) i = Some a}"
  by (simp add: live_targets_eq) (induction pids, auto split: option.split)

lemma live_targets_distinct:
  assumes "node_ok n"
  shows "distinct pids \<Longrightarrow> distinct (live_targets n pids)"
proof (induction pids)
  case (Cons i pids)
  have "a \<notin> set (live_targets n pids)" if "gm_get (nd_processes n) i = Some a" for a
    using node_okD(5) [OF assms that] Cons.prems node_okD(5) [OF assms, of _ a]
    by (auto simp: live_targets_set [OF assms] entry_ok_def)
  then show ?case using Cons live_targets_eq [OF assms] by (auto split: option.split)
qed (simp add: live_targets_def)

lemma room_targets_props:
  assumes "node_ok n"
  shows "distinct (room_targets n room)"
    and "set (room_targets n room) = {a. \<exists>i. subscribed n room i \<and> gm_get (nd_processes n) i = Some a}"
proof -
  let ?m = "nd_roomSubscriptions n"
  have k: "gm_ok ?m" using node_okD(2) [OF assms] by (simp add: subs_ok_def)
  then have "distinct (map fst (filter (\<lambda>e. room_flag (snd e) room) ?m))"
    by (simp add: gm_ok_def distinct_map_filter)
  then show "distinct (room_targets n room)"
    unfolding room_targets_def by (rule live_targets_distinct [OF assms])
  have "i \<in> set (map fst (filter (\<lambda>e. room_flag (snd e) room) ?m)) \<longleftrightarrow> subscribed n room i" for i
  proof -
    have "i \<in> set (map fst (filter (\<lambda>e. room_flag (snd e) room) ?m)) \<longleftrightarrow>
        (\<exists>rooms. gm_get ?m i = Some rooms \<and> room_flag rooms room)"
      using gm_entries_iff [OF k] by force
    then show ?thesis by (auto simp: subscribed_def split: option.split)
  qed
  then show "set (room_targets n room) = {a. \<exists>i. subscribed n room i \<and> gm_get (nd_processes n) i = Some a}"
    unfolding room_targets_def live_targets_set [OF assms] by blast
qed



section \<open>Replaced processes\<close>

lemma blocking_sends_keeps:
  "nd_processes (snd (blocking_sends ms n)) = nd_processes n \<and> nd_next (snd (blocking_sends ms n)) = nd_next n \<and>
   nd_ctxs (snd (blocking_sends ms n)) = nd_ctxs n \<and> nd_ctx (snd (blocking_sends ms n)) = nd_ctx n \<and>
   pr_ctx (nd_heap (snd (blocking_sends ms n)) a) = pr_ctx (nd_heap n a)"
  by (induction ms n rule: blocking_sends.induct) (auto split: option.split)

text \<open>The steps of a node, as far as processes and contexts are concerned.\<close>

lemma nstep_effect:
  assumes "nstep n n'" and "node_ok n"
  obtains (same) "nd_processes n' = nd_processes n" "nd_next n' = nd_next n" "nd_ctxs n' = nd_ctxs n"
      "nd_ctx n' = nd_ctx n" "\<And>a. pr_ctx (nd_heap n' a) = pr_ctx (nd_heap n a)"
  | (start) i where "nd_processes n' = gm_put i (nd_next n) (nd_processes n)" "nd_next n' = Suc (nd_next n)"
      "nd_ctxs n' = nd_ctxs n @ [(Some (nd_ctx n), False)]" "nd_ctx n' = nd_ctx n"
      "\<And>a. pr_ctx (nd_heap n' a) = (if a = nd_next n then length (nd_ctxs n) else pr_ctx (nd_heap n a))"
  | (kill) i a where "gm_get (nd_processes n) i = Some a" "nd_processes n' = gm_delete i (nd_processes n)"
      "nd_next n' = nd_next n" "nd_ctxs n' = ctx_cancel (pr_ctx (nd_heap n a)) (nd_ctxs n)"
      "nd_ctx n' = nd_ctx n" "\<And>a. pr_ctx (nd_heap n' a) = pr_ctx (nd_heap n a)"
  | (stop) "n' = Node_Stop n"
proof -
  have counter: "Node_generateProcessID clock m = (i, m') \<Longrightarrow> m' = m\<lparr>nd_nextProcessID := nd_nextProcessID m + 1\<rparr>"
    for clock m i m' by (auto simp: Node_generateProcessID_def Let_def)
  show thesis
    using assms(1)
  proof cases
    case (spawn i f r)
    then show thesis by (auto simp: Node_SpawnProcessWithID_def intro: same start split: if_splits)
  next
    case (spawn_fresh clock f r)
    then show thesis
      by (auto simp: Node_SpawnProcess_def Node_SpawnProcessWithID_def dest!: counter
          intro: same start split: if_splits prod.splits)
  next
    case (spawn_opts i f opts r)
    then show thesis
      by (auto simp: Node_SpawnProcessWithIDAndOptions_def Let_def intro: same start split: if_splits)
  next
    case (spawn_fresh_opts clock f opts r)
    then show thesis
      by (auto simp: Node_SpawnProcessWithOptions_def Node_SpawnProcessWithIDAndOptions_def Let_def dest!: counter
          intro: same start split: if_splits prod.splits)
  next
    case (send i m r)
    then show thesis by (auto simp: Node_Send_def intro!: same split: if_splits option.splits)
  next
    case (kill i r)
    then show thesis
    proof (cases "gm_get (nd_processes n) i")
      case (Some a)
      then show thesis using kill by (intro that(3) [OF Some]) (auto simp: Kill_eq drop_subscriptions_def)
    qed (auto simp: Node_Kill_def intro!: same)
  next
    case (subscribe i room)
    then show thesis by (auto simp: Node_Subscribe_def Let_def intro!: same)
  next
    case (unsubscribe i room)
    then show thesis by (auto simp: Node_Unsubscribe_def Let_def intro!: same split: option.splits)
  next
    case (notify ms rest)
    then show thesis using blocking_sends_keeps [of ms n] by (auto intro!: same)
  next
    case (take a m)
    then show thesis by (auto simp: proc_take_def intro!: same split: if_splits option.splits)
  next
    case (exit a)
    then show thesis by (auto simp: proc_exit_def intro!: same split: if_splits)
  qed (auto intro: stop)
qed

text \<open>A process that no entry leads to and whose context ends only with the node's.\<close>

definition direct_child :: "Node \<Rightarrow> nat \<Rightarrow> bool" where
  "direct_child n a \<longleftrightarrow> ctx_line (nd_ctxs n) (pr_ctx (nd_heap n a)) =
     pr_ctx (nd_heap n a) # ctx_line (nd_ctxs n) (nd_ctx n)"

definition orphan :: "Node \<Rightarrow> nat \<Rightarrow> bool" where
  "orphan n a \<longleftrightarrow> a < nd_next n \<and> (\<forall>j. gm_get (nd_processes n) j \<noteq> Some a) \<and>
     \<not> snd (nd_ctxs n ! pr_ctx (nd_heap n a)) \<and> direct_child n a"

lemma orphan_done:
  "orphan n a \<Longrightarrow> ctx_done (nd_ctxs n) (pr_ctx (nd_heap n a)) \<longleftrightarrow> ctx_done (nd_ctxs n) (nd_ctx n)"
  by (simp add: orphan_def direct_child_def ctx_done_def)

lemma stop_fold_flag:
  assumes "c < length (nd_ctxs n)" and "\<And>e. e \<in> set es \<Longrightarrow> pr_ctx (nd_heap n (snd e)) \<noteq> c"
  shows "snd (nd_ctxs (fold stop_one es n) ! c) = snd (nd_ctxs n ! c)"
  using assms
proof (induction es arbitrary: n)
  case (Cons e es)
  have "snd (nd_ctxs (stop_one e n) ! c) = snd (nd_ctxs n ! c)"
    using Cons.prems(1) Cons.prems(2) [of e] by (auto simp: ctx_cancel_nth)
  moreover have "snd (nd_ctxs (fold stop_one es (stop_one e n)) ! c) = snd (nd_ctxs (stop_one e n) ! c)"
    using Cons.prems by (intro Cons.IH) auto
  ultimately show ?case by simp
qed simp

lemma direct_child_step:
  assumes "nstep n n'" "node_ok n" "a < nd_next n" "direct_child n a"
  shows "direct_child n' a"
proof -
  have l: "pr_ctx (nd_heap n a) < length (nd_ctxs n)" "nd_ctx n < length (nd_ctxs n)"
    using node_okD(3) [OF assms(2)] node_okD(4) [OF assms(2,3)] by (simp_all add: proc_ok_def parent_ok_def)
  from assms(1,2) show ?thesis
  proof (cases rule: nstep_effect)
    case (start i)
    then show ?thesis using assms(3,4) l by (simp add: direct_child_def ctx_line_append)
  qed (use assms(4) in \<open>simp_all add: direct_child_def Node_Stop_def Let_def\<close>)
qed

lemma orphan_step:
  assumes "nstep n n'" "node_ok n" "orphan n a"
  shows "orphan n' a"
proof -
  have a: "a < nd_next n" "\<And>j. gm_get (nd_processes n) j \<noteq> Some a" "\<not> snd (nd_ctxs n ! pr_ctx (nd_heap n a))"
    "direct_child n a" using assms(3) by (auto simp: orphan_def)
  have l: "pr_ctx (nd_heap n a) < length (nd_ctxs n)"
    using node_okD(4) [OF assms(2) a(1)] by (simp add: proc_ok_def)
  have d: "direct_child n' a" by (rule direct_child_step [OF assms(1,2) a(1,4)])
  have ne: "pr_ctx (nd_heap n b) \<noteq> pr_ctx (nd_heap n a)" if "gm_get (nd_processes n) j = Some b" for j b
  proof
    assume "pr_ctx (nd_heap n b) = pr_ctx (nd_heap n a)"
    moreover have "b < nd_next n" using node_okD(5) [OF assms(2) that] by (simp add: entry_ok_def)
    ultimately have "b = a" using proc_ctx_inj [OF assms(2)] a(1) by blast
    then show False using that a(2) by blast
  qed
  from assms(1,2) show ?thesis
  proof (cases rule: nstep_effect)
    case same
    then show ?thesis using a d by (simp add: orphan_def)
  next
    case (start i)
    then show ?thesis using a d l by (simp add: orphan_def nth_append)
  next
    case (kill i b)
    then show ?thesis using a d l ne [OF kill(1)] by (simp add: orphan_def ctx_cancel_nth)
  next
    case stop
    let ?c = "n\<lparr>nd_ctxs := ctx_cancel (nd_ctx n) (nd_ctxs n)\<rparr>"
    have n': "n' = fold stop_one (nd_processes n) ?c" by (simp add: stop Node_Stop_def)
    have "nd_ctx n \<in> set (ctx_line (nd_ctxs n) (nd_ctx n))"
      "pr_ctx (nd_heap n a) \<notin> set (ctx_line (nd_ctxs n) (nd_ctx n))"
      using node_okD(3) [OF assms(2)] a(1) unfolding parent_ok_def by blast+
    then have "pr_ctx (nd_heap n a) \<noteq> nd_ctx n" by metis
    moreover have "snd (nd_ctxs n' ! pr_ctx (nd_heap n a)) = snd (nd_ctxs ?c ! pr_ctx (nd_heap n a))"
      unfolding n' using l ne node_okD(1) [OF assms(2)]
      by (intro stop_fold_flag) (auto simp: gm_entries_iff)
    ultimately have "\<not> snd (nd_ctxs n' ! pr_ctx (nd_heap n' a))" using a(3) l by (simp add: ctx_cancel_nth n')
    then show ?thesis using a d by (simp add: orphan_def n' stop_fold_entries)
  qed
qed

interpretation orphans: safe_system nstep "\<lambda>n. node_ok n \<and> orphan n a" for a
  by unfold_locales (auto intro: orphan_step ok_nstep)

lemma orphan_reach: "nreach n n' \<Longrightarrow> node_ok n \<Longrightarrow> orphan n a \<Longrightarrow> orphan n' a"
  using orphans.reach_inv by blast

lemma direct_children:
  "nreach (fst (NewNode name opts hs w)) n \<Longrightarrow> \<forall>a<nd_next n. direct_child n a"
proof (induction rule: reaches.induct)
  case start
  then show ?case by (simp add: NewNode_def ctx_WithCancel_def Let_def)
next
  case (step n n')
  have ok: "node_ok n" by (rule ok_nreach [OF step(1) ok_NewNode])
  have "direct_child n' a" if "a < nd_next n'" for a
  proof (cases "a < nd_next n")
    case True
    then show ?thesis using direct_child_step [OF step(2) ok] step(3) by blast
  next
    case False
    from step(2) ok show ?thesis
    proof (cases rule: nstep_effect)
      case (start i)
      then show ?thesis using False that node_okD(3) [OF ok]
        by (simp add: direct_child_def ctx_line_new ctx_line_append parent_ok_def)
    qed (use False that in \<open>auto simp: Node_Stop_def Let_def\<close>)
  qed
  then show ?case by blast
qed

text \<open>Spawning a process under an identifier that is in use replaces the entry and leaves the
  old process running without any way to reach or end it: in every later state no identifier
  leads to it, and its context is done (and its goroutine may return) only when the whole node
  has been stopped.\<close>

theorem replaced_process_lives_on:
  assumes "nreach (fst (NewNode name opts hs w)) n" and "gm_get (nd_processes n) i = Some a"
    and "Node_SpawnProcessWithID i f n = (Inr j, n1)" and "nreach n1 n2"
  shows "(\<forall>k. gm_get (nd_processes n2) k \<noteq> Some a) \<and>
    (ctx_done (nd_ctxs n2) (pr_ctx (nd_heap n2 a)) \<longleftrightarrow> ctx_done (nd_ctxs n2) (nd_ctx n2)) \<and>
    (proc_exit a n2 \<noteq> None \<longrightarrow> ctx_done (nd_ctxs n2) (nd_ctx n2))"
proof -
  have ok: "node_ok n" by (rule ok_nreach [OF assms(1) ok_NewNode])
  have e: "entry_ok n i a" by (rule node_okD(5) [OF ok assms(2)])
  then have a: "a < nd_next n" "pr_ID (nd_heap n a) = i" "\<not> snd (nd_ctxs n ! pr_ctx (nd_heap n a))"
    by (simp_all add: entry_ok_def)
  have n1: "n1 = start_process i f 100 (nd_ctx n) n"
    using assms(3) by (auto simp: Node_SpawnProcessWithID_def split: if_splits)
  have s: "nstep n n1" by (rule nstep.spawn [OF assms(3)])
  have "gm_get (nd_processes n1) k \<noteq> Some a" for k
    using node_okD(5) [OF ok, of k a] a(1,2) by (auto simp: n1 entry_ok_def)
  moreover have "\<not> snd (nd_ctxs n1 ! pr_ctx (nd_heap n1 a))"
    using node_okD(4) [OF ok a(1)] a by (simp add: n1 proc_ok_def nth_append)
  moreover have "direct_child n1 a"
    using direct_children [OF assms(1)] direct_child_step [OF s ok a(1)] a(1) by blast
  ultimately have "orphan n1 a" using a(1) by (simp add: orphan_def n1)
  then have o: "orphan n2 a" by (rule orphan_reach [OF assms(4) ok_nstep [OF s ok]])
  then show ?thesis using orphan_done [OF o] by (simp add: orphan_def proc_exit_def)
qed

theorem replaced_process_lives_on_witness:
  "\<exists>n1 n2. Node_SpawnProcessWithID ''p'' 8 demo_node1 = (Inr ''p'', n1) \<and> Node_Kill ''p'' n1 = (None, n2) \<and>
     gm_get (nd_processes n2) ''p'' \<noteq> Some 0 \<and> \<not> ctx_done (nd_ctxs n2) (pr_ctx (nd_heap n2 0))"
proof -
  let ?n1 = "start_process ''p'' 8 100 0 demo_node1"
  have s: "Node_SpawnProcessWithID ''p'' 8 demo_node1 = (Inr ''p'', ?n1)"
    by (simp add: Node_SpawnProcessWithID_def demo_node1_simps ctx_done_def ctx_line.simps)
  have g: "gm_get (nd_processes ?n1) ''p'' = Some 1" by (simp add: demo_node1_simps)
  obtain n2 where k: "Node_Kill ''p'' ?n1 = (None, n2)" by (simp add: Kill_eq [OF g])
  have r: "nreach ?n1 n2" by (rule reaches_one [where step = nstep, OF nstep.kill [OF k]])
  have "\<not> ctx_done (nd_ctxs n2) (nd_ctx n2)"
    using k by (auto simp: Kill_eq [OF g] drop_subscriptions_def demo_node1_simps ctx_done_def
        ctx_line.simps ctx_cancel_def)
  then show ?thesis
    using replaced_process_lives_on [OF demo_reach [unfolded demo_node_def] demo_node1_simps(1) s r] s k by blast
qed

section \<open>Generated identifiers\<close>

definition dec_value :: "string \<Rightarrow> nat" where
  "dec_value = foldl (\<lambda>v c. 10 * v + (of_char c - 48)) 0"

lemma digit_value: "d < 10 \<Longrightarrow> of_char (''0123456789'' ! d) = (48 + d :: nat)"
  by (auto simp: less_Suc_eq numeral_eq_Suc)

lemma dec_value_digits: "dec_value (dec_digits n) = n"
proof (induction n rule: dec_digits.induct)
  case (1 n)
  show ?case
  proof (cases "n < 10")
    case True
    then show ?thesis using digit_value [OF True] by (subst dec_digits.simps) (simp add: dec_value_def)
  next
    case False
    then show ?thesis using 1 [OF False] digit_value [of "n mod 10"]
      by (subst dec_digits.simps) (simp add: dec_value_def)
  qed
qed

lemma dec_digits_chars: "c \<in> set (dec_digits n) \<Longrightarrow> c \<in> set ''0123456789''"
proof (induction n rule: dec_digits.induct)
  case (1 n)
  have "''0123456789'' ! (n mod 10) \<in> set ''0123456789''" by (rule nth_mem) simp
  moreover have "n < 10 \<Longrightarrow> ''0123456789'' ! n \<in> set ''0123456789''" by (rule nth_mem) simp
  ultimately show ?case using 1 by (subst (asm) (2) dec_digits.simps) (auto split: if_splits)
qed

lemma last_part_eq:
  assumes "xs @ c # d = ys @ c # e" and "c \<notin> set d" and "c \<notin> set e"
  shows "d = e"
proof -
  have "takeWhile (\<lambda>x. x \<noteq> c) (rev (zs @ c # f)) = rev f" if "c \<notin> set f" for zs f
    using that by (auto simp: takeWhile_append)
  from this [OF assms(2), of xs] this [OF assms(3), of ys] assms(1) show ?thesis by simp
qed

text \<open>Successive calls, with the time each of them reads.\<close>

fun generate_ids :: "string list \<Rightarrow> Node \<Rightarrow> string list" where
  "generate_ids [] n = []"
| "generate_ids (clock # cs) n =
     (case Node_generateProcessID clock n of (i, n') \<Rightarrow> i # generate_ids cs n')"

lemma generate_ids_nth:
  "k < length cs \<Longrightarrow> generate_ids cs n ! k =
     (nd_name n @ ''-'' @ cs ! k) @ CHR ''-'' # dec_digits (unat (nd_nextProcessID n + 1 + of_nat k))"
proof (induction cs arbitrary: n k)
  case (Cons c cs)
  then show ?case by (cases k) (simp_all add: Node_generateProcessID_def Let_def algebra_simps)
qed simp

lemma generate_ids_length: "length (generate_ids cs n) = length cs"
  by (induction cs n rule: generate_ids.induct) (simp_all split: prod.split)

text \<open>The identifiers a node generates are distinct, whatever the clock says and whatever
  characters the node's name has, for up to 2 to the 64 processes (the range of the counter).\<close>

theorem generated_ids_distinct:
  assumes "length clocks \<le> 2 ^ 64"
  shows "distinct (generate_ids clocks n)"
  unfolding distinct_conv_nth generate_ids_length
proof (intro allI impI)
  fix k l assume k: "k < length clocks" and l: "l < length clocks" and ne: "k \<noteq> l"
  let ?f = "\<lambda>k. unat (nd_nextProcessID n + 1 + of_nat k)"
  have "?f k \<noteq> ?f l"
  proof
    assume "?f k = ?f l"
    then have "(of_nat k :: 64 word) = of_nat l" by (simp add: word_unat_eq_iff [symmetric])
    then have "unat (of_nat k :: 64 word) = unat (of_nat l :: 64 word)" by simp
    then show False using k l ne assms by (simp add: unat_of_nat take_bit_nat_eq_self)
  qed
  then have "dec_digits (?f k) \<noteq> dec_digits (?f l)" by (metis dec_value_digits)
  moreover have "CHR ''-'' \<notin> set (dec_digits m)" for m
  proof
    assume "CHR ''-'' \<in> set (dec_digits m)"
    then have "CHR ''-'' \<in> set ''0123456789''" by (rule dec_digits_chars)
    then show False by simp
  qed
  ultimately show "generate_ids clocks n ! k \<noteq> generate_ids clocks n ! l"
    unfolding generate_ids_nth [OF k] generate_ids_nth [OF l] by (blast dest: last_part_eq)
qed

theorem generated_ids_distinct_witness:
  "distinct (generate_ids [''20240101-000000'', ''20240101-000000''] demo_node)"
  by (rule generated_ids_distinct) simp

end
