(* ===== verification/Supervisor.thy ===== *)
theory Supervisor
  imports NodeProps
begin

text \<open>
  \<open>socket/distributed/node.go\<close>, the supervisors: the periodic check, the restart strategies and
  the limit on restarts.  \<open>now\<close> is what \<open>time.Now()\<close> returns, in nanoseconds; a check that
  restarts several processes reads the clock once for each.
\<close>

section \<open>Model\<close>

text \<open>The constants of the strategy type, and any other integer of it.\<close>

datatype SupervisorStrategy = OneForOne | OneForAll | RestForOne | OtherStrategy int

record ProcessSpec =
  ps_ID :: string
  ps_Function :: nat

record SupervisorSpec =
  ss_ID :: string
  ss_Strategy :: SupervisorStrategy
  ss_MaxRestarts :: int
  ss_RestartPeriod :: int
  ss_Processes :: "ProcessSpec list"

record restartTracker =
  rt_count :: int
  rt_lastTime :: int

record Supervisor =
  sup_ID :: string
  sup_Strategy :: SupervisorStrategy
  sup_MaxRestarts :: int
  sup_RestartPeriod :: int
  sup_Processes :: "ProcessSpec list"
  sup_restarts :: "(string, restartTracker) gomap"
  sup_ctx :: nat

text \<open>The spawns of \<open>NewSupervisor\<close>: they stop at the first error.\<close>

fun spawn_all :: "ProcessSpec list \<Rightarrow> Node \<Rightarrow> gerror option \<times> Node" where
  "spawn_all [] n = (None, n)"
| "spawn_all (ps # pss) n =
     (case Node_SpawnProcessWithID (ps_ID ps) (ps_Function ps) n of
        (Inl err, n') \<Rightarrow> (Some err, n')
      | (Inr _, n') \<Rightarrow> spawn_all pss n')"

text \<open>\<open>addr\<close> is the address of the new supervisor.\<close>

definition NewSupervisor :: "nat \<Rightarrow> SupervisorSpec \<Rightarrow> Node \<Rightarrow> (gerror + Supervisor) \<times> Node" where
  "NewSupervisor addr spec n =
     (case ctx_WithCancel (Some (nd_ctx n)) (nd_ctxs n) of
        (c, cs) \<Rightarrow>
          let supervisor = \<lparr>sup_ID = ss_ID spec, sup_Strategy = ss_Strategy spec,
                sup_MaxRestarts = ss_MaxRestarts spec, sup_RestartPeriod = ss_RestartPeriod spec,
                sup_Processes = ss_Processes spec, sup_restarts = [], sup_ctx = c\<rparr>
          in case spawn_all (ss_Processes spec) (n\<lparr>nd_ctxs := cs\<rparr>) of
               (Some err, n') \<Rightarrow> (Inl err, n'\<lparr>nd_ctxs := ctx_cancel c (nd_ctxs n')\<rparr>)
             | (None, n') \<Rightarrow>
                 (Inr supervisor, n'\<lparr>nd_supervisors := gm_put (ss_ID spec) addr (nd_supervisors n')\<rparr>))"

text \<open>The first half of \<open>restartProcess\<close>: the tracker after the look-up and the reset.\<close>

definition current_tracker :: "int \<Rightarrow> string \<Rightarrow> Supervisor \<Rightarrow> restartTracker" where
  "current_tracker now i s =
     (let tracker = (case gm_get (sup_restarts s) i of
            None \<Rightarrow> \<lparr>rt_count = 0, rt_lastTime = now\<rparr> | Some t \<Rightarrow> t)
      in if now - rt_lastTime tracker > sup_RestartPeriod s
         then tracker\<lparr>rt_count := 0, rt_lastTime := now\<rparr> else tracker)"

definition find_spec :: "string \<Rightarrow> Supervisor \<Rightarrow> ProcessSpec option" where
  "find_spec i s = List.find (\<lambda>ps. ps_ID ps = i) (sup_Processes s)"

definition Supervisor_restartProcess :: "int \<Rightarrow> string \<Rightarrow> Supervisor \<times> Node \<Rightarrow> Supervisor \<times> Node" where
  "Supervisor_restartProcess now i sn =
     (case sn of (s, n) \<Rightarrow>
       let tracker = current_tracker now i s;
           s1 = s\<lparr>sup_restarts := gm_put i tracker (sup_restarts s)\<rparr>
       in if rt_count tracker \<ge> sup_MaxRestarts s \<and> sup_MaxRestarts s > 0 then (s1, n)
          else case find_spec i s of
            None \<Rightarrow> (s1, n)
          | Some procSpec \<Rightarrow>
              (let n1 = (case gm_get (nd_processes n) i of None \<Rightarrow> n | Some a \<Rightarrow> stop_one (i, a) n);
                   n2 = start_process i (ps_Function procSpec) 100 (sup_ctx s) n1;
                   tracker' = tracker\<lparr>rt_count := rt_count tracker + 1, rt_lastTime := now\<rparr>
               in (s1\<lparr>sup_restarts := gm_put i tracker' (sup_restarts s1)\<rparr>, n2)))"

definition restart_each :: "(nat \<Rightarrow> int) \<Rightarrow> string list \<Rightarrow> Supervisor \<times> Node \<Rightarrow> Supervisor \<times> Node" where
  "restart_each clock ids sn =
     fold (\<lambda>(k, i). Supervisor_restartProcess (clock k) i) (enumerate 0 ids) sn"

definition dead_processes :: "Supervisor \<Rightarrow> Node \<Rightarrow> string list" where
  "dead_processes s n =
     filter (\<lambda>i. case gm_get (nd_processes n) i of None \<Rightarrow> True | Some a \<Rightarrow> \<not> pr_alive (nd_heap n a))
       (map ps_ID (sup_Processes s))"

definition containsProcessID :: "string list \<Rightarrow> string \<Rightarrow> bool" where
  "containsProcessID pids i \<longleftrightarrow> list_ex (\<lambda>pid. pid = i) pids"

definition Supervisor_checkProcesses :: "(nat \<Rightarrow> int) \<Rightarrow> Supervisor \<times> Node \<Rightarrow> Supervisor \<times> Node" where
  "Supervisor_checkProcesses clock sn =
     (case sn of (s, n) \<Rightarrow>
       if ctx_done (nd_ctxs n) (sup_ctx s) then (s, n)
       else
         let deadProcesses = dead_processes s n; ids = map ps_ID (sup_Processes s) in
         if length deadProcesses = 0 then (s, n)
         else case sup_Strategy s of
           OneForOne \<Rightarrow> restart_each clock deadProcesses (s, n)
         | OneForAll \<Rightarrow> restart_each clock ids (s, n)
         | RestForOne \<Rightarrow> restart_each clock (dropWhile (\<lambda>i. \<not> containsProcessID deadProcesses i) ids) (s, n)
         | OtherStrategy _ \<Rightarrow> (s, n))"

section \<open>One restart\<close>

definition restart_allowed :: "int \<Rightarrow> string \<Rightarrow> Supervisor \<Rightarrow> bool" where
  "restart_allowed now i s \<longleftrightarrow>
     sup_MaxRestarts s \<le> 0 \<or> rt_count (current_tracker now i s) < sup_MaxRestarts s"

lemma find_spec_None: "find_spec i s = None \<longleftrightarrow> i \<notin> set (map ps_ID (sup_Processes s))"
  by (auto simp: find_spec_def find_None_iff)

lemma restart_refused:
  "\<not> restart_allowed now i s \<Longrightarrow> Supervisor_restartProcess now i (s, n) =
     (s\<lparr>sup_restarts := gm_put i (current_tracker now i s) (sup_restarts s)\<rparr>, n)"
  by (auto simp: Supervisor_restartProcess_def restart_allowed_def Let_def)

lemma tracker_update:
  "(t :: restartTracker)\<lparr>rt_count := c, rt_lastTime := l\<rparr> = \<lparr>rt_count = c, rt_lastTime = l\<rparr>"
  by (cases t) simp

lemma restart_granted:
  assumes "restart_allowed now i s" and "find_spec i s = Some ps"
  shows "Supervisor_restartProcess now i (s, n) =
    (s\<lparr>sup_restarts := gm_put i \<lparr>rt_count = rt_count (current_tracker now i s) + 1, rt_lastTime = now\<rparr>
        (gm_put i (current_tracker now i s) (sup_restarts s))\<rparr>,
     start_process i (ps_Function ps) 100 (sup_ctx s)
       (case gm_get (nd_processes n) i of None \<Rightarrow> n | Some a \<Rightarrow> stop_one (i, a) n))"
  using assms by (auto simp: Supervisor_restartProcess_def restart_allowed_def Let_def tracker_update)

lemma stop_one_parent: "parent_ok n p \<Longrightarrow> parent_ok (stop_one e n) p"
  by (rule parent_ok_cong [of _ "pr_ctx (nd_heap n (snd e))"]) simp_all

lemma ok_stop_old:
  "node_ok n \<Longrightarrow> node_ok (case gm_get (nd_processes n) i of None \<Rightarrow> n | Some a \<Rightarrow> stop_one (i, a) n)"
  by (auto intro: ok_stop_one split: option.split)

text \<open>What a supervisor needs of its node: its context is under the node's and under no process.\<close>

definition sup_ok :: "Supervisor \<times> Node \<Rightarrow> bool" where
  "sup_ok sn \<longleftrightarrow> node_ok (snd sn) \<and> parent_ok (snd sn) (sup_ctx (fst sn))"

lemma ok_restart:
  assumes "sup_ok (s, n)"
  shows "sup_ok (Supervisor_restartProcess now i (s, n))"
proof -
  let ?n1 = "case gm_get (nd_processes n) i of None \<Rightarrow> n | Some a \<Rightarrow> stop_one (i, a) n"
  have "node_ok ?n1" "parent_ok ?n1 (sup_ctx s)"
    using assms by (auto simp: sup_ok_def intro: ok_stop_one stop_one_parent split: option.split)
  then have "node_ok (start_process i f 100 (sup_ctx s) ?n1)"
    "parent_ok (start_process i f 100 (sup_ctx s) ?n1) (sup_ctx s)" for f
    by (auto intro: ok_start parent_ok_start)
  then show ?thesis using assms
    by (cases "restart_allowed now i s"; cases "find_spec i s")
      (auto simp: restart_refused restart_granted sup_ok_def Supervisor_restartProcess_def Let_def split: if_splits)
qed

lemma restart_frame:
  assumes "Supervisor_restartProcess now i (s, n) = (s', n')"
  shows "sup_MaxRestarts s' = sup_MaxRestarts s" "sup_Processes s' = sup_Processes s"
    "sup_ctx s' = sup_ctx s" "sup_RestartPeriod s' = sup_RestartPeriod s" "sup_Strategy s' = sup_Strategy s"
    "j \<noteq> i \<Longrightarrow> gm_get (nd_processes n') j = gm_get (nd_processes n) j"
    "nd_next n \<le> nd_next n'" "nd_next n' \<le> Suc (nd_next n)"
    "j \<noteq> i \<Longrightarrow> gm_get (sup_restarts s') j = gm_get (sup_restarts s) j"
  using assms
  by (auto simp: Supervisor_restartProcess_def Let_def split: if_splits option.splits)

lemma restart_entry:
  assumes "restart_allowed now i s" and "find_spec i s \<noteq> None"
    and "Supervisor_restartProcess now i (s, n) = (s', n')"
  shows "gm_get (nd_processes n') i = Some (nd_next n)" "nd_next n' = Suc (nd_next n)"
    "nd_heap n' (nd_next n) = new_process i (ps_Function (the (find_spec i s))) 100 (length (nd_ctxs n))"
  using assms by (auto simp: restart_granted split: option.splits)

section \<open>The strategies\<close>

lemma restart_each_Cons: "restart_each clock (i # ids) sn =
    restart_each (\<lambda>k. clock (Suc k)) ids (Supervisor_restartProcess (clock 0) i sn)"
proof -
  have "fold (\<lambda>(k, i). Supervisor_restartProcess (clock k) i) (enumerate (Suc m) ids) sn =
      fold (\<lambda>(k, i). Supervisor_restartProcess (clock (Suc k)) i) (enumerate m ids) sn" for m sn
    by (induction ids arbitrary: m sn) simp_all
  then show ?thesis by (simp add: restart_each_def)
qed

lemma restart_each_Nil [simp]: "restart_each clock [] sn = sn"
  by (simp add: restart_each_def)

text \<open>With no limit in force, exactly the listed processes are replaced by new ones.\<close>

lemma restart_each_effect:
  assumes "sup_ok (s, n)" and "sup_MaxRestarts s \<le> 0" and "distinct ids"
    and "set ids \<subseteq> set (map ps_ID (sup_Processes s))" and "restart_each clock ids (s, n) = (s', n')"
  shows "sup_ok (s', n') \<and> nd_next n \<le> nd_next n' \<and>
    (\<forall>i\<in>set ids. \<exists>a. gm_get (nd_processes n') i = Some a \<and> nd_next n \<le> a) \<and>
    (\<forall>i. i \<notin> set ids \<longrightarrow> gm_get (nd_processes n') i = gm_get (nd_processes n) i)"
  using assms
proof (induction ids arbitrary: clock s n)
  case (Cons i ids)
  obtain s1 n1 where r: "Supervisor_restartProcess (clock 0) i (s, n) = (s1, n1)" by fastforce
  have ok: "sup_ok (s1, n1)" using ok_restart [OF Cons.prems(1), of "clock 0" i] r by simp
  note f = restart_frame [OF r]
  have "find_spec i s \<noteq> None" using Cons.prems(4) by (auto simp: find_spec_None)
  moreover have "restart_allowed (clock 0) i s" using Cons.prems(2) by (simp add: restart_allowed_def)
  ultimately have i: "gm_get (nd_processes n1) i = Some (nd_next n)" "nd_next n1 = Suc (nd_next n)"
    using restart_entry [OF _ _ r] by simp_all
  have rest: "restart_each (\<lambda>k. clock (Suc k)) ids (s1, n1) = (s', n')"
    using Cons.prems(5) r by (simp add: restart_each_Cons)
  have "sup_ok (s', n') \<and> nd_next n1 \<le> nd_next n' \<and>
    (\<forall>i\<in>set ids. \<exists>a. gm_get (nd_processes n') i = Some a \<and> nd_next n1 \<le> a) \<and>
    (\<forall>i. i \<notin> set ids \<longrightarrow> gm_get (nd_processes n') i = gm_get (nd_processes n1) i)"
    using Cons.prems(2,3,4) f by (intro Cons.IH [OF ok _ _ _ rest]) auto
  then show ?case using i f(6) Cons.prems(3) by (auto dest: order_trans [rotated, OF Suc_leD])
qed simp

lemma dead_iff:
  "node_ok n \<Longrightarrow> i \<in> set (dead_processes s n) \<longleftrightarrow>
     i \<in> set (map ps_ID (sup_Processes s)) \<and> gm_get (nd_processes n) i = None"
  using node_okD(5) [of n i] by (auto simp: dead_processes_def entry_ok_def split: option.split)

lemma after_first_dead:
  "set (dropWhile (\<lambda>i. \<not> containsProcessID dead i) ids) =
     {ids ! k | k. k < length ids \<and> (\<exists>j\<le>k. ids ! j \<in> set dead)}"
proof -
  have c: "containsProcessID dead i \<longleftrightarrow> i \<in> set dead" for i
    by (auto simp: containsProcessID_def list_ex_iff)
  show ?thesis unfolding set_dropWhile_Not c by blast
qed

text \<open>Restarting the processes \<open>L\<close> of a supervisor, when restarts are not limited.\<close>

lemma restart_each_repairs:
  assumes "sup_ok (s, n)" and "sup_MaxRestarts s \<le> 0" and "restart_each clock L (s, n) = (s', n')"
    and "distinct L" and "set L \<subseteq> ids" and "ids = set (map ps_ID (sup_Processes s))"
  shows "sup_ok (s', n') \<and>
    (\<forall>i. if i \<in> set L then \<exists>a. gm_get (nd_processes n') i = Some a \<and> nd_next n \<le> a
         else gm_get (nd_processes n') i = gm_get (nd_processes n) i) \<and>
    ({i \<in> ids. gm_get (nd_processes n) i = None} \<subseteq> set L \<longrightarrow> (\<forall>i\<in>ids. gm_get (nd_processes n') i \<noteq> None))"
proof -
  have sup: "sup_ok (s', n')"
    and new: "\<And>i. i \<in> set L \<Longrightarrow> \<exists>a. gm_get (nd_processes n') i = Some a \<and> nd_next n \<le> a"
    and old: "\<And>i. i \<notin> set L \<Longrightarrow> gm_get (nd_processes n') i = gm_get (nd_processes n) i"
    using restart_each_effect [OF assms(1,2,4), of clock s' n'] assms(3,5,6) by simp_all
  have "gm_get (nd_processes n') i \<noteq> None"
    if "i \<in> ids" "{i \<in> ids. gm_get (nd_processes n) i = None} \<subseteq> set L" for i
    using new [of i] old [of i] that by (cases "i \<in> set L") auto
  moreover have "if i \<in> set L then \<exists>a. gm_get (nd_processes n') i = Some a \<and> nd_next n \<le> a
      else gm_get (nd_processes n') i = gm_get (nd_processes n) i" for i
    using new old by simp
  ultimately show ?thesis using sup by blast
qed


definition demo_supervisor :: "SupervisorStrategy \<Rightarrow> Supervisor" where
  "demo_supervisor st = \<lparr>sup_ID = ''s'', sup_Strategy = st, sup_MaxRestarts = 0, sup_RestartPeriod = 60 * second,
     sup_Processes = [\<lparr>ps_ID = ''o'', ps_Function = 1\<rparr>, \<lparr>ps_ID = ''p'', ps_Function = 7\<rparr>],
     sup_restarts = [], sup_ctx = 0\<rparr>"

lemma demo_sup_ok: "sup_ok (demo_supervisor st, demo_node1)"
  using ok_demo_node1 node_okD(3) [OF ok_demo_node1]
  by (simp add: sup_ok_def demo_supervisor_def demo_node1_simps)


section \<open>The limit on restarts\<close>

text \<open>The attempts to restart one process, at the given times: which of them started a process.\<close>

fun restart_log :: "string \<Rightarrow> int list \<Rightarrow> Supervisor \<times> Node \<Rightarrow> bool list" where
  "restart_log i [] sn = []"
| "restart_log i (t # ts) sn =
     (case Supervisor_restartProcess t i sn of
        sn' \<Rightarrow> (nd_next (snd sn') \<noteq> nd_next (snd sn)) # restart_log i ts sn')"

text \<open>Reference: from the times of the restarts so far, latest first.  \<open>chain\<close> counts the latest
  restarts that follow one another within the period.\<close>

fun chain :: "int \<Rightarrow> int list \<Rightarrow> int" where
  "chain p [] = 0"
| "chain p [t] = 1"
| "chain p (t # u # h) = (if t - u > p then 1 else 1 + chain p (u # h))"

definition may_restart :: "int \<Rightarrow> int \<Rightarrow> int list \<Rightarrow> int \<Rightarrow> bool" where
  "may_restart m p h t \<longleftrightarrow> m \<le> 0 \<or> h = [] \<or> t - hd h > p \<or> chain p h < m"

fun decide :: "int \<Rightarrow> int \<Rightarrow> int list \<Rightarrow> int list \<Rightarrow> bool list" where
  "decide m p h [] = []"
| "decide m p h (t # ts) =
     (let ok = may_restart m p h t in ok # decide m p (if ok then t # h else h) ts)"

definition tracker_matches :: "Supervisor \<Rightarrow> string \<Rightarrow> int list \<Rightarrow> bool" where
  "tracker_matches s i h \<longleftrightarrow>
     (case gm_get (sup_restarts s) i of
        None \<Rightarrow> h = []
      | Some t \<Rightarrow> h \<noteq> [] \<and> rt_lastTime t = hd h \<and> rt_count t = chain (sup_RestartPeriod s) h)"

lemma chain_nonneg: "0 \<le> chain p h"
  by (induction p h rule: chain.induct) auto

lemma matches_allowed:
  assumes "tracker_matches s i h" and "0 \<le> sup_RestartPeriod s"
  shows "restart_allowed t i s \<longleftrightarrow> may_restart (sup_MaxRestarts s) (sup_RestartPeriod s) h t"
    and "rt_count (current_tracker t i s) + 1 = chain (sup_RestartPeriod s) (t # h)"
    and "\<not> restart_allowed t i s \<Longrightarrow> h \<noteq> [] \<and> Some (current_tracker t i s) = gm_get (sup_restarts s) i"
  using assms
  by (cases h; force simp: tracker_matches_def restart_allowed_def may_restart_def current_tracker_def Let_def
      split: option.splits)+

lemma matches_step:
  assumes m: "tracker_matches s i h" and p: "0 \<le> sup_RestartPeriod s" and f: "find_spec i s \<noteq> None"
    and r: "Supervisor_restartProcess t i (s, n) = (s', n')"
  shows "(nd_next n' \<noteq> nd_next n) = may_restart (sup_MaxRestarts s) (sup_RestartPeriod s) h t"
    and "tracker_matches s' i (if may_restart (sup_MaxRestarts s) (sup_RestartPeriod s) h t then t # h else h)"
    and "find_spec i s' = find_spec i s"
proof -
  note R = restart_frame [OF r]
  show "find_spec i s' = find_spec i s" using R(2) by (simp add: find_spec_def)
  note a = matches_allowed [OF m p, of t]
  obtain ps where ps: "find_spec i s = Some ps" using f by blast
  have "(nd_next n' \<noteq> nd_next n) = restart_allowed t i s"
    using restart_refused [of t i s n] restart_entry(2) [OF _ f r] r by (cases "restart_allowed t i s") auto
  then show "(nd_next n' \<noteq> nd_next n) = may_restart (sup_MaxRestarts s) (sup_RestartPeriod s) h t"
    using a(1) by simp
  show "tracker_matches s' i (if may_restart (sup_MaxRestarts s) (sup_RestartPeriod s) h t then t # h else h)"
  proof (cases "restart_allowed t i s")
    case True
    then have "gm_get (sup_restarts s') i =
        Some \<lparr>rt_count = rt_count (current_tracker t i s) + 1, rt_lastTime = t\<rparr>"
      using r by (auto simp: restart_granted [OF True ps])
    then show ?thesis using True a R(4) by (simp add: tracker_matches_def)
  next
    case False
    then have "gm_get (sup_restarts s') i = gm_get (sup_restarts s) i"
      using r a(3) by (auto simp: restart_refused [OF False])
    then show ?thesis using False a(1) R(4) m by (simp add: tracker_matches_def split: option.splits)
  qed
qed

lemma restart_log_decide:
  "tracker_matches s i h \<Longrightarrow> 0 \<le> sup_RestartPeriod s \<Longrightarrow> find_spec i s \<noteq> None \<Longrightarrow>
     restart_log i ts (s, n) = decide (sup_MaxRestarts s) (sup_RestartPeriod s) h ts"
proof (induction ts arbitrary: s n h)
  case (Cons t ts)
  obtain s' n' where r: "Supervisor_restartProcess t i (s, n) = (s', n')" by fastforce
  note m = matches_step [OF Cons.prems r] and f = restart_frame [OF r]
  have "restart_log i ts (s', n') = decide (sup_MaxRestarts s') (sup_RestartPeriod s')
      (if may_restart (sup_MaxRestarts s) (sup_RestartPeriod s) h t then t # h else h) ts"
    using m(2,3) Cons.prems f by (intro Cons.IH) auto
  then show ?case using m(1) r f by (simp add: Let_def)
qed simp

text \<open>C18. The limit on restarts is a limit on chains.  The attempt to restart a process succeeds
  unless as many restarts as \<open>MaxRestarts\<close> allows have each followed the one before within
  \<open>RestartPeriod\<close> and the last of them is not longer ago than the period either.  The decision
  looks at the distance from one restart to the next, not at a window, and it is not final: after
  one quiet period the count starts again.\<close>

theorem restart_decisions:
  assumes "gm_get (sup_restarts s) i = None" and "i \<in> set (map ps_ID (sup_Processes s))"
    and "0 \<le> sup_RestartPeriod s"
  shows "restart_log i ts (s, n) = decide (sup_MaxRestarts s) (sup_RestartPeriod s) [] ts"
  using restart_log_decide [of s i "[]" ts n] assms find_spec_None [of i s] by (simp add: tracker_matches_def)

text \<open>Two restarts are allowed in a minute; the third attempt is refused although the minute before
  it has seen one restart only, and one after a quiet minute succeeds.\<close>

theorem restart_decisions_witness:
  "restart_log ''p'' [0, 50, 100, 111] ((demo_supervisor OneForOne)\<lparr>sup_MaxRestarts := 2, sup_RestartPeriod := 60\<rparr>, demo_node1) =
     [True, True, False, True]"
proof -
  let ?s = "(demo_supervisor OneForOne)\<lparr>sup_MaxRestarts := 2, sup_RestartPeriod := 60\<rparr>"
  have "gm_get (sup_restarts ?s) ''p'' = None" "''p'' \<in> set (map ps_ID (sup_Processes ?s))"
    "0 \<le> sup_RestartPeriod ?s" by (simp_all add: demo_supervisor_def)
  from restart_decisions [OF this, of "[0, 50, 100, 111]" demo_node1] show ?thesis
    by (simp add: may_restart_def Let_def)
qed

text \<open>The restarts after all the attempts, latest first.\<close>

fun history :: "int \<Rightarrow> int \<Rightarrow> int list \<Rightarrow> int list \<Rightarrow> int list" where
  "history m p h [] = h"
| "history m p h (t # ts) = history m p (if may_restart m p h t then t # h else h) ts"

lemma history_granted:
  "rev (history m p h ts) = rev h @ map fst (filter snd (zip ts (decide m p h ts)))"
  by (induction m p h ts rule: history.induct) (simp_all add: Let_def)

definition good_history :: "int \<Rightarrow> int \<Rightarrow> int list \<Rightarrow> bool" where
  "good_history m p h \<longleftrightarrow> sorted (rev h) \<and> (\<forall>k. chain p (drop k h) \<le> m)"

lemma good_history_Cons:
  assumes "good_history m p h" and "may_restart m p h t" and "0 < m" and "\<forall>u\<in>set h. u \<le> t"
  shows "good_history m p (t # h)"
proof -
  have "chain p (t # h) \<le> m"
    using assms(1,2,3) by (cases h) (auto simp: may_restart_def good_history_def)
  then have "chain p (drop k (t # h)) \<le> m" for k
    using assms(1) by (cases k) (simp_all add: good_history_def)
  then show ?thesis using assms(1,4) by (simp add: good_history_def sorted_append)
qed

lemma good_history_all:
  "good_history m p h \<Longrightarrow> 0 < m \<Longrightarrow> sorted ts \<Longrightarrow> (\<forall>t\<in>set ts. \<forall>u\<in>set h. u \<le> t) \<Longrightarrow>
     good_history m p (history m p h ts)"
proof (induction m p h ts rule: history.induct)
  case (2 m p h t ts)
  show ?case unfolding history.simps
    using 2(2-5) good_history_Cons [of m p h t] by (intro 2(1)) auto
qed simp

lemma chain_long:
  "j < length h \<Longrightarrow> (\<forall>i<j. h ! i - h ! Suc i \<le> p) \<Longrightarrow> int j + 1 \<le> chain p h"
proof (induction p h arbitrary: j rule: chain.induct)
  case (2 p t)
  then show ?case by simp
next
  case (3 p t u h)
  show ?case
  proof (cases j)
    case 0
    then show ?thesis using chain_nonneg [of p "u # h"] by simp
  next
    case (Suc i)
    then have le: "t - u \<le> p" and "\<forall>i'<i. (u # h) ! i' - (u # h) ! Suc i' \<le> p" "i < length (u # h)"
      using 3(2,3) by force+
    then show ?thesis using 3(1) [of i] Suc by simp
  qed
qed simp

lemma good_history_gap:
  assumes "good_history m p h" and "0 < m" and "k + nat m < length h"
  shows "h ! k - h ! (k + nat m) > p"
proof -
  let ?h = "drop k h" and ?m = "nat m"
  have "\<not> (\<forall>i<?m. ?h ! i - ?h ! Suc i \<le> p)"
  proof
    assume "\<forall>i<?m. ?h ! i - ?h ! Suc i \<le> p"
    then have "int ?m + 1 \<le> chain p ?h" using assms(3) by (intro chain_long) auto
    moreover have "chain p ?h \<le> m" using assms(1) by (simp add: good_history_def)
    ultimately show False using assms(2) by simp
  qed
  then obtain i where i: "i < ?m" "h ! (k + i) - h ! Suc (k + i) > p" using assms(3) by auto
  have mono: "h ! b \<le> h ! a" if "a \<le> b" "b < length h" for a b
  proof -
    have "rev h ! (length h - Suc b) \<le> rev h ! (length h - Suc a)"
      using assms(1) that by (intro sorted_nth_mono) (auto simp: good_history_def)
    then show ?thesis using that by (simp add: rev_nth)
  qed
  show ?thesis using i mono [of k "k + i"] mono [of "Suc (k + i)" "k + ?m"] assms(3) by auto
qed



end
