(* ===== verification/Cluster.thy ===== *)
theory Cluster
  imports Supervisor
begin

text \<open>
  \<open>socket/distributed/node.go\<close>, the cluster with its four loops and the load-balanced groups.  The
  choice of \<open>rand.Intn\<close> is an argument.  What the loops print is part of their result, since
  some of them do nothing else.
\<close>

section \<open>Clusters\<close>

record ClusterNode =
  cn_ID :: string
  cn_Address :: string
  cn_LastSeen :: int
  cn_Load :: float64
  cn_Capabilities :: "(string, int) gomap"

record ClusterConfig =
  cc_DiscoveryAddresses :: "string list"
  cc_HeartbeatInterval :: int
  cc_GossipInterval :: int
  cc_NodeCapabilities :: "(string, int) gomap"
  cc_MaxLoad :: float64

record Cluster =
  cl_LocalNode :: Node
  cl_RemoteNodes :: "(string, ClusterNode) gomap"
  cl_config :: ClusterConfig
  cl_ctx :: nat

definition NewCluster :: "Node \<Rightarrow> ClusterConfig \<Rightarrow> Cluster" where
  "NewCluster localNode config =
     (case ctx_WithCancel (Some (nd_ctx localNode)) (nd_ctxs localNode) of
        (c, cs) \<Rightarrow> \<lparr>cl_LocalNode = localNode\<lparr>nd_ctxs := cs\<rparr>, cl_RemoteNodes = [],
                     cl_config = config, cl_ctx = c\<rparr>)"

section \<open>The loops of a cluster\<close>

text \<open>Lines of the diagnostic output.\<close>

datatype cluster_print =
    Discovering string
  | SendingHeartbeat string
  | NodeDown string
  | Gossiping
  | UpdatingLoad

definition Cluster_discoverNode :: "string \<Rightarrow> cluster_print list" where
  "Cluster_discoverNode address = [Discovering address]"

definition Cluster_discoverAll :: "Cluster \<Rightarrow> cluster_print list" where
  "Cluster_discoverAll c = concat (map Cluster_discoverNode (cc_DiscoveryAddresses (cl_config c)))"

text \<open>One goroutine per remote node, which only prints.\<close>

definition Cluster_sendHeartbeats :: "Cluster \<Rightarrow> cluster_print list" where
  "Cluster_sendHeartbeats c = map (\<lambda>n. SendingHeartbeat (cn_ID n)) (gm_vals (cl_RemoteNodes c))"

definition seen_before :: "int \<Rightarrow> ClusterNode \<Rightarrow> bool" where
  "seen_before threshold n \<longleftrightarrow> cn_LastSeen n < threshold"

definition Cluster_checkNodeLiveness :: "int \<Rightarrow> Cluster \<Rightarrow> cluster_print list \<times> Cluster" where
  "Cluster_checkNodeLiveness now c =
     (let threshold = now + (-3 * cc_HeartbeatInterval (cl_config c));
          down = filter (\<lambda>e. seen_before threshold (snd e)) (cl_RemoteNodes c)
      in (map (\<lambda>e. NodeDown (fst e)) down,
          c\<lparr>cl_RemoteNodes := filter (\<lambda>e. \<not> seen_before threshold (snd e)) (cl_RemoteNodes c)\<rparr>))"

definition Cluster_gossipClusterState :: "Cluster \<Rightarrow> cluster_print list" where
  "Cluster_gossipClusterState c = [Gossiping]"

definition Cluster_updateLocalLoad :: "Cluster \<Rightarrow> cluster_print list" where
  "Cluster_updateLocalLoad c = [UpdatingLoad]"

text \<open>\<open>time.NewTicker\<close> panics on an interval that is not positive.\<close>

definition NewTicker :: "int \<Rightarrow> unit run" where
  "NewTicker d = (if d \<le> 0 then Inl (Panic ''non-positive interval for NewTicker'') else Inr ())"

text \<open>The goroutines \<open>NewCluster\<close> starts: what each does before its loop.\<close>

datatype cluster_loop = DiscoveryLoop | HeartbeatLoop | GossipLoop | LoadLoop

fun loop_interval :: "cluster_loop \<Rightarrow> Cluster \<Rightarrow> int" where
  "loop_interval DiscoveryLoop c = 5 * 60 * second"
| "loop_interval HeartbeatLoop c = cc_HeartbeatInterval (cl_config c)"
| "loop_interval GossipLoop c = cc_GossipInterval (cl_config c)"
| "loop_interval LoadLoop c = 10 * second"

definition Cluster_loop_start :: "cluster_loop \<Rightarrow> Cluster \<Rightarrow> cluster_print list run" where
  "Cluster_loop_start l c =
     run_bind (NewTicker (loop_interval l c))
       (\<lambda>_. Inr (if l = DiscoveryLoop then Cluster_discoverAll c else []))"

text \<open>What a loop does on a tick.\<close>

fun loop_tick :: "cluster_loop \<Rightarrow> int \<Rightarrow> Cluster \<Rightarrow> cluster_print list \<times> Cluster" where
  "loop_tick DiscoveryLoop now c = (Cluster_discoverAll c, c)"
| "loop_tick HeartbeatLoop now c =
     (case Cluster_checkNodeLiveness now c of (ps, c') \<Rightarrow> (Cluster_sendHeartbeats c @ ps, c'))"
| "loop_tick GossipLoop now c = (Cluster_gossipClusterState c, c)"
| "loop_tick LoadLoop now c = (Cluster_updateLocalLoad c, c)"

text \<open>A turn of a loop when a tick is due: \<open>None\<close> when it returns.  When the context is done too, the
  \<open>select\<close> may take either; \<open>prefer_done\<close> is its choice.\<close>

definition Cluster_loop_turn ::
  "cluster_loop \<Rightarrow> bool \<Rightarrow> int \<Rightarrow> Cluster \<Rightarrow> (cluster_print list \<times> Cluster) option" where
  "Cluster_loop_turn l prefer_done now c =
     (if ctx_done (nd_ctxs (cl_LocalNode c)) (cl_ctx c) \<and> prefer_done then None
      else Some (loop_tick l now c))"

section \<open>Calls\<close>

definition not_in_cluster :: "string \<Rightarrow> gerror" where
  "not_in_cluster nodeID = ErrNew (''node '' @ nodeID @ '' not found in cluster'')"

definition Cluster_RemoteCall :: "string \<Rightarrow> string \<Rightarrow> gval \<Rightarrow> Cluster \<Rightarrow> gerror option" where
  "Cluster_RemoteCall nodeID dest message c =
     (if \<not> gm_has (cl_RemoteNodes c) nodeID then Some (not_in_cluster nodeID) else None)"

definition Cluster_BroadcastMessage :: "string \<Rightarrow> gval \<Rightarrow> Cluster \<Rightarrow> (string, gerror) gomap" where
  "Cluster_BroadcastMessage dest message c =
     concat (map (\<lambda>i. case Cluster_RemoteCall i dest message c of None \<Rightarrow> [] | Some err \<Rightarrow> [(i, err)])
       (gm_keys (cl_RemoteNodes c)))"

record DistributedSupervisorSpec =
  ds_local :: SupervisorSpec
  ds_RemoteProcesses :: "(string, ProcessSpec list) gomap"

definition NewDistributedSupervisor ::
  "nat \<Rightarrow> DistributedSupervisorSpec \<Rightarrow> Cluster \<Rightarrow> gerror option \<times> Cluster" where
  "NewDistributedSupervisor addr spec c =
     (case NewSupervisor addr (ds_local spec) (cl_LocalNode c) of
        (Inl err, n) \<Rightarrow> (Some err, c\<lparr>cl_LocalNode := n\<rparr>)
      | (Inr _, n) \<Rightarrow>
          (map_option not_in_cluster
             (List.find (\<lambda>i. \<not> gm_has (cl_RemoteNodes c) i) (gm_keys (ds_RemoteProcesses spec))),
           c\<lparr>cl_LocalNode := n\<rparr>))"

section \<open>Load-balanced groups\<close>

datatype LoadBalancingStrategy = RoundRobin | WeightedRoundRobin | LeastConnections | OtherBalancing int

record Target =
  tg_nodeID :: string
  tg_processID :: string
  tg_weight :: "64 word"

definition zero_target :: Target where
  "zero_target = \<lparr>tg_nodeID = [], tg_processID = [], tg_weight = 0\<rparr>"

record LoadBalancedProcessGroup =
  lb_ID :: string
  lb_processList :: "Target list"
  lb_strategy :: LoadBalancingStrategy
  lb_nextIndex :: nat

definition NewLoadBalancedGroup :: "string \<Rightarrow> LoadBalancingStrategy \<Rightarrow> LoadBalancedProcessGroup" where
  "NewLoadBalancedGroup i st = \<lparr>lb_ID = i, lb_processList = [], lb_strategy = st, lb_nextIndex = 0\<rparr>"

definition LB_AddProcess ::
  "string \<Rightarrow> string \<Rightarrow> 64 word \<Rightarrow> LoadBalancedProcessGroup \<Rightarrow> LoadBalancedProcessGroup" where
  "LB_AddProcess nodeID processID weight g =
     g\<lparr>lb_processList := lb_processList g @
       [\<lparr>tg_nodeID = nodeID, tg_processID = processID, tg_weight = weight\<rparr>]\<rparr>"

text \<open>Without the first entry that matches.\<close>

fun remove_target :: "string \<Rightarrow> string \<Rightarrow> Target list \<Rightarrow> Target list" where
  "remove_target nodeID processID [] = []"
| "remove_target nodeID processID (t # ts) =
     (if tg_nodeID t = nodeID \<and> tg_processID t = processID then ts else t # remove_target nodeID processID ts)"

definition LB_RemoveProcess ::
  "string \<Rightarrow> string \<Rightarrow> LoadBalancedProcessGroup \<Rightarrow> LoadBalancedProcessGroup" where
  "LB_RemoveProcess nodeID processID g =
     g\<lparr>lb_processList := remove_target nodeID processID (lb_processList g)\<rparr>"

definition next_in_turn :: "LoadBalancedProcessGroup \<Rightarrow> (Target \<times> LoadBalancedProcessGroup) run" where
  "next_in_turn g =
     (if lb_nextIndex g < length (lb_processList g)
      then Inr (lb_processList g ! lb_nextIndex g,
                g\<lparr>lb_nextIndex := (lb_nextIndex g + 1) mod length (lb_processList g)\<rparr>)
      else Inl (Panic ''index out of range''))"

text \<open>Weights are Go integers: 64 bits wide and signed, and their sum wraps around.\<close>

fun add_weights :: "64 word \<Rightarrow> Target list \<Rightarrow> 64 word" where
  "add_weights totalWeight [] = totalWeight"
| "add_weights totalWeight (t # ts) = add_weights (totalWeight + tg_weight t) ts"

definition total_weight :: "Target list \<Rightarrow> 64 word" where
  "total_weight ts = add_weights 0 ts"

text \<open>The loop over the running total; the zero value of the target when it finds none.\<close>

fun pick_weighted :: "int \<Rightarrow> 64 word \<Rightarrow> Target list \<Rightarrow> Target" where
  "pick_weighted selection runningTotal [] = zero_target"
| "pick_weighted selection runningTotal (t # ts) =
     (let runningTotal' = runningTotal + tg_weight t
      in if selection < sint runningTotal' then t else pick_weighted selection runningTotal' ts)"

text \<open>\<open>intn\<close>: the result of \<open>rand.Intn(totalWeight)\<close>.\<close>

definition LB_choose :: "(int \<Rightarrow> int) \<Rightarrow> LoadBalancedProcessGroup \<Rightarrow> (Target \<times> LoadBalancedProcessGroup) run"
  where
  "LB_choose intn g =
     (case lb_strategy g of
        RoundRobin \<Rightarrow> next_in_turn g
      | WeightedRoundRobin \<Rightarrow>
          (let totalWeight = sint (total_weight (lb_processList g))
           in if totalWeight \<le> 0 then next_in_turn g
              else Inr (pick_weighted (intn totalWeight) 0 (lb_processList g), g))
      | LeastConnections \<Rightarrow> Inr (lb_processList g ! 0, g)
      | OtherBalancing _ \<Rightarrow> Inr (zero_target, g))"

definition LB_Send ::
  "(int \<Rightarrow> int) \<Rightarrow> gval \<Rightarrow> LoadBalancedProcessGroup \<times> Cluster \<Rightarrow>
     (gerror option \<times> LoadBalancedProcessGroup \<times> Cluster) run" where
  "LB_Send intn message gc =
     (case gc of (g, c) \<Rightarrow>
       if length (lb_processList g) = 0
       then Inr (Some (ErrNew ''no processes available in load balanced group''), g, c)
       else run_bind (LB_choose intn g)
         (\<lambda>(target, g').
            if tg_nodeID target = nd_name (cl_LocalNode c)
            then (case Node_Send (tg_processID target) message (cl_LocalNode c) of
                (err, n) \<Rightarrow> Inr (err, g', c\<lparr>cl_LocalNode := n\<rparr>))
            else Inr (Cluster_RemoteCall (tg_nodeID target) (tg_processID target) message c, g', c)))"

section \<open>The cluster never has members\<close>

inductive cstep :: "Cluster \<Rightarrow> Cluster \<Rightarrow> bool" where
  tick: "Cluster_loop_turn l prefer_done now c = Some (ps, c') \<Longrightarrow> cstep c c'"
| supervisor: "NewDistributedSupervisor addr spec c = (r, c') \<Longrightarrow> cstep c c'"
| node: "nstep (cl_LocalNode c) n \<Longrightarrow> cstep c (c\<lparr>cl_LocalNode := n\<rparr>)"
| group: "LB_Send intn m (g, c) = Inr (r, g', c') \<Longrightarrow> cstep c c'"

abbreviation creach :: "Cluster \<Rightarrow> Cluster \<Rightarrow> bool" where
  "creach \<equiv> reaches cstep"

lemma LB_Send_members:
  assumes "LB_Send intn m (g, c) = Inr (r, g', c')"
  shows "cl_RemoteNodes c' = cl_RemoteNodes c"
proof (cases "lb_processList g = []")
  case False
  with assms obtain t g2 where "LB_choose intn g = Inr (t, g2)" by (auto simp: LB_Send_def run_bind_Inr_iff)
  then show ?thesis using assms False
    by (cases "Node_Send (tg_processID t) m (cl_LocalNode c)") (auto simp: LB_Send_def split: if_splits)
qed (use assms in \<open>simp add: LB_Send_def\<close>)

text \<open>A tick may remove members, and only the heartbeat does.\<close>

lemma loop_tick_members:
  "loop_tick l now c = (ps, c') \<Longrightarrow> set (cl_RemoteNodes c') \<subseteq> set (cl_RemoteNodes c) \<and>
     (l \<noteq> HeartbeatLoop \<longrightarrow> c' = c)"
  by (cases l) (auto simp: Cluster_checkNodeLiveness_def Let_def)

lemma cstep_no_members: "cstep c c' \<Longrightarrow> cl_RemoteNodes c = [] \<Longrightarrow> cl_RemoteNodes c' = []"
proof (induction rule: cstep.induct)
  case (tick l prefer_done now c ps c')
  then have "loop_tick l now c = (ps, c')" by (simp add: Cluster_loop_turn_def split: if_splits)
  from loop_tick_members [OF this] show ?case using tick by simp
qed (auto simp: LB_Send_members NewDistributedSupervisor_def split: prod.splits sum.splits)

text \<open>A cluster never has a remote node, so nothing ever leaves the local node: discovery only
  prints and no operation adds a member, and in every state a cluster reaches each remote call
  fails with "not found", a broadcast reaches nobody, and a distributed supervisor with remote
  processes reports an error although its local processes have been started.\<close>

theorem cluster_has_no_members:
  assumes "creach (NewCluster n config) c"
  shows "cl_RemoteNodes c = [] \<and> Cluster_RemoteCall nodeID dest m c = Some (not_in_cluster nodeID) \<and>
    Cluster_BroadcastMessage dest m c = [] \<and>
    (ds_RemoteProcesses spec \<noteq> [] \<longrightarrow> (\<exists>err. fst (NewDistributedSupervisor addr spec c) = Some err))"
proof -
  have "cl_RemoteNodes c = []"
    using assms
  proof (induction rule: reaches.induct)
    case start
    then show ?case by (simp add: NewCluster_def ctx_WithCancel_def)
  next
    case (step c' c'')
    then show ?case by (auto intro: cstep_no_members)
  qed
  moreover have "List.find (\<lambda>i. True) (gm_keys xs) = (case xs of [] \<Rightarrow> None | x # _ \<Rightarrow> Some (fst x))" for xs :: "(string, ProcessSpec list) gomap"
    by (cases xs) (simp_all add: gm_keys_def)
  ultimately show ?thesis
    by (auto simp: Cluster_RemoteCall_def Cluster_BroadcastMessage_def gm_keys_def
        NewDistributedSupervisor_def split: prod.splits sum.splits list.splits)
qed

definition demo_cluster :: Cluster where
  "demo_cluster = NewCluster demo_node1 \<lparr>cc_DiscoveryAddresses = [''peer:1''],
     cc_HeartbeatInterval = second, cc_GossipInterval = second, cc_NodeCapabilities = [], cc_MaxLoad = 0.8\<rparr>"

theorem cluster_has_no_members_witness:
  "Cluster_RemoteCall ''peer'' ''p'' GNil (snd (loop_tick HeartbeatLoop 5 demo_cluster)) = Some (not_in_cluster ''peer'')"
proof -
  obtain ps c' where t: "loop_tick HeartbeatLoop 5 demo_cluster = (ps, c')" by fastforce
  have "cstep demo_cluster c'"
    by (rule cstep.tick [of HeartbeatLoop False 5 _ ps]) (simp add: Cluster_loop_turn_def t del: loop_tick.simps)
  then have "creach demo_cluster c'" by (rule reaches_one [where step = cstep])
  from cluster_has_no_members [OF this [unfolded demo_cluster_def]] t show ?thesis
    by (simp del: loop_tick.simps)
qed

section \<open>A broadcast and the liveness check\<close>

text \<open>\<open>BroadcastMessage\<close> with its goroutines: those that have not looked up their node, those that are
  in the assignment to the result map, the map, and the cluster, which the heartbeat loop changes
  meanwhile.\<close>

record BCast =
  bc_calls :: "string list"
  bc_writing :: "(string \<times> gerror) list"
  bc_results :: "(string, gerror) gomap"
  bc_cluster :: Cluster

definition bcast_start :: "Cluster \<Rightarrow> BCast" where
  "bcast_start c = \<lparr>bc_calls = gm_keys (cl_RemoteNodes c), bc_writing = [], bc_results = [], bc_cluster = c\<rparr>"

inductive bstep :: "string \<Rightarrow> gval \<Rightarrow> BCast \<Rightarrow> BCast \<Rightarrow> bool" for dest m where
  call_ok: "i \<in> set (bc_calls b) \<Longrightarrow> Cluster_RemoteCall i dest m (bc_cluster b) = None \<Longrightarrow>
    bstep dest m b (b\<lparr>bc_calls := remove1 i (bc_calls b)\<rparr>)"
| call_err: "i \<in> set (bc_calls b) \<Longrightarrow> Cluster_RemoteCall i dest m (bc_cluster b) = Some err \<Longrightarrow>
    bstep dest m b (b\<lparr>bc_calls := remove1 i (bc_calls b), bc_writing := bc_writing b @ [(i, err)]\<rparr>)"
| written: "(i, err) \<in> set (bc_writing b) \<Longrightarrow>
    bstep dest m b (b\<lparr>bc_writing := remove1 (i, err) (bc_writing b), bc_results := gm_put i err (bc_results b)\<rparr>)"
| tick: "Cluster_checkNodeLiveness now (bc_cluster b) = (ps, c) \<Longrightarrow> bstep dest m b (b\<lparr>bc_cluster := c\<rparr>)"

text \<open>Two goroutines may be in the assignment at the same time: a check that finds two members down
  between the copy of the map and the calls is enough.  A Go map does not allow that; when the
  runtime notices, it ends the program.\<close>

lemma broadcast_writes_race:
  assumes "cl_RemoteNodes c = [(i, x), (j, y)]" and "i \<noteq> j"
    and "cn_LastSeen x < now - 3 * cc_HeartbeatInterval (cl_config c)"
    and "cn_LastSeen y < now - 3 * cc_HeartbeatInterval (cl_config c)"
  shows "\<exists>b. reaches (bstep dest m) (bcast_start c) b \<and> map fst (bc_writing b) = [i, j]"
proof -
  let ?c = "c\<lparr>cl_RemoteNodes := []\<rparr>"
  let ?b1 = "(bcast_start c)\<lparr>bc_cluster := ?c\<rparr>"
  let ?b2 = "?b1\<lparr>bc_calls := [j], bc_writing := [(i, not_in_cluster i)]\<rparr>"
  let ?b3 = "?b2\<lparr>bc_calls := [], bc_writing := [(i, not_in_cluster i), (j, not_in_cluster j)]\<rparr>"
  have calls: "bc_calls (bcast_start c) = [i, j]" "bc_writing (bcast_start c) = []"
    using assms(1) by (simp_all add: bcast_start_def gm_keys_def)
  have "snd (Cluster_checkNodeLiveness now c) = ?c"
    using assms by (simp add: Cluster_checkNodeLiveness_def seen_before_def Let_def)
  then have "Cluster_checkNodeLiveness now (bc_cluster (bcast_start c)) = (fst (Cluster_checkNodeLiveness now c), ?c)"
    by (simp add: bcast_start_def prod_eq_iff)
  then have s1: "bstep dest m (bcast_start c) ?b1" by (rule bstep.tick)
  have err: "Cluster_RemoteCall k dest m ?c = Some (not_in_cluster k)" for k by (simp add: Cluster_RemoteCall_def)
  have s2: "bstep dest m ?b1 ?b2" using bstep.call_err [of i ?b1 dest m "not_in_cluster i"] calls err by simp
  have s3: "bstep dest m ?b2 ?b3" using bstep.call_err [of j ?b2 dest m "not_in_cluster j"] err by simp
  have "reaches (bstep dest m) (bcast_start c) ?b3"
    using reaches.step [where step = "bstep dest m", OF reaches.step [where step = "bstep dest m",
        OF reaches_one [where step = "bstep dest m", OF s1] s2] s3] .
  then show ?thesis by (intro exI [of _ ?b3]) simp
qed

section \<open>Choosing a target\<close>

text \<open>The targets of successive sends.\<close>

fun targets_of :: "(int \<Rightarrow> int) list \<Rightarrow> LoadBalancedProcessGroup \<Rightarrow> Target list run" where
  "targets_of [] g = Inr []"
| "targets_of (r # rs) g =
     run_bind (LB_choose r g) (\<lambda>(t, g'). run_bind (targets_of rs g') (\<lambda>ts. Inr (t # ts)))"

lemma next_in_turn_frame:
  "lb_nextIndex g < length (lb_processList g) \<Longrightarrow> \<exists>g'. next_in_turn g = Inr (lb_processList g ! lb_nextIndex g, g') \<and>
     lb_processList g' = lb_processList g \<and> lb_strategy g' = lb_strategy g \<and>
     lb_nextIndex g' = (lb_nextIndex g + 1) mod length (lb_processList g)"
  by (simp add: next_in_turn_def)

text \<open>Round robin takes the processes of the group in turn: as long as the index points into the
  list, the k-th of any number of sends goes to the entry k places after it, cyclically.\<close>

theorem round_robin_in_turn:
  assumes "lb_strategy g = RoundRobin" and "lb_nextIndex g < length (lb_processList g)"
  shows "targets_of rs g = Inr (map (\<lambda>k. lb_processList g ! ((lb_nextIndex g + k) mod length (lb_processList g)))
    [0..<length rs])"
  using assms
proof (induction rs arbitrary: g)
  case (Cons r rs)
  let ?n = "length (lb_processList g)"
  obtain g' where c: "next_in_turn g = Inr (lb_processList g ! lb_nextIndex g, g')"
      and l: "lb_processList g' = lb_processList g" and s: "lb_strategy g' = lb_strategy g"
      and i: "lb_nextIndex g' = (lb_nextIndex g + 1) mod ?n"
    using next_in_turn_frame [OF Cons.prems(2)] by blast
  have ch: "LB_choose r g = Inr (lb_processList g ! lb_nextIndex g, g')"
    using Cons.prems(1) c by (simp add: LB_choose_def)
  have "0 < ?n" using Cons.prems(2) by linarith
  then have i': "lb_nextIndex g' < length (lb_processList g')" unfolding i l by (rule mod_less_divisor)
  have "targets_of rs g' = Inr (map (\<lambda>k. lb_processList g ! ((lb_nextIndex g + Suc k) mod ?n)) [0..<length rs])"
    using Cons.IH [of g'] s Cons.prems(1) l i i' by (simp add: mod_add_left_eq)
  then show ?case using ch Cons.prems(2)
    by (simp add: upt_conv_Cons map_Suc_upt [symmetric] comp_def del: upt_Suc)
qed simp

definition demo_group :: LoadBalancedProcessGroup where
  "demo_group = LB_AddProcess ''n'' ''q'' 3 (LB_AddProcess ''n'' ''p'' 1 (NewLoadBalancedGroup ''g'' RoundRobin))"

theorem round_robin_in_turn_witness:
  "\<exists>ts. targets_of [id, id, id] demo_group = Inr ts \<and> map tg_processID ts = [''p'', ''q'', ''p'']"
proof -
  have "lb_strategy demo_group = RoundRobin" "lb_nextIndex demo_group < length (lb_processList demo_group)"
    by (simp_all add: demo_group_def LB_AddProcess_def NewLoadBalancedGroup_def)
  from round_robin_in_turn [OF this, of "[id, id, id]"] show ?thesis
    by (simp add: demo_group_def LB_AddProcess_def NewLoadBalancedGroup_def upt_conv_Cons)
qed

lemma remove_target_length:
  "length (remove_target a b ts) =
     (if \<exists>t\<in>set ts. tg_nodeID t = a \<and> tg_processID t = b then length ts - 1 else length ts)"
proof (induction ts)
  case (Cons t ts)
  then show ?case by (cases ts) auto
qed simp

text \<open>Removing a process does not move the round-robin index.  If the index is at the last of
  several entries, removing any process of the group makes the next send, and every one after it
  until processes are added, panic with an index out of range.\<close>

theorem remove_process_panics:
  assumes "lb_strategy g = RoundRobin" and "2 \<le> length (lb_processList g)"
    and "lb_nextIndex g = length (lb_processList g) - 1"
    and "t \<in> set (lb_processList g)"
  shows "LB_Send intn m (LB_RemoveProcess (tg_nodeID t) (tg_processID t) g, c) = Inl (Panic ''index out of range'')"
proof -
  let ?ts = "remove_target (tg_nodeID t) (tg_processID t) (lb_processList g)"
  have l: "length ?ts = length (lb_processList g) - 1" using assms(4) by (auto simp: remove_target_length)
  then have "?ts \<noteq> []" using assms(2) by auto
  then show ?thesis using assms(1,3) l
    by (simp add: LB_Send_def LB_choose_def LB_RemoveProcess_def next_in_turn_def)
qed

theorem remove_process_panics_witness:
  "\<exists>t g. LB_choose id demo_group = Inr (t, g) \<and>
     LB_Send id GNil (LB_RemoveProcess ''n'' ''p'' g, demo_cluster) = Inl (Panic ''index out of range'')"
proof -
  let ?t = "\<lparr>tg_nodeID = ''n'', tg_processID = ''p'', tg_weight = 1\<rparr>"
  let ?g = "demo_group\<lparr>lb_nextIndex := 1\<rparr>"
  have d: "lb_processList demo_group = [?t, \<lparr>tg_nodeID = ''n'', tg_processID = ''q'', tg_weight = 3\<rparr>]"
    "lb_strategy demo_group = RoundRobin" "lb_nextIndex demo_group = 0"
    by (simp_all add: demo_group_def LB_AddProcess_def NewLoadBalancedGroup_def)
  have "LB_choose id demo_group = Inr (?t, ?g)" by (simp add: LB_choose_def next_in_turn_def d)
  moreover have "LB_Send id GNil (LB_RemoveProcess (tg_nodeID ?t) (tg_processID ?t) ?g, demo_cluster) =
      Inl (Panic ''index out of range'')"
    by (rule remove_process_panics) (simp_all add: d)
  ultimately show ?thesis by auto
qed

section \<open>Weights\<close>

text \<open>The choice in unbounded integers, which is the code's as long as the sum does not wrap around.\<close>

abbreviation weight :: "Target \<Rightarrow> int" where "weight t \<equiv> sint (tg_weight t)"

definition int_weight :: "Target list \<Rightarrow> int" where
  "int_weight ts = sum_list (map weight ts)"

fun pick_int :: "int \<Rightarrow> int \<Rightarrow> Target list \<Rightarrow> Target" where
  "pick_int selection runningTotal [] = zero_target"
| "pick_int selection runningTotal (t # ts) =
     (let runningTotal' = runningTotal + weight t
      in if selection < runningTotal' then t else pick_int selection runningTotal' ts)"

lemma sint_add_64: "- (2 ^ 63) \<le> sint a + sint b \<Longrightarrow> sint a + sint b < 2 ^ 63 \<Longrightarrow> sint (a + b) = sint a + sint (b :: 64 word)"
  using sint_word_ariths(1) [of a b] by (simp add: signed_take_bit_int_eq_self_iff)

lemma int_weight_nonneg: "(\<forall>u\<in>set ts. 0 \<le> weight u) \<Longrightarrow> 0 \<le> int_weight ts"
  by (auto simp: int_weight_def intro!: sum_list_nonneg)

lemma weight_step:
  assumes "\<forall>u\<in>set (t # ts). 0 \<le> weight u" and "0 \<le> sint x" and "sint x + int_weight (t # ts) < 2 ^ 63"
  shows "sint (x + tg_weight t) = sint x + weight t" "0 \<le> sint (x + tg_weight t)"
    "sint (x + tg_weight t) + int_weight ts < 2 ^ 63"
proof -
  have "0 \<le> int_weight ts" using assms(1) by (intro int_weight_nonneg) simp
  then have b: "0 \<le> sint x + weight t" "sint x + weight t < 2 ^ 63"
    using assms by (simp_all add: int_weight_def)
  then show s: "sint (x + tg_weight t) = sint x + weight t" by (intro sint_add_64) simp_all
  show "0 \<le> sint (x + tg_weight t)" using b(1) s by simp
  show "sint (x + tg_weight t) + int_weight ts < 2 ^ 63" using assms(3) s by (simp add: int_weight_def)
qed

lemma add_weights_int:
  "(\<forall>u\<in>set ts. 0 \<le> weight u) \<Longrightarrow> 0 \<le> sint x \<Longrightarrow> sint x + int_weight ts < 2 ^ 63 \<Longrightarrow>
     sint (add_weights x ts) = sint x + int_weight ts"
proof (induction ts arbitrary: x)
  case (Cons t ts)
  note w = weight_step [OF Cons.prems]
  show ?case using Cons.IH [OF _ w(2,3)] Cons.prems(1) w(1) by (simp add: int_weight_def)
qed (simp add: int_weight_def)

lemma pick_weighted_int:
  "(\<forall>u\<in>set ts. 0 \<le> weight u) \<Longrightarrow> 0 \<le> sint x \<Longrightarrow> sint x + int_weight ts < 2 ^ 63 \<Longrightarrow>
     pick_weighted r x ts = pick_int r (sint x) ts"
proof (induction ts arbitrary: x)
  case (Cons t ts)
  note w = weight_step [OF Cons.prems]
  show ?case using Cons.IH [OF _ w(2,3)] Cons.prems(1) w(1) by (simp add: Let_def)
qed simp

lemma pick_int_shift:
  "pick_int r (d + e) ts = pick_int (r - d) e ts"
proof (induction ts arbitrary: e)
  case (Cons t ts)
  have "d + e + weight t = d + (e + weight t)" by simp
  moreover have "r < d + (e + weight t) \<longleftrightarrow> r - d < e + weight t" by auto
  ultimately show ?case unfolding pick_int.simps Let_def Cons.IH [of "e + weight t", symmetric]
    by (simp only:)
qed simp

lemma pick_int_Cons:
  "pick_int r 0 (t # ts) = (if r < weight t then t else pick_int (r - weight t) 0 ts)"
  using pick_int_shift [of r "weight t" 0 ts] by (simp add: Let_def)

lemma pick_int_in:
  "r < int_weight ts \<Longrightarrow> pick_int r 0 ts \<in> set ts \<or> ts = []"
proof (induction ts arbitrary: r)
  case (Cons t ts)
  show ?case
  proof (cases "r < weight t")
    case False
    then have "r - weight t < int_weight ts" "ts \<noteq> []"
      using Cons.prems by (auto simp: int_weight_def)
    then show ?thesis using Cons.IH [of "r - weight t"] False by (simp add: pick_int_Cons del: pick_int.simps)
  qed (simp add: pick_int_Cons del: pick_int.simps)
qed simp

lemma pick_int_card:
  "(\<forall>u\<in>set ts. 0 \<le> weight u) \<Longrightarrow> distinct ts \<Longrightarrow> t \<in> set ts \<Longrightarrow>
     card {r \<in> {0..<int_weight ts}. pick_int r 0 ts = t} = nat (weight t)"
proof (induction ts)
  case (Cons u ts)
  let ?w = "weight u" and ?n = "int_weight ts"
  have w: "0 \<le> ?w" and n: "0 \<le> ?n" using Cons.prems(1) by (auto simp: int_weight_def intro!: sum_list_nonneg)
  have tot: "int_weight (u # ts) = ?w + ?n" by (simp add: int_weight_def)
  have split: "{r \<in> {0..<?w + ?n}. pick_int r 0 (u # ts) = t} =
      (if u = t then {0..<?w} else {}) \<union> (\<lambda>r. r + ?w) ` {r \<in> {0..<?n}. pick_int r 0 ts = t}"
  proof (intro set_eqI iffI)
    fix r assume r: "r \<in> {r \<in> {0..<?w + ?n}. pick_int r 0 (u # ts) = t}"
    show "r \<in> (if u = t then {0..<?w} else {}) \<union> (\<lambda>r. r + ?w) ` {r \<in> {0..<?n}. pick_int r 0 ts = t}"
    proof (cases "r < ?w")
      case False
      then have "r - ?w \<in> {r \<in> {0..<?n}. pick_int r 0 ts = t}"
        using r by (auto simp: pick_int_Cons simp del: pick_int.simps)
      then show ?thesis by (force intro: image_eqI [of _ _ "r - ?w"])
    qed (use r in \<open>auto simp: pick_int_Cons simp del: pick_int.simps\<close>)
  next
    fix r assume "r \<in> (if u = t then {0..<?w} else {}) \<union> (\<lambda>r. r + ?w) ` {r \<in> {0..<?n}. pick_int r 0 ts = t}"
    then show "r \<in> {r \<in> {0..<?w + ?n}. pick_int r 0 (u # ts) = t}"
      using w n by (auto simp: pick_int_Cons simp del: pick_int.simps split: if_splits)
  qed
  have img: "card ((\<lambda>r. r + ?w) ` {r \<in> {0..<?n}. pick_int r 0 ts = t}) =
      card {r \<in> {0..<?n}. pick_int r 0 ts = t}"
    by (rule card_image) (simp add: inj_on_def)
  show ?case
  proof (cases "u = t")
    case True
    then have "t \<notin> set ts" using Cons.prems(2) by simp
    then have "{r \<in> {0..<?n}. pick_int r 0 ts = t} = {}"
      using pick_int_in [of _ ts] by (cases "ts = []") (fastforce simp: int_weight_def)+
    then have "{r \<in> {0..<?w + ?n}. pick_int r 0 (u # ts) = t} = {0..<?w}"
      using split True by (simp only: image_empty Un_empty_right simp_thms if_True)
    then show ?thesis unfolding tot using True by simp
  next
    case False
    then have "card {r \<in> {0..<?n}. pick_int r 0 ts = t} = nat (weight t)"
      using Cons by simp
    then show ?thesis unfolding tot split using False img by simp
  qed
qed simp

text \<open>C33. Weighted selection is proportional to the weights.  With non-negative weights of positive
  sum that does not wrap around, and distinct entries, the random number always selects an entry
  of the group, and each entry is selected by exactly as many of the equally likely numbers as its
  weight says.\<close>

theorem weighted_choice_proportional:
  assumes "lb_strategy g = WeightedRoundRobin" and "ts = lb_processList g" and "distinct ts"
    and "\<forall>u\<in>set ts. 0 \<le> sint (tg_weight u)" and "W = (\<Sum>u\<leftarrow>ts. sint (tg_weight u))"
    and "0 < W" and "W < 2 ^ 63" and "t \<in> set ts"
  shows "card {r \<in> {0..<W}. LB_choose (\<lambda>_. r) g = Inr (t, g)} = nat (sint (tg_weight t)) \<and>
    (\<forall>r\<in>{0..<W}. \<exists>u\<in>set ts. LB_choose (\<lambda>_. r) g = Inr (u, g))"
proof -
  have W: "W = int_weight ts" using assms(5) by (simp add: int_weight_def)
  have "sint (total_weight ts) = W"
    unfolding total_weight_def W using add_weights_int [OF assms(4), of 0] assms(7) W by simp
  then have c: "LB_choose (\<lambda>_. r) g = Inr (pick_int r 0 ts, g)" for r
    using assms(1,2,6,7) pick_weighted_int [OF assms(4), of 0 r] W by (simp add: LB_choose_def Let_def)
  have "ts \<noteq> []" using assms(8) by auto
  then have "\<forall>r\<in>{0..<W}. \<exists>u\<in>set ts. LB_choose (\<lambda>_. r) g = Inr (u, g)"
    using c pick_int_in [of _ ts] W by auto
  then show ?thesis using pick_int_card [OF assms(4,3,8)] W by (simp add: c)
qed

theorem weighted_choice_proportional_witness:
  "card {r \<in> {0..<4}. LB_choose (\<lambda>_. r) (demo_group\<lparr>lb_strategy := WeightedRoundRobin\<rparr>) =
     Inr (\<lparr>tg_nodeID = ''n'', tg_processID = ''q'', tg_weight = 3\<rparr>, demo_group\<lparr>lb_strategy := WeightedRoundRobin\<rparr>)} = 3"
proof -
  let ?g = "demo_group\<lparr>lb_strategy := WeightedRoundRobin\<rparr>"
  let ?ts = "[\<lparr>tg_nodeID = ''n'', tg_processID = ''p'', tg_weight = 1\<rparr>, \<lparr>tg_nodeID = ''n'', tg_processID = ''q'', tg_weight = 3\<rparr>]"
  have d: "lb_strategy ?g = WeightedRoundRobin" "?ts = lb_processList ?g" "distinct ?ts"
    "\<forall>u\<in>set ?ts. 0 \<le> sint (tg_weight u)" "4 = (\<Sum>u\<leftarrow>?ts. sint (tg_weight u))"
    by (simp_all add: demo_group_def LB_AddProcess_def NewLoadBalancedGroup_def)
  from weighted_choice_proportional [OF d, of "\<lparr>tg_nodeID = ''n'', tg_processID = ''q'', tg_weight = 3\<rparr>"]
  show ?thesis by simp
qed

text \<open>A sum that wraps around is not positive, and the choice falls back to taking turns.\<close>

lemma overflow_takes_turns:
  assumes "lb_strategy g = WeightedRoundRobin" and "map tg_weight (lb_processList g) = [2 ^ 62, 2 ^ 62]"
  shows "LB_choose intn g = next_in_turn g"
proof -
  obtain t u where "lb_processList g = [t, u]" "tg_weight t = 2 ^ 62" "tg_weight u = 2 ^ 62"
    using assms(2) by (auto simp: map_eq_Cons_conv)
  then have "sint (total_weight (lb_processList g)) = - (2 ^ 63)" by (simp add: total_weight_def)
  then show ?thesis using assms(1) by (simp add: LB_choose_def)
qed

end
