(* ===== verification/ClientTransport.thy ===== *)
theory ClientTransport
  imports ServerTransport
begin

text \<open>
  The interface \<open>Transport\<close> of \<open>socket/client.go\<close> as a locale.  Each operation takes the answers
  of the libraries it calls (the dialer, the connection, the HTTP client) as an argument.
\<close>

text \<open>\<open>http.Header\<close>: the values of each key.\<close>

type_synonym http_header = "(string, string list) gomap"

locale client_transport =
  fixes connect :: "'e \<Rightarrow> 't \<Rightarrow> gerror option \<times> 't"
    and send :: "'e \<Rightarrow> bytes \<Rightarrow> 't \<Rightarrow> gerror option \<times> 't"
    and close :: "'e \<Rightarrow> 't \<Rightarrow> gerror option \<times> 't"
    and is_connected :: "'t \<Rightarrow> bool"
    and wf :: "'t \<Rightarrow> bool"
  assumes connect_again: "is_connected t \<Longrightarrow> connect e t = (None, t)"
    and connect_ok: "\<not> is_connected t \<Longrightarrow> connect e t = (err, t') \<Longrightarrow> is_connected t' \<longleftrightarrow> err = None"
    and send_keeps: "send e b t = (err, t') \<Longrightarrow> is_connected t' = is_connected t"
    and close_closes: "wf t \<Longrightarrow> close e t = (err, t') \<Longrightarrow> \<not> is_connected t'"
    and close_again: "\<not> is_connected t \<Longrightarrow> close e t = (None, t)"
    and wf_connect: "wf t \<Longrightarrow> connect e t = (err, t') \<Longrightarrow> wf t'"
    and wf_send: "wf t \<Longrightarrow> send e b t = (err, t') \<Longrightarrow> wf t'"
    and wf_close: "wf t \<Longrightarrow> close e t = (err, t') \<Longrightarrow> wf t'"
begin

text \<open>The attempts of a client to connect, with the answers to each.\<close>

fun connects :: "'e list \<Rightarrow> 't \<Rightarrow> gerror option list \<times> 't" where
  "connects [] t = ([], t)"
| "connects (e # es) t =
     (case connect e t of (err, t') \<Rightarrow> case connects es t' of (errs, t'') \<Rightarrow> (err # errs, t''))"

text \<open>On a transport that is still marked as connected every attempt succeeds without a call.\<close>

lemma connects_connected: "is_connected t \<Longrightarrow> connects es t = (replicate (length es) None, t)"
  by (induction es) (simp_all add: connect_again)

text \<open>Once an attempt has succeeded, so do all later ones.\<close>

lemma connects_result:
  "\<not> is_connected t \<Longrightarrow> connects es t = (errs, t') \<Longrightarrow> is_connected t' \<longleftrightarrow> None \<in> set errs"
proof (induction es arbitrary: t errs t')
  case (Cons e es)
  obtain err t1 where c: "connect e t = (err, t1)" by fastforce
  obtain errs1 t2 where r: "connects es t1 = (errs1, t2)" by fastforce
  have e: "errs = err # errs1" "t' = t2" using Cons.prems(2) c r by simp_all
  show ?case
  proof (cases "is_connected t1")
    case True
    then show ?thesis using connects_connected [of t1 es] r e connect_ok [OF Cons.prems(1) c] by simp
  next
    case False
    then show ?thesis using Cons.IH [OF False r] e connect_ok [OF Cons.prems(1) c] by auto
  qed
qed simp

text \<open>After \<open>Close\<close> the next attempt is made in earnest: it succeeds exactly if the library says so.\<close>

lemma connect_after_close:
  "wf t \<Longrightarrow> close e t = (err, t') \<Longrightarrow> connect e' t' = (err', t'') \<Longrightarrow> is_connected t'' \<longleftrightarrow> err' = None"
  using close_closes connect_ok by blast

end

end
