(* ===== verification/WSTransport.thy ===== *)
theory WSTransport
  imports ClientTransport
begin

text \<open>
  \<open>socket/transport/websocket.go\<close>: the WebSocket transport of the client.  The connection of
  \<open>gorilla/websocket\<close> is the list of the calls made on it; what the dialer and the connection
  answer is an argument.
\<close>

section \<open>State and operations\<close>

record WebSocketTransport =
  wst_url :: string
  wst_headers :: http_header
  wst_conn :: "conn_call list option"
  wst_connected :: bool
  wst_readTimeout :: int
  wst_writeTimeout :: int
  wst_compression :: bool
  wst_past :: "conn_call list list"   \<comment> \<open>the calls on the connections that \<open>Close\<close> has dropped\<close>

datatype WebSocketOption =
    WithHeaders http_header
  | WithReadTimeout int
  | WithWriteTimeout int
  | WithWSCompression bool

fun apply_ws_option :: "WebSocketOption \<Rightarrow> WebSocketTransport \<Rightarrow> WebSocketTransport" where
  "apply_ws_option (WithHeaders hs) t = t\<lparr>wst_headers := hs\<rparr>"
| "apply_ws_option (WithReadTimeout d) t = t\<lparr>wst_readTimeout := d\<rparr>"
| "apply_ws_option (WithWriteTimeout d) t = t\<lparr>wst_writeTimeout := d\<rparr>"
| "apply_ws_option (WithWSCompression b) t = t\<lparr>wst_compression := b\<rparr>"

definition NewWebSocketTransport :: "string \<Rightarrow> WebSocketOption list \<Rightarrow> WebSocketTransport" where
  "NewWebSocketTransport url opts =
     fold apply_ws_option opts
       \<lparr>wst_url = url, wst_headers = [], wst_conn = None, wst_connected = False, wst_readTimeout = 30 * second,
        wst_writeTimeout = 10 * second, wst_compression = False, wst_past = []\<rparr>"

text \<open>The call of the dialer: a copy of the default one with these settings, the URL and the headers.\<close>

record dial_call =
  dc_HandshakeTimeout :: int
  dc_EnableCompression :: bool
  dc_url :: string
  dc_headers :: http_header

definition dial_of :: "WebSocketTransport \<Rightarrow> dial_call" where
  "dial_of t =
     \<lparr>dc_HandshakeTimeout = 10 * second, dc_EnableCompression = wst_compression t, dc_url = wst_url t,
      dc_headers = wst_headers t\<rparr>"

text \<open>Answers of the library: to the dial, to the deadline calls, to each write, to the two calls
  of \<open>Close\<close>; and the time.\<close>

record ws_env =
  we_dial :: "dial_call \<Rightarrow> gerror option"
  we_deadline :: "gerror option"
  we_write :: "nat \<Rightarrow> gerror option"
  we_close :: "gerror option"
  we_now :: int

definition not_connected :: gerror where "not_connected = ErrNew ''not connected''"

definition WST_Connect :: "ws_env \<Rightarrow> WebSocketTransport \<Rightarrow> gerror option \<times> WebSocketTransport" where
  "WST_Connect E t =
     (if wst_connected t then (None, t)
      else case we_dial E (dial_of t) of
        Some err \<Rightarrow> (Some err, t)
      | None \<Rightarrow> (None, t\<lparr>wst_conn := Some [], wst_connected := True\<rparr>))"

definition ws_call :: "conn_call \<Rightarrow> WebSocketTransport \<Rightarrow> WebSocketTransport" where
  "ws_call x t = t\<lparr>wst_conn := map_option (\<lambda>calls. calls @ [x]) (wst_conn t)\<rparr>"

text \<open>The deadline before a write or a read: the error of the call, if it is made at all.\<close>

definition ws_write_deadline :: "ws_env \<Rightarrow> WebSocketTransport \<Rightarrow> gerror option \<times> WebSocketTransport" where
  "ws_write_deadline E t =
     (if wst_writeTimeout t > 0
      then (we_deadline E, ws_call (SetWriteDeadline (we_now E + wst_writeTimeout t)) t) else (None, t))"

definition WST_Send :: "ws_env \<Rightarrow> bytes \<Rightarrow> WebSocketTransport \<Rightarrow> gerror option \<times> WebSocketTransport" where
  "WST_Send E data t =
     (if \<not> wst_connected t \<or> wst_conn t = None then (Some not_connected, t)
      else case ws_write_deadline E t of
        (Some err, t') \<Rightarrow> (Some err, t')
      | (None, t') \<Rightarrow> (we_write E 0, ws_call (WriteMessage data) t'))"

text \<open>\<open>r\<close>: the result of \<open>conn.ReadMessage\<close>.\<close>

definition WST_Receive ::
  "ws_env \<Rightarrow> gerror + bytes \<Rightarrow> WebSocketTransport \<Rightarrow> (gerror + bytes) \<times> WebSocketTransport" where
  "WST_Receive E r t =
     (if \<not> wst_connected t \<or> wst_conn t = None then (Inl not_connected, t)
      else if wst_readTimeout t > 0
      then
        (let t' = ws_call (SetReadDeadline (we_now E + wst_readTimeout t)) t
         in case we_deadline E of Some err \<Rightarrow> (Inl err, t') | None \<Rightarrow> (r, t'))
      else (r, t))"

definition WST_Close :: "ws_env \<Rightarrow> WebSocketTransport \<Rightarrow> gerror option \<times> WebSocketTransport" where
  "WST_Close E t =
     (if \<not> wst_connected t then (None, t)
      else case wst_conn t of
        None \<Rightarrow> (None, t)
      | Some calls \<Rightarrow> (we_close E, t\<lparr>wst_connected := False, wst_conn := None,
          wst_past := wst_past t @ [calls @ [WriteControlClose, ConnClose]]\<rparr>))"

text \<open>The loop of \<open>BatchSend\<close>: it stops at the first error.\<close>

fun ws_write_all :: "(nat \<Rightarrow> gerror option) \<Rightarrow> bytes list \<Rightarrow> WebSocketTransport \<Rightarrow>
    gerror option \<times> WebSocketTransport" where
  "ws_write_all w [] t = (None, t)"
| "ws_write_all w (m # ms) t =
     (case w 0 of
        Some err \<Rightarrow> (Some err, ws_call (WriteMessage m) t)
      | None \<Rightarrow> ws_write_all (\<lambda>k. w (Suc k)) ms (ws_call (WriteMessage m) t))"

definition WST_BatchSend ::
  "ws_env \<Rightarrow> bytes list \<Rightarrow> WebSocketTransport \<Rightarrow> gerror option \<times> WebSocketTransport" where
  "WST_BatchSend E messages t =
     (if \<not> wst_connected t \<or> wst_conn t = None then (Some not_connected, t)
      else case ws_write_deadline E t of
        (Some err, t') \<Rightarrow> (Some err, t')
      | (None, t') \<Rightarrow> ws_write_all (we_write E) messages t')"

text \<open>\<open>enabler\<close>: the network connection below the WebSocket connection has a method
  \<open>EnableWriteCompression\<close>.\<close>

definition WST_EnableCompression :: "bool \<Rightarrow> bool \<Rightarrow> WebSocketTransport \<Rightarrow> WebSocketTransport" where
  "WST_EnableCompression enabler enabled t =
     (let t' = t\<lparr>wst_compression := enabled\<rparr> in
      if wst_connected t' \<and> wst_conn t' \<noteq> None then
        if enabler then ws_call (EnableWriteCompression enabled) t' else t'
      else t')"

text \<open>A turn of a goroutine that reads in a loop: the check under the mutex, then the deadline and
  \<open>ReadMessage\<close>, whose result is \<open>r\<close>.\<close>

definition reader_turn ::
  "ws_env \<Rightarrow> gerror + bytes \<Rightarrow> WebSocketTransport \<Rightarrow> (gerror + bytes) \<times> WebSocketTransport" where
  "reader_turn E r t =
     (if \<not> wst_connected t \<or> wst_conn t = None then (Inl (ErrNew ''connection closed''), t)
      else WST_Receive E r t)"

text \<open>What happens to the goroutine of \<open>ReceiveWithContext\<close>: a turn of its own, with whether the
  context is done at its \<open>select\<close>, or a \<open>Close\<close> by another goroutine.\<close>

datatype read_event = ReadTurn bool ws_env "gerror + bytes" | ClosedByOther ws_env

text \<open>The calls of the handler, whether the goroutine goes on, and the transport.\<close>

fun read_with_context ::
  "gerror \<Rightarrow> read_event list \<Rightarrow> WebSocketTransport \<Rightarrow> (gerror + bytes) list \<times> bool \<times> WebSocketTransport" where
  "read_with_context ctxErr [] t = ([], True, t)"
| "read_with_context ctxErr (ClosedByOther E # es) t = read_with_context ctxErr es (snd (WST_Close E t))"
| "read_with_context ctxErr (ReadTurn ctxDone E r # es) t =
     (if ctxDone then ([Inl ctxErr], False, t)
      else case reader_turn E r t of
        (Inl err, t') \<Rightarrow> ([Inl err], False, t')
      | (Inr m, t') \<Rightarrow> (case read_with_context ctxErr es t' of (hs, b) \<Rightarrow> (Inr m # hs, b)))"

definition WST_ReceiveWithContext ::
  "gerror \<Rightarrow> read_event list \<Rightarrow> WebSocketTransport \<Rightarrow> (gerror + bytes) list \<times> bool \<times> WebSocketTransport" where
  "WST_ReceiveWithContext ctxErr es t =
     (if \<not> wst_connected t \<or> wst_conn t = None then ([Inl not_connected], False, t)
      else read_with_context ctxErr es t)"

section \<open>The interface\<close>

text \<open>A dropped connection was told so and then closed, once.\<close>

definition closed_properly :: "conn_call list \<Rightarrow> bool" where
  "closed_properly calls \<longleftrightarrow> (\<exists>cs. calls = cs @ [WriteControlClose, ConnClose] \<and> ConnClose \<notin> set cs)"

definition wst_ok :: "WebSocketTransport \<Rightarrow> bool" where
  "wst_ok t \<longleftrightarrow> (wst_connected t \<longleftrightarrow> wst_conn t \<noteq> None) \<and>
     (\<forall>cs. wst_conn t = Some cs \<longrightarrow> ConnClose \<notin> set cs) \<and> list_all closed_properly (wst_past t)"

lemma ws_call_simps [simp]:
  "wst_connected (ws_call x t) = wst_connected t" "wst_readTimeout (ws_call x t) = wst_readTimeout t"
  "wst_writeTimeout (ws_call x t) = wst_writeTimeout t" "wst_conn (ws_call x t) = None \<longleftrightarrow> wst_conn t = None"
  "wst_conn t = Some cs \<Longrightarrow> wst_conn (ws_call x t) = Some (cs @ [x])"
  by (simp_all add: ws_call_def)

lemma ws_write_all_frame:
  "ws_write_all w ms t = (err, t') \<Longrightarrow> wst_connected t' = wst_connected t \<and> (wst_conn t' = None \<longleftrightarrow> wst_conn t = None)"
  by (induction w ms t arbitrary: err t' rule: ws_write_all.induct) (force split: option.splits)+

lemma WST_frame:
  "WST_Send E b t = (err, t') \<Longrightarrow> wst_connected t' = wst_connected t \<and> (wst_conn t' = None \<longleftrightarrow> wst_conn t = None)"
  "WST_BatchSend E ms t = (err, t') \<Longrightarrow>
     wst_connected t' = wst_connected t \<and> (wst_conn t' = None \<longleftrightarrow> wst_conn t = None)"
  "WST_Receive E r t = (res, t') \<Longrightarrow>
     wst_connected t' = wst_connected t \<and> (wst_conn t' = None \<longleftrightarrow> wst_conn t = None)"
  by (auto simp: WST_Send_def WST_BatchSend_def WST_Receive_def ws_write_deadline_def Let_def
      dest: ws_write_all_frame split: if_splits option.splits)

lemma ws_call_ok: "x \<noteq> ConnClose \<Longrightarrow> wst_ok t \<Longrightarrow> wst_ok (ws_call x t)"
  by (cases "wst_conn t") (auto simp: wst_ok_def ws_call_def)

lemma ws_write_all_ok: "ws_write_all w ms t = (err, t') \<Longrightarrow> wst_ok t \<Longrightarrow> wst_ok t'"
  by (induction w ms t arbitrary: err t' rule: ws_write_all.induct)
    (auto simp: ws_call_ok split: option.splits)

text \<open>Every operation keeps the representation invariant.\<close>

lemma WST_ok:
  "WST_Connect E t = (err, t') \<Longrightarrow> wst_ok t \<Longrightarrow> wst_ok t'"
  "WST_Send E b t = (err, t') \<Longrightarrow> wst_ok t \<Longrightarrow> wst_ok t'"
  "WST_BatchSend E ms t = (err, t') \<Longrightarrow> wst_ok t \<Longrightarrow> wst_ok t'"
  "WST_Receive E r t = (res, t') \<Longrightarrow> wst_ok t \<Longrightarrow> wst_ok t'"
  "WST_Close E t = (err, t') \<Longrightarrow> wst_ok t \<Longrightarrow> wst_ok t'"
  "wst_ok t \<Longrightarrow> wst_ok (WST_EnableCompression enabler enabled t)"
proof -
  show "WST_Connect E t = (err, t') \<Longrightarrow> wst_ok t \<Longrightarrow> wst_ok t'"
    by (auto simp: WST_Connect_def wst_ok_def split: if_splits option.splits)
  have deadline: "wst_ok t \<Longrightarrow> ws_write_deadline E t = (e, u) \<Longrightarrow> wst_ok u" for e u
    by (auto simp: ws_write_deadline_def ws_call_ok split: if_splits)
  show "WST_Send E b t = (err, t') \<Longrightarrow> wst_ok t \<Longrightarrow> wst_ok t'"
    by (auto simp: WST_Send_def ws_call_ok dest: deadline split: if_splits prod.splits option.splits)
  show "WST_BatchSend E ms t = (err, t') \<Longrightarrow> wst_ok t \<Longrightarrow> wst_ok t'"
    by (auto simp: WST_BatchSend_def dest: deadline ws_write_all_ok split: if_splits prod.splits option.splits)
  show "WST_Receive E r t = (res, t') \<Longrightarrow> wst_ok t \<Longrightarrow> wst_ok t'"
    by (auto simp: WST_Receive_def Let_def ws_call_ok split: if_splits option.splits)
  show "WST_Close E t = (err, t') \<Longrightarrow> wst_ok t \<Longrightarrow> wst_ok t'"
    by (auto simp: WST_Close_def wst_ok_def closed_properly_def split: if_splits option.splits)
  have "wst_ok (t\<lparr>wst_compression := enabled\<rparr>)" if "wst_ok t" using that by (simp add: wst_ok_def)
  then show "wst_ok t \<Longrightarrow> wst_ok (WST_EnableCompression enabler enabled t)"
    by (simp add: WST_EnableCompression_def Let_def ws_call_ok)
qed

interpretation wst: client_transport WST_Connect WST_Send WST_Close wst_connected wst_ok
proof unfold_locales
  fix e b t err t'
  show "wst_connected t \<Longrightarrow> WST_Connect e t = (None, t)" by (simp add: WST_Connect_def)
  show "\<not> wst_connected t \<Longrightarrow> WST_Connect e t = (err, t') \<Longrightarrow> wst_connected t' \<longleftrightarrow> err = None"
    by (cases err) (auto simp: WST_Connect_def split: option.splits)
  show "WST_Send e b t = (err, t') \<Longrightarrow> wst_connected t' = wst_connected t" by (simp add: WST_frame)
  show "wst_ok t \<Longrightarrow> WST_Close e t = (err, t') \<Longrightarrow> \<not> wst_connected t'"
    by (auto simp: WST_Close_def wst_ok_def split: if_splits option.splits)
  show "\<not> wst_connected t \<Longrightarrow> WST_Close e t = (None, t)" by (simp add: WST_Close_def)
qed (erule (1) WST_ok)+

lemma wst_ok_new: "wst_ok (NewWebSocketTransport url opts) \<and> \<not> wst_connected (NewWebSocketTransport url opts)"
proof -
  have "wst_conn (fold apply_ws_option opts t) = wst_conn t \<and>
      wst_connected (fold apply_ws_option opts t) = wst_connected t \<and>
      wst_past (fold apply_ws_option opts t) = wst_past t" for t
  proof (induction opts arbitrary: t)
    case (Cons opt opts)
    then show ?case by (cases opt) simp_all
  qed simp
  then show ?thesis by (simp add: NewWebSocketTransport_def wst_ok_def)
qed

section \<open>Properties\<close>

text \<open>What was written on the connection: the texts of the successful and of the last failed write.\<close>

fun written :: "conn_call list \<Rightarrow> bytes list" where
  "written [] = []"
| "written (WriteMessage m # xs) = m # written xs"
| "written (_ # xs) = written xs"

lemma written_append [simp]: "written (xs @ ys) = written xs @ written ys"
  by (induction xs rule: written.induct) simp_all

lemma ws_write_all_written:
  "wst_conn t = Some cs \<Longrightarrow> ws_write_all w ms t = (err, t') \<Longrightarrow>
     \<exists>cs'. wst_conn t' = Some cs' \<and> (err = None \<longrightarrow> written cs' = written cs @ ms) \<and>
       (\<forall>e. err = Some e \<longrightarrow> (\<exists>k<length ms. w k = Some e \<and> (\<forall>j<k. w j = None) \<and>
          written cs' = written cs @ take (Suc k) ms))"
proof (induction w ms t arbitrary: cs rule: ws_write_all.induct)
  case (2 w m ms t)
  show ?case
  proof (cases "w 0")
    case None
    then have r: "ws_write_all (\<lambda>k. w (Suc k)) ms (ws_call (WriteMessage m) t) = (err, t')" using 2(3) by simp
    have c: "wst_conn (ws_call (WriteMessage m) t) = Some (cs @ [WriteMessage m])" using 2(2) by simp
    from 2(1) [OF None c r] obtain cs' where cs': "wst_conn t' = Some cs'"
      "err = None \<Longrightarrow> written cs' = written cs @ m # ms"
      "\<And>e. err = Some e \<Longrightarrow> \<exists>k<length ms. w (Suc k) = Some e \<and> (\<forall>j<k. w (Suc j) = None) \<and>
          written cs' = written cs @ m # take (Suc k) ms" by auto
    have "\<exists>k<length (m # ms). w k = Some e \<and> (\<forall>j<k. w j = None) \<and> written cs' = written cs @ take (Suc k) (m # ms)"
      if e: "err = Some e" for e
    proof -
      obtain k where k: "k < length ms" "w (Suc k) = Some e" "\<forall>j<k. w (Suc j) = None"
          "written cs' = written cs @ m # take (Suc k) ms" using cs'(3) [OF e] by blast
      then show ?thesis using None by (intro exI [of _ "Suc k"]) (auto simp: less_Suc_eq_0_disj)
    qed
    then show ?thesis using cs'(1,2) by blast
  next
    case (Some e)
    then show ?thesis using 2(2,3) by (auto intro!: exI [of _ 0])
  qed
qed simp

lemma BatchSend_written:
  assumes "wst_connected t" and "wst_conn t = Some cs" and "we_deadline E = None"
    and "WST_BatchSend E ms t = (err, t')"
  shows "\<exists>cs'. wst_conn t' = Some cs' \<and> (err = None \<longrightarrow> written cs' = written cs @ ms) \<and>
    (\<forall>e. err = Some e \<longrightarrow> (\<exists>k<length ms. we_write E k = Some e \<and> (\<forall>j<k. we_write E j = None) \<and>
       written cs' = written cs @ take (Suc k) ms))"
proof (cases "wst_writeTimeout t > 0")
  case True
  then have "ws_write_all (we_write E) ms (ws_call (SetWriteDeadline (we_now E + wst_writeTimeout t)) t) = (err, t')"
    using assms by (simp add: WST_BatchSend_def ws_write_deadline_def)
  from ws_write_all_written [OF _ this, of "cs @ [SetWriteDeadline (we_now E + wst_writeTimeout t)]"]
  show ?thesis using assms(2) by simp
next
  case False
  then have "ws_write_all (we_write E) ms t = (err, t')"
    using assms by (simp add: WST_BatchSend_def ws_write_deadline_def)
  from ws_write_all_written [OF assms(2) this] show ?thesis .
qed

text \<open>A batch is written like the same messages sent one by one: on a live connection without
  errors the frames of the batch follow what was written before, in order; if a write fails,
  the frames up to and including that one were tried, and the error is reported.\<close>

theorem BatchSend_in_order:
  assumes "wst_connected t" and "wst_conn t = Some cs" and "we_deadline E = None"
    and "WST_BatchSend E ms t = (err, t')"
  shows "\<exists>cs'. wst_conn t' = Some cs' \<and> (err = None \<longrightarrow> written cs' = written cs @ ms) \<and>
    (\<forall>e. err = Some e \<longrightarrow> (\<exists>k<length ms. we_write E k = Some e \<and> (\<forall>j<k. we_write E j = None) \<and>
       written cs' = written cs @ take (Suc k) ms))"
  using assms by (rule BatchSend_written)

definition demo_ws_env :: ws_env where
  "demo_ws_env = \<lparr>we_dial = (\<lambda>_. None), we_deadline = None, we_write = (\<lambda>k. if k = 1 then Some ErrTimeout else None),
     we_close = None, we_now = 0\<rparr>"

theorem BatchSend_in_order_witness:
  "\<exists>err t'. WST_BatchSend demo_ws_env [[1], [2], [3]]
       (snd (WST_Connect demo_ws_env (NewWebSocketTransport [] []))) = (err, t') \<and>
     (\<exists>cs'. wst_conn t' = Some cs' \<and> (\<forall>e. err = Some e \<longrightarrow> length (written cs') \<le> 3))"
proof -
  let ?t = "snd (WST_Connect demo_ws_env (NewWebSocketTransport [] []))"
  obtain err t' where b: "WST_BatchSend demo_ws_env [[1], [2], [3]] ?t = (err, t')" by fastforce
  have "wst_connected ?t" "wst_conn ?t = Some []" "we_deadline demo_ws_env = None"
    by (simp_all add: WST_Connect_def NewWebSocketTransport_def demo_ws_env_def)
  from BatchSend_in_order [OF this b] show ?thesis using b by fastforce
qed

text \<open>A broken connection is never dialled again.  A failed \<open>Receive\<close> or \<open>Send\<close> leaves the
  transport marked as connected, and then \<open>Connect\<close>, as often as it is called and whatever the
  dialer would answer, reports success and changes nothing: the transport keeps the dead
  connection until \<open>Close\<close>.\<close>

theorem broken_connection_not_redialled:
  assumes "wst_connected t" and "WST_Receive E r t = (Inl err, t') \<or> WST_Send E b t = (Some err, t')"
  shows "wst.connects Es t' = (replicate (length Es) None, t') \<and> (wst_conn t' = None \<longleftrightarrow> wst_conn t = None)"
proof -
  have "wst_connected t'" "wst_conn t' = None \<longleftrightarrow> wst_conn t = None"
    using assms WST_frame(1) [of E b t "Some err" t'] WST_frame(3) [of E r t "Inl err" t'] by auto
  then show ?thesis using wst.connects_connected by blast
qed

theorem broken_connection_not_redialled_witness:
  "\<exists>t'. WST_Receive demo_ws_env (Inl ErrTimeout) (snd (WST_Connect demo_ws_env (NewWebSocketTransport [] []))) =
       (Inl ErrTimeout, t') \<and>
     fst (wst.connects [demo_ws_env\<lparr>we_dial := (\<lambda>_. Some ErrTimeout)\<rparr>] t') = [None]"
proof -
  let ?t = "snd (WST_Connect demo_ws_env (NewWebSocketTransport [] []))"
  have c: "wst_connected ?t" "wst_conn ?t = Some []"
    by (simp_all add: WST_Connect_def NewWebSocketTransport_def demo_ws_env_def)
  have "we_deadline demo_ws_env = None" by (simp add: demo_ws_env_def)
  then have "fst (WST_Receive demo_ws_env (Inl ErrTimeout) ?t) = Inl ErrTimeout"
    using c by (simp add: WST_Receive_def Let_def)
  then obtain t' where r: "WST_Receive demo_ws_env (Inl ErrTimeout) ?t = (Inl ErrTimeout, t')"
    by (metis prod.collapse)
  from broken_connection_not_redialled [OF c(1) disjI1 [OF r],
      of "[demo_ws_env\<lparr>we_dial := (\<lambda>_. Some ErrTimeout)\<rparr>]"] r
  show ?thesis by simp
qed

end
