(* ===== verification/LPTransport.thy ===== *)
theory LPTransport
  imports ClientTransport
begin

text \<open>
  \<open>socket/transport/longpolling.go\<close>: the long-polling transport of the client.  The requests it gives
  to the HTTP client are built as the code builds them and logged; what the HTTP client returns for
  a request is an argument.  A body that is a JSON array decodes to the raw texts of its elements,
  as for the server (theory ServerTransport).
\<close>

section \<open>State\<close>

text \<open>A request: the calls on its header, in order; \<open>hr_body\<close> is \<open>None\<close> for a \<open>nil\<close> body, \<open>hr_timeout\<close>
  the time limit put on the context, if one is.\<close>

datatype header_op = HeaderSet string string | HeaderAdd string string

record http_request =
  hr_method :: string
  hr_url :: string
  hr_header :: "header_op list"
  hr_body :: "bytes option"
  hr_timeout :: "int option"

record LongPollingTransport =
  lpt_baseURL :: string
  lpt_sessionID :: string
  lpt_connected :: bool
  lpt_incomingQueue :: "bytes chan"
  lpt_headers :: http_header
  lpt_ctxDone :: bool                \<comment> \<open>\<open>t.ctx\<close> is done\<close>
  lpt_pollInterval :: int
  lpt_timeout :: int
  lpt_requests :: "http_request list"      \<comment> \<open>given to \<open>client.Do\<close>, in order\<close>

datatype LongPollingOption =
    WithLongPollingHeaders http_header
  | WithPollInterval int
  | WithTimeout int

fun apply_lp_option :: "LongPollingOption \<Rightarrow> LongPollingTransport \<Rightarrow> LongPollingTransport" where
  "apply_lp_option (WithLongPollingHeaders hs) t =
     t\<lparr>lpt_headers := fold (\<lambda>(k, v). gm_put k v) hs (lpt_headers t)\<rparr>"
| "apply_lp_option (WithPollInterval d) t = t\<lparr>lpt_pollInterval := d\<rparr>"
| "apply_lp_option (WithTimeout d) t = t\<lparr>lpt_timeout := d\<rparr>"

definition NewLongPollingTransport :: "string \<Rightarrow> LongPollingOption list \<Rightarrow> LongPollingTransport" where
  "NewLongPollingTransport baseURL opts =
     fold apply_lp_option opts
       \<lparr>lpt_baseURL = baseURL, lpt_sessionID = [], lpt_connected = False, lpt_incomingQueue = make_chan 100,
        lpt_headers = [], lpt_ctxDone = False, lpt_pollInterval = second, lpt_timeout = 30 * second,
        lpt_requests = []\<rparr>"

section \<open>Requests\<close>

text \<open>The loops over \<open>t.headers\<close>.\<close>

definition header_adds :: "http_header \<Rightarrow> header_op list" where
  "header_adds hs = concat (map (\<lambda>(k, values). map (HeaderAdd k) values) hs)"

definition connect_request :: "LongPollingTransport \<Rightarrow> http_request" where
  "connect_request t =
     \<lparr>hr_method = ''POST'', hr_url = lpt_baseURL t @ ''/connect'', hr_header = header_adds (lpt_headers t),
      hr_body = None, hr_timeout = None\<rparr>"

definition poll_request :: "LongPollingTransport \<Rightarrow> http_request" where
  "poll_request t =
     \<lparr>hr_method = ''GET'', hr_url = lpt_baseURL t @ ''/poll?sessionId='' @ lpt_sessionID t,
      hr_header = header_adds (lpt_headers t), hr_body = None, hr_timeout = Some (lpt_timeout t)\<rparr>"

definition send_request :: "bytes \<Rightarrow> LongPollingTransport \<Rightarrow> http_request" where
  "send_request data t =
     \<lparr>hr_method = ''POST'', hr_url = lpt_baseURL t @ ''/send?sessionId='' @ lpt_sessionID t,
      hr_header = HeaderSet ''Content-Type'' ''application/json'' # header_adds (lpt_headers t),
      hr_body = Some data, hr_timeout = Some (lpt_timeout t)\<rparr>"

definition disconnect_request :: "LongPollingTransport \<Rightarrow> http_request" where
  "disconnect_request t =
     \<lparr>hr_method = ''POST'', hr_url = lpt_baseURL t @ ''/disconnect?sessionId='' @ lpt_sessionID t,
      hr_header = header_adds (lpt_headers t), hr_body = None, hr_timeout = Some (5 * second)\<rparr>"

text \<open>What \<open>client.Do\<close> returns: an error, or the status code, the status line, and the body as it
  is read: as text, decoded for \<open>Connect\<close> (the session identifier), decoded for a poll (the raw
  texts of the array elements).\<close>

datatype lp_answer =
    DoError gerror
  | Answer nat string string "gerror + string" "gerror + string list"

record lp_env =
  le_newRequest :: "string \<Rightarrow> gerror option"   \<comment> \<open>the error of \<open>http.NewRequestWithContext\<close> for a URL\<close>
  le_do :: "http_request \<Rightarrow> lp_answer"
  le_ctxDone :: bool                           \<comment> \<open>the context given to \<open>Connect\<close> is done\<close>

text \<open>Building a request and \<open>client.Do\<close>.\<close>

definition http_do ::
  "lp_env \<Rightarrow> http_request \<Rightarrow> LongPollingTransport \<Rightarrow> (gerror + lp_answer) \<times> LongPollingTransport" where
  "http_do E rq t =
     (case le_newRequest E (hr_url rq) of
        Some err \<Rightarrow> (Inl err, t)
      | None \<Rightarrow> (Inr (le_do E rq), t\<lparr>lpt_requests := lpt_requests t @ [rq]\<rparr>))"

section \<open>Operations\<close>

definition LPT_Connect :: "lp_env \<Rightarrow> LongPollingTransport \<Rightarrow> gerror option \<times> LongPollingTransport" where
  "LPT_Connect E t =
     (if lpt_connected t then (None, t)
      else
        (case http_do E (connect_request t) (t\<lparr>lpt_ctxDone := le_ctxDone E\<rparr>) of
           (Inl err, t1) \<Rightarrow> (Some err, t1)
         | (Inr (DoError err), t1) \<Rightarrow> (Some err, t1)
         | (Inr (Answer code status body sid msgs), t1) \<Rightarrow>
             if code \<noteq> StatusOK then (Some (ErrNew (''failed to connect: '' @ status)), t1)
             else case sid of
               Inl err \<Rightarrow> (Some err, t1)
             | Inr i \<Rightarrow> (None, t1\<lparr>lpt_sessionID := i, lpt_connected := True\<rparr>)))"

definition text_bytes :: "string \<Rightarrow> bytes" where
  "text_bytes s = map of_char s"

definition LPT_fetchMessages ::
  "lp_env \<Rightarrow> LongPollingTransport \<Rightarrow> (gerror + bytes list) \<times> LongPollingTransport" where
  "LPT_fetchMessages E t =
     (if lpt_sessionID t = [] then (Inl (ErrNew ''not connected''), t)
      else case http_do E (poll_request t) t of
        (Inl err, t1) \<Rightarrow> (Inl err, t1)
      | (Inr (DoError err), t1) \<Rightarrow> (Inl err, t1)
      | (Inr (Answer code status body sid msgs), t1) \<Rightarrow>
          if code \<noteq> StatusOK then (Inl (ErrNew (''failed to poll: '' @ status)), t1)
          else case msgs of Inl err \<Rightarrow> (Inl err, t1) | Inr texts \<Rightarrow> (Inr (map text_bytes texts), t1))"

text \<open>One turn of \<open>poll\<close>: whether it goes on; what does not fit the queue is dropped.\<close>

definition LPT_poll_turn :: "lp_env \<Rightarrow> LongPollingTransport \<Rightarrow> bool \<times> LongPollingTransport" where
  "LPT_poll_turn E t =
     (if lpt_ctxDone t then (False, t)
      else case LPT_fetchMessages E t of
        (Inl _, t1) \<Rightarrow> (True, t1)
      | (Inr msgs, t1) \<Rightarrow> (True, t1\<lparr>lpt_incomingQueue := fold ch.offer msgs (lpt_incomingQueue t1)\<rparr>))"

definition LPT_Send :: "lp_env \<Rightarrow> bytes \<Rightarrow> LongPollingTransport \<Rightarrow> gerror option \<times> LongPollingTransport" where
  "LPT_Send E data t =
     (if lpt_sessionID t = [] then (Some (ErrNew ''not connected''), t)
      else case http_do E (send_request data t) t of
        (Inl err, t1) \<Rightarrow> (Some err, t1)
      | (Inr (DoError err), t1) \<Rightarrow> (Some err, t1)
      | (Inr (Answer code status body sid msgs), t1) \<Rightarrow>
          if code \<noteq> StatusOK then (Some (ErrNew (''failed to send message: '' @ status @ '' - '' @ body)), t1)
          else (None, t1))"

text \<open>\<open>None\<close>: \<open>Receive\<close> waits.  When the context is done and a message is there, the \<open>select\<close>
  may take either; \<open>prefer_done\<close> is its choice.\<close>

definition LPT_Receive ::
  "bool \<Rightarrow> LongPollingTransport \<Rightarrow> ((gerror + bytes) \<times> LongPollingTransport) option" where
  "LPT_Receive prefer_done t =
     (if \<not> lpt_connected t then Some (Inl (ErrNew ''not connected''), t)
      else case ch_try_recv (lpt_incomingQueue t) of
        None \<Rightarrow> if lpt_ctxDone t then Some (Inl (ErrNew ''connection closed''), t) else None
      | Some (m, c) \<Rightarrow>
          if lpt_ctxDone t \<and> prefer_done then Some (Inl (ErrNew ''connection closed''), t)
          else Some (Inr m, t\<lparr>lpt_incomingQueue := c\<rparr>))"

text \<open>\<open>Close\<close> tells the server, if the request can be built, and ignores the answer.\<close>

definition LPT_Close :: "lp_env \<Rightarrow> LongPollingTransport \<Rightarrow> gerror option \<times> LongPollingTransport" where
  "LPT_Close E t =
     (if \<not> lpt_connected t then (None, t)
      else (None, (snd (http_do E (disconnect_request t) t))
        \<lparr>lpt_ctxDone := True, lpt_connected := False, lpt_sessionID := []\<rparr>))"

lemma http_do_frame:
  "http_do E rq t = (r, t') \<Longrightarrow> t' = t\<lparr>lpt_requests := lpt_requests t'\<rparr>"
  by (auto simp: http_do_def split: option.splits)

lemma http_do_simps [simp]:
  "lpt_connected (snd (http_do E rq t)) = lpt_connected t"
  "lpt_incomingQueue (snd (http_do E rq t)) = lpt_incomingQueue t"
  "lpt_sessionID (snd (http_do E rq t)) = lpt_sessionID t"
  by (simp_all add: http_do_def split: option.split)

lemmas lpt_defs = LPT_Connect_def LPT_Send_def LPT_fetchMessages_def http_do_def

interpretation lpt: client_transport LPT_Connect LPT_Send LPT_Close lpt_connected "\<lambda>t. ch_ok (lpt_incomingQueue t)"
proof unfold_locales
  fix e b t err t'
  show "lpt_connected t \<Longrightarrow> LPT_Connect e t = (None, t)" by (simp add: LPT_Connect_def)
  show "\<not> lpt_connected t \<Longrightarrow> LPT_Connect e t = (err, t') \<Longrightarrow> lpt_connected t' \<longleftrightarrow> err = None"
    by (auto simp: lpt_defs split: option.splits lp_answer.splits sum.splits if_splits)
  show "LPT_Send e b t = (err, t') \<Longrightarrow> lpt_connected t' = lpt_connected t"
    by (auto simp: lpt_defs split: option.splits lp_answer.splits if_splits)
  show "ch_ok (lpt_incomingQueue t) \<Longrightarrow> LPT_Close e t = (err, t') \<Longrightarrow> \<not> lpt_connected t'"
    by (auto simp: LPT_Close_def split: if_splits)
  show "\<not> lpt_connected t \<Longrightarrow> LPT_Close e t = (None, t)" by (simp add: LPT_Close_def)
  show "ch_ok (lpt_incomingQueue t) \<Longrightarrow> LPT_Connect e t = (err, t') \<Longrightarrow> ch_ok (lpt_incomingQueue t')"
    by (auto simp: lpt_defs split: option.splits lp_answer.splits sum.splits if_splits)
  show "ch_ok (lpt_incomingQueue t) \<Longrightarrow> LPT_Send e b t = (err, t') \<Longrightarrow> ch_ok (lpt_incomingQueue t')"
    by (auto simp: lpt_defs split: option.splits lp_answer.splits if_splits)
  show "ch_ok (lpt_incomingQueue t) \<Longrightarrow> LPT_Close e t = (err, t') \<Longrightarrow> ch_ok (lpt_incomingQueue t')"
    by (auto simp: LPT_Close_def split: if_splits)
qed

section \<open>From the server's poll to the client's queue\<close>

text \<open>The body of a response: the texts of the array that was written.\<close>

fun response_texts :: "response \<Rightarrow> string list" where
  "response_texts [] = []"
| "response_texts (WriteJSONArray ts # ops) = ts"
| "response_texts (_ # ops) = response_texts ops"

text \<open>The answer the HTTP client gets to a poll request the server handled.\<close>

definition poll_answer :: "response \<Rightarrow> lp_env" where
  "poll_answer resp = \<lparr>le_newRequest = (\<lambda>_. None),
     le_do = (\<lambda>_. Answer (response_status resp) [] [] (Inl (ErrNew ''not a session'')) (Inr (response_texts resp))),
     le_ctxDone = False\<rparr>"

lemma fetch_poll:
  assumes "lpt_sessionID t \<noteq> []" and "\<not> lps_closed s"
  shows "LPT_fetchMessages (poll_answer (fst (LPS_HandlePoll now s))) t =
    (Inr (map (\<lambda>m. text_bytes (json_quote (base64 m))) (lps_pendingMessages s)),
     t\<lparr>lpt_requests := lpt_requests t @ [poll_request t]\<rparr>)"
  using assms by (simp add: LPT_fetchMessages_def http_do_def poll_answer_def LPS_HandlePoll_def json_encode_messages_def comp_def)

text \<open>C40. What the server sends to a long-polling client never decodes.  The server's poll answers
  with an array of \<open>[]byte\<close>, which JSON writes as base64 strings, and the client passes the raw
  text of each element on: for every message the server has queued, the client's queue gets
  (up to its capacity) a text in quotation marks, and decoding that as a message fails, whatever
  was sent.\<close>

theorem polled_messages_do_not_decode:
  assumes "lpt_sessionID t \<noteq> []" and "\<not> lpt_ctxDone t" and "\<not> lps_closed s"
    and "ch_buf (lpt_incomingQueue t) = []" and "ch_cap (lpt_incomingQueue t) = 100"
    and "length (lps_pendingMessages s) \<le> 100"
    and "\<And>b. hd b = of_char (CHR ''\"'') \<Longrightarrow> b \<noteq> [] \<Longrightarrow> \<exists>e. unmarshal cd b = Inl e"
    and "LPT_poll_turn (poll_answer (fst (LPS_HandlePoll now s))) t = (go, t')"
  shows "go \<and> length (ch_buf (lpt_incomingQueue t')) = length (lps_pendingMessages s) \<and>
    (\<forall>b\<in>set (ch_buf (lpt_incomingQueue t')). \<exists>e. unmarshal cd b = Inl e)"
proof -
  let ?ms = "map (\<lambda>m. text_bytes (json_quote (base64 m))) (lps_pendingMessages s)"
  have ok: "ch_ok (lpt_incomingQueue t)" using assms(4) by (simp add: ch_ok_def)
  have t': "t' = t\<lparr>lpt_incomingQueue := fold ch.offer ?ms (lpt_incomingQueue t),
      lpt_requests := lpt_requests t @ [poll_request t]\<rparr>" and go
    using assms(8) fetch_poll [OF assms(1,3), of now] assms(2) by (auto simp: LPT_poll_turn_def)
  have q: "ch_buf (lpt_incomingQueue t') = ?ms"
    using ch.offers_contents [OF ok, of ?ms] assms(4-6) by (simp add: t')
  have "\<exists>e. unmarshal cd (text_bytes (json_quote x)) = Inl e" for x
    by (rule assms(7)) (simp_all add: text_bytes_def json_quote_def)
  then show ?thesis using q \<open>go\<close> by auto
qed

definition lp_demo_server :: LongPollingServerTransport where
  "lp_demo_server = snd (LPS_Write [104, 105] (NewLongPollingServerTransport ''s'' DefaultLongPollingServerConfig 0))"

definition lp_demo_client :: LongPollingTransport where
  "lp_demo_client = (NewLongPollingTransport ''http://h/socket'' [])\<lparr>lpt_sessionID := ''s'', lpt_connected := True\<rparr>"

definition lp_demo_codec :: codec where
  "lp_demo_codec = \<lparr>marshal = (\<lambda>m. Inl (ErrNew ''unused'')),
     unmarshal = (\<lambda>b. if hd b = of_char (CHR ''\"'') then Inl (ErrNew ''json: cannot unmarshal string'')
       else Inr \<lparr>msg_Event = [], msg_Data = GNil\<rparr>)\<rparr>"

theorem polled_messages_do_not_decode_witness:
  "\<exists>t'. LPT_poll_turn (poll_answer (fst (LPS_HandlePoll 5 lp_demo_server))) lp_demo_client = (True, t') \<and>
     length (ch_buf (lpt_incomingQueue t')) = 1 \<and>
     (\<forall>b\<in>set (ch_buf (lpt_incomingQueue t')). \<exists>e. unmarshal lp_demo_codec b = Inl e)"
proof -
  obtain go t' where p: "LPT_poll_turn (poll_answer (fst (LPS_HandlePoll 5 lp_demo_server))) lp_demo_client = (go, t')"
    by fastforce
  have "go \<and> length (ch_buf (lpt_incomingQueue t')) = length (lps_pendingMessages lp_demo_server) \<and>
      (\<forall>b\<in>set (ch_buf (lpt_incomingQueue t')). \<exists>e. unmarshal lp_demo_codec b = Inl e)"
    by (rule polled_messages_do_not_decode [OF _ _ _ _ _ _ _ p])
      (simp_all add: lp_demo_client_def NewLongPollingTransport_def lp_demo_server_def LPS_Write_def
        NewLongPollingServerTransport_def lp_demo_codec_def)
  then show ?thesis using p
    by (auto simp: lp_demo_server_def LPS_Write_def NewLongPollingServerTransport_def)
qed

end
