(* ===== verification/Client.thy ===== *)
theory Client
  imports SocketImpl WSTransport LPTransport
begin

text \<open>
  \<open>socket/client.go\<close>: the client.  Its operations are modelled with their calls on the mutex, for
  a goroutine that runs alone: a call on a lock the goroutine itself holds, or an unlock of a mutex
  nobody holds, is a result of its own (\<open>halt\<close>).  The operations of the transport are arguments;
  a deferred unlock is the last step.
\<close>

section \<open>State\<close>

record ('h, 't) Client =
  cl_mu :: rwmutex
  cl_id :: string
  cl_conn :: 't
  cl_handlers :: "(Event, 'h list) gomap"
  cl_rooms :: "(string, bool) gomap"
  cl_connected :: bool
  cl_sendCh :: "Message chan"
  cl_batchSize :: int
  cl_batchInterval :: int
  cl_messageBufferCh :: "Message chan"
  cl_compressionEnabled :: bool
  cl_reconnectDelay :: "64 word"
  cl_maxReconnectDelay :: "64 word"
  cl_reconnectAttempts :: int
  cl_cancelled :: bool

datatype ClientOption =
    WithReconnectDelay "64 word"
  | WithMaxReconnectDelay "64 word"
  | WithReconnectAttempts int
  | WithBatchSend int int
  | WithClientCompression bool

fun apply_client_option :: "ClientOption \<Rightarrow> ('h, 't) Client \<Rightarrow> ('h, 't) Client" where
  "apply_client_option (WithReconnectDelay d) c = c\<lparr>cl_reconnectDelay := d\<rparr>"
| "apply_client_option (WithMaxReconnectDelay d) c = c\<lparr>cl_maxReconnectDelay := d\<rparr>"
| "apply_client_option (WithReconnectAttempts n) c = c\<lparr>cl_reconnectAttempts := n\<rparr>"
| "apply_client_option (WithBatchSend n d) c = c\<lparr>cl_batchSize := n, cl_batchInterval := d\<rparr>"
| "apply_client_option (WithClientCompression b) c = c\<lparr>cl_compressionEnabled := b\<rparr>"

definition NewClient ::
  "bytes option \<Rightarrow> 64 word \<Rightarrow> 't \<Rightarrow> ClientOption list \<Rightarrow> ('h, 't) Client \<times> 64 word" where
  "NewClient rnd idCounter transport opts =
     (case generateID rnd idCounter of
        (i, idCounter') \<Rightarrow>
          (fold apply_client_option opts
            \<lparr>cl_mu = Unlocked, cl_id = i, cl_conn = transport, cl_handlers = [], cl_rooms = [],
             cl_connected = False, cl_sendCh = make_chan 100, cl_batchSize = 10,
             cl_batchInterval = 50 * 1000000, cl_messageBufferCh = make_chan 1000,
             cl_compressionEnabled = False, cl_reconnectDelay = 1000000000,
             cl_maxReconnectDelay = 30000000000, cl_reconnectAttempts = 5, cl_cancelled = False\<rparr>,
           idCounter'))"

section \<open>The mutex\<close>

definition c_Lock :: "('h, 't) Client \<Rightarrow> ('h, 't) Client run" where
  "c_Lock c = run_bind (rw_Lock (cl_mu c)) (\<lambda>m. Inr (c\<lparr>cl_mu := m\<rparr>))"

definition c_Unlock :: "('h, 't) Client \<Rightarrow> ('h, 't) Client run" where
  "c_Unlock c = run_bind (rw_Unlock (cl_mu c)) (\<lambda>m. Inr (c\<lparr>cl_mu := m\<rparr>))"

definition c_RLock :: "('h, 't) Client \<Rightarrow> ('h, 't) Client run" where
  "c_RLock c = run_bind (rw_RLock (cl_mu c)) (\<lambda>m. Inr (c\<lparr>cl_mu := m\<rparr>))"

definition c_RUnlock :: "('h, 't) Client \<Rightarrow> ('h, 't) Client run" where
  "c_RUnlock c = run_bind (rw_RUnlock (cl_mu c)) (\<lambda>m. Inr (c\<lparr>cl_mu := m\<rparr>))"

section \<open>Operations\<close>

text \<open>What \<open>Send\<close> does between the lock and the deferred unlock.\<close>

definition queue_message :: "Message \<Rightarrow> ('h, 't) Client \<Rightarrow> gerror option \<times> ('h, 't) Client" where
  "queue_message msg c =
     (if cl_batchSize c > 1
      then case ch_try_send msg (cl_messageBufferCh c) of
          Some ch \<Rightarrow> (None, c\<lparr>cl_messageBufferCh := ch\<rparr>)
        | None \<Rightarrow> (Some (ErrNew ''message buffer full''), c)
      else case ch_try_send msg (cl_sendCh c) of
          Some ch \<Rightarrow> (None, c\<lparr>cl_sendCh := ch\<rparr>)
        | None \<Rightarrow> (Some (ErrNew ''send buffer full''), c))"

definition Client_Send :: "Event \<Rightarrow> gval \<Rightarrow> ('h, 't) Client \<Rightarrow> (gerror option \<times> ('h, 't) Client) run" where
  "Client_Send event data c =
     run_bind (c_RLock c) (\<lambda>c1.
       case (if \<not> cl_connected c1 then (Some ErrConnectionClosed, c1)
             else queue_message \<lparr>msg_Event = event, msg_Data = data\<rparr> c1) of
         (err, c2) \<Rightarrow> run_bind (c_RUnlock c2) (\<lambda>c3. Inr (err, c3)))"

text \<open>The loops \<open>Connect\<close> starts.\<close>

datatype loop = SendLoop | ReceiveLoop | BatchProcessingLoop

text \<open>The sends of \<open>Connect\<close>; their results are ignored.\<close>

fun rejoin :: "string list \<Rightarrow> ('h, 't) Client \<Rightarrow> ('h, 't) Client run" where
  "rejoin [] c = Inr c"
| "rejoin (room # rooms) c =
     run_bind (Client_Send ''join'' (GString room) c) (\<lambda>(err, c'). rejoin rooms c')"

definition Client_Connect ::
  "('t \<Rightarrow> gerror option \<times> 't) \<Rightarrow> ('h, 't) Client \<Rightarrow> (gerror option \<times> loop list \<times> ('h, 't) Client) run"
  where
  "Client_Connect tr_connect c =
     run_bind (c_Lock c) (\<lambda>c1.
       if cl_connected c1 then run_bind (c_Unlock c1) (\<lambda>c2. Inr (None, [], c2))
       else
         let roomsToRejoin = gm_keys (cl_rooms c1) in
         case tr_connect (cl_conn c1) of
           (Some err, t) \<Rightarrow>
             run_bind (c_Unlock (c1\<lparr>cl_conn := t\<rparr>)) (\<lambda>c2.
             run_bind (c_Unlock c2) (\<lambda>c3. Inr (Some err, [], c3)))
         | (None, t) \<Rightarrow>
             run_bind (c_Unlock (c1\<lparr>cl_conn := t, cl_connected := True\<rparr>)) (\<lambda>c2.
             run_bind (rejoin roomsToRejoin c2) (\<lambda>c3.
             run_bind (c_Unlock c3) (\<lambda>c4. Inr (None, [SendLoop, ReceiveLoop, BatchProcessingLoop], c4)))))"

definition Client_On :: "Event \<Rightarrow> 'h \<Rightarrow> ('h, 't) Client \<Rightarrow> ('h, 't) Client run" where
  "Client_On event h c =
     run_bind (c_Lock c) (\<lambda>c1. c_Unlock (c1\<lparr>cl_handlers := add_handler event h (cl_handlers c1)\<rparr>))"

definition Client_Off :: "Event \<Rightarrow> ('h, 't) Client \<Rightarrow> ('h, 't) Client run" where
  "Client_Off event c =
     run_bind (c_Lock c) (\<lambda>c1. c_Unlock (c1\<lparr>cl_handlers := gm_delete event (cl_handlers c1)\<rparr>))"

definition Client_triggerEvent ::
  "Event \<Rightarrow> gval \<Rightarrow> ('h, 't) Client \<Rightarrow> ('h spawned \<times> ('h, 't) Client) run" where
  "Client_triggerEvent event data c =
     run_bind (c_RLock c) (\<lambda>c1.
     run_bind (c_RUnlock c1) (\<lambda>c2.
       Inr (map (\<lambda>h. (h, data)) (handlers_of (cl_handlers c1) event), c2)))"

text \<open>The goroutines of the disconnect handlers, and whether \<open>reconnect\<close> is started.\<close>

definition Client_handleDisconnect ::
  "gerror \<Rightarrow> ('h, 't) Client \<Rightarrow> ('h spawned \<times> bool \<times> ('h, 't) Client) run" where
  "Client_handleDisconnect err c =
     run_bind (c_Lock c) (\<lambda>c1.
       if \<not> cl_connected c1 then run_bind (c_Unlock c1) (\<lambda>c2. Inr ([], False, c2))
       else
         run_bind (c_Unlock (c1\<lparr>cl_connected := False\<rparr>)) (\<lambda>c2.
         run_bind (Client_triggerEvent EventDisconnect (GErr err) c2) (\<lambda>(gs, c3).
           Inr (gs, cl_reconnectAttempts c3 \<noteq> 0, c3))))"

text \<open>One turn of \<open>receiveLoop\<close> on the result of \<open>Receive\<close>: goroutines, whether it goes on, whether
  \<open>reconnect\<close> is started.\<close>

definition Client_receive_turn ::
  "codec \<Rightarrow> gerror + bytes \<Rightarrow> ('h, 't) Client \<Rightarrow> ('h spawned \<times> bool \<times> bool \<times> ('h, 't) Client) run" where
  "Client_receive_turn cd r c =
     (case r of
        Inl err \<Rightarrow>
          run_bind (Client_triggerEvent EventError (GErr err) c) (\<lambda>(gs, c1).
          run_bind (Client_handleDisconnect err c1) (\<lambda>(gs', rc, c2). Inr (gs @ gs', False, rc, c2)))
      | Inr data \<Rightarrow>
          (case unmarshal cd data of
             Inl _ \<Rightarrow> run_bind (Client_triggerEvent EventError (GErr ErrInvalidMessage) c)
               (\<lambda>(gs, c1). Inr (gs, True, False, c1))
           | Inr msg \<Rightarrow> run_bind (Client_triggerEvent (msg_Event msg) (msg_Data msg) c)
               (\<lambda>(gs, c1). Inr (gs, True, False, c1))))"

text \<open>\<open>receiveLoop\<close> on a list of answers of the connection; \<open>tr_receive\<close>: the transport's \<open>Receive\<close>.\<close>

fun Client_receiveLoop ::
  "codec \<Rightarrow> ('e \<Rightarrow> 't \<Rightarrow> (gerror + bytes) \<times> 't) \<Rightarrow> 'e list \<Rightarrow> ('h, 't) Client \<Rightarrow>
     ('h spawned \<times> bool \<times> bool \<times> ('h, 't) Client) run" where
  "Client_receiveLoop cd tr_receive [] c = Inr ([], True, False, c)"
| "Client_receiveLoop cd tr_receive (x # xs) c =
     (case tr_receive x (cl_conn c) of
        (r, t) \<Rightarrow> run_bind (Client_receive_turn cd r (c\<lparr>cl_conn := t\<rparr>)) (\<lambda>(gs, goes_on, rc, c1).
          if goes_on then run_bind (Client_receiveLoop cd tr_receive xs c1)
            (\<lambda>(gs', goes_on', rc', c2). Inr (gs @ gs', goes_on', rc', c2))
          else Inr (gs, False, rc, c1)))"

text \<open>One turn of \<open>sendLoop\<close> with a message.\<close>

definition Client_send_turn ::
  "codec \<Rightarrow> (bytes \<Rightarrow> 't \<Rightarrow> gerror option \<times> 't) \<Rightarrow> Message \<Rightarrow> ('h, 't) Client \<Rightarrow>
     ('h spawned \<times> bool \<times> bool \<times> ('h, 't) Client) run" where
  "Client_send_turn cd tr_send msg c =
     (case marshal cd msg of
        Inl err \<Rightarrow> run_bind (Client_triggerEvent EventError (GErr err) c) (\<lambda>(gs, c1). Inr (gs, True, False, c1))
      | Inr data \<Rightarrow>
          (case tr_send data (cl_conn c) of
             (None, t) \<Rightarrow> Inr ([], True, False, c\<lparr>cl_conn := t\<rparr>)
           | (Some err, t) \<Rightarrow>
               run_bind (Client_triggerEvent EventError (GErr err) (c\<lparr>cl_conn := t\<rparr>)) (\<lambda>(gs, c1).
               run_bind (Client_handleDisconnect err c1) (\<lambda>(gs', rc, c2). Inr (gs @ gs', False, rc, c2)))))"

definition Client_Close ::
  "('t \<Rightarrow> gerror option \<times> 't) \<Rightarrow> ('h, 't) Client \<Rightarrow> (gerror option \<times> ('h, 't) Client) run" where
  "Client_Close tr_close c =
     run_bind (c_Lock c) (\<lambda>c1.
       if \<not> cl_connected c1 then run_bind (c_Unlock c1) (\<lambda>c2. Inr (None, c2))
       else case tr_close (cl_conn c1) of
         (err, t) \<Rightarrow> run_bind (c_Unlock (c1\<lparr>cl_cancelled := True, cl_connected := False, cl_conn := t\<rparr>))
           (\<lambda>c2. Inr (err, c2)))"

definition Client_Join :: "string \<Rightarrow> ('h, 't) Client \<Rightarrow> ('h, 't) Client run" where
  "Client_Join room c =
     run_bind (c_Lock c) (\<lambda>c1.
       let c2 = c1\<lparr>cl_rooms := gm_put room True (cl_rooms c1)\<rparr> in
       if cl_connected c2
       then run_bind (Client_Send ''join'' (GString room) c2) (\<lambda>(err, c3). c_Unlock c3)
       else c_Unlock c2)"

definition Client_Leave :: "string \<Rightarrow> ('h, 't) Client \<Rightarrow> ('h, 't) Client run" where
  "Client_Leave room c =
     run_bind (c_Lock c) (\<lambda>c1.
       let c2 = c1\<lparr>cl_rooms := gm_delete room (cl_rooms c1)\<rparr> in
       if cl_connected c2
       then run_bind (Client_Send ''leave'' (GString room) c2) (\<lambda>(err, c3). c_Unlock c3)
       else c_Unlock c2)"

definition Client_Rooms :: "('h, 't) Client \<Rightarrow> string list run" where
  "Client_Rooms c = run_bind (c_RLock c) (\<lambda>c1. run_bind (c_RUnlock c1) (\<lambda>_. Inr (gm_keys (cl_rooms c1))))"

definition Client_InRoom :: "string \<Rightarrow> ('h, 't) Client \<Rightarrow> bool run" where
  "Client_InRoom room c =
     run_bind (c_RLock c) (\<lambda>c1. run_bind (c_RUnlock c1) (\<lambda>_. Inr (gm_has (cl_rooms c1) room)))"

definition Client_ID :: "('h, 't) Client \<Rightarrow> string" where
  "Client_ID c = cl_id c"

definition Client_IsConnected :: "('h, 't) Client \<Rightarrow> bool run" where
  "Client_IsConnected c = run_bind (c_RLock c) (\<lambda>c1. run_bind (c_RUnlock c1) (\<lambda>_. Inr (cl_connected c1)))"

section \<open>Reconnecting\<close>

datatype reconnect_end = Reconnected | GaveUp | Cancelled | StillTrying

text \<open>The loop of \<open>reconnect\<close>: for each turn, whether the context ends the wait and the result of
  \<open>Connect\<close>.  The waits, in nanoseconds as a signed 64-bit number, and how it ends.\<close>

definition next_delay :: "64 word \<Rightarrow> 64 word \<Rightarrow> 64 word" where
  "next_delay maxd d = (let d2 = d * 2 in if sint d2 > sint maxd then maxd else d2)"

fun reconnect_loop ::
  "int \<Rightarrow> 64 word \<Rightarrow> int \<Rightarrow> 64 word \<Rightarrow> (bool \<times> gerror option) list \<Rightarrow> 64 word list \<times> reconnect_end" where
  "reconnect_loop limit maxd attempts delay outs =
     (if \<not> (limit \<le> 0 \<or> attempts < limit) then ([], GaveUp)
      else case outs of
        [] \<Rightarrow> ([], StillTrying)
      | (ctxDone, err) # outs' \<Rightarrow>
          if ctxDone then ([delay], Cancelled)
          else if err = None then ([delay], Reconnected)
          else case reconnect_loop limit maxd (attempts + 1) (next_delay maxd delay) outs' of
            (ds, e) \<Rightarrow> (delay # ds, e))"

declare reconnect_loop.simps [simp del]

definition Client_reconnect :: "(bool \<times> gerror option) list \<Rightarrow> ('h, 't) Client \<Rightarrow> 64 word list \<times> reconnect_end"
  where
  "Client_reconnect outs c =
     reconnect_loop (cl_reconnectAttempts c) (cl_maxReconnectDelay c) 0 (cl_reconnectDelay c) outs"

text \<open>The same loop with the calls of \<open>Connect\<close> it makes: for each turn whether the context ends the
  wait, and the transport's answer.  The loops \<open>Connect\<close> starts are returned too.\<close>

fun reconnect_calls ::
  "int \<Rightarrow> 64 word \<Rightarrow> int \<Rightarrow> 64 word \<Rightarrow> (bool \<times> ('t \<Rightarrow> gerror option \<times> 't)) list \<Rightarrow> ('h, 't) Client \<Rightarrow>
     (64 word list \<times> reconnect_end \<times> loop list \<times> ('h, 't) Client) run" where
  "reconnect_calls limit maxd attempts delay turns c =
     (if \<not> (limit \<le> 0 \<or> attempts < limit) then Inr ([], GaveUp, [], c)
      else case turns of
        [] \<Rightarrow> Inr ([], StillTrying, [], c)
      | (ctxDone, tr_connect) # turns' \<Rightarrow>
          if ctxDone then Inr ([delay], Cancelled, [], c)
          else run_bind (Client_Connect tr_connect c) (\<lambda>(err, loops, c').
            if err = None then Inr ([delay], Reconnected, loops, c')
            else run_bind (reconnect_calls limit maxd (attempts + 1) (next_delay maxd delay) turns' c')
              (\<lambda>(ds, e, loops', c''). Inr (delay # ds, e, loops', c''))))"

declare reconnect_calls.simps [simp del]

definition Client_reconnect_run ::
  "(bool \<times> ('t \<Rightarrow> gerror option \<times> 't)) list \<Rightarrow> ('h, 't) Client \<Rightarrow>
     (64 word list \<times> reconnect_end \<times> loop list \<times> ('h, 't) Client) run" where
  "Client_reconnect_run turns c =
     reconnect_calls (cl_reconnectAttempts c) (cl_maxReconnectDelay c) 0 (cl_reconnectDelay c) turns c"

section \<open>Batching\<close>

datatype batch_event = BatchMessage Message | BatchTick

text \<open>\<open>batchProcessingLoop\<close> on what its \<open>select\<close> gets: the batches given to \<open>processBatch\<close>, and
  the batch under construction.\<close>

fun batch_loop :: "int \<Rightarrow> batch_event list \<Rightarrow> Message list \<Rightarrow> Message list list \<times> Message list" where
  "batch_loop n [] batch = ([], batch)"
| "batch_loop n (BatchMessage msg # es) batch =
     (let batch' = batch @ [msg] in
      if int (length batch') \<ge> n
      then (case batch_loop n es [] of (bs, rest) \<Rightarrow> (batch' # bs, rest))
      else batch_loop n es batch')"
| "batch_loop n (BatchTick # es) batch =
     (if length batch > 0
      then (case batch_loop n es [] of (bs, rest) \<Rightarrow> (batch # bs, rest))
      else batch_loop n es batch)"

definition Client_batchProcessingLoop ::
  "batch_event list \<Rightarrow> ('h, 't) Client \<Rightarrow> (Message list list \<times> Message list) run" where
  "Client_batchProcessingLoop es c =
     (if cl_batchSize c \<le> 1 then Inr ([], [])
      else if cl_batchInterval c \<le> 0 then Inl (Panic ''non-positive interval for NewTicker'')
      else Inr (batch_loop (cl_batchSize c) es []))"

text \<open>Sends one after the other, up to the first error.\<close>

fun send_each :: "(bytes \<Rightarrow> 't \<Rightarrow> gerror option \<times> 't) \<Rightarrow> bytes list \<Rightarrow> 't \<Rightarrow> gerror option \<times> 't" where
  "send_each tr_send [] t = (None, t)"
| "send_each tr_send (b # bs) t =
     (case tr_send b t of (Some err, t') \<Rightarrow> (Some err, t') | (None, t') \<Rightarrow> send_each tr_send bs t')"

text \<open>The texts of the messages that can be encoded, and the errors of the others.\<close>

fun encode_batch :: "codec \<Rightarrow> Message list \<Rightarrow> bytes list \<times> gerror list" where
  "encode_batch cd [] = ([], [])"
| "encode_batch cd (m # ms) =
     (case encode_batch cd ms of
        (js, errs) \<Rightarrow> (case marshal cd m of Inl err \<Rightarrow> (js, err # errs) | Inr j \<Rightarrow> (j # js, errs)))"

fun trigger_all :: "gerror list \<Rightarrow> ('h, 't) Client \<Rightarrow> ('h spawned \<times> ('h, 't) Client) run" where
  "trigger_all [] c = Inr ([], c)"
| "trigger_all (err # errs) c =
     run_bind (Client_triggerEvent EventError (GErr err) c) (\<lambda>(gs, c1).
     run_bind (trigger_all errs c1) (\<lambda>(gs', c2). Inr (gs @ gs', c2)))"

text \<open>\<open>batch_send\<close>: the transport's \<open>BatchSend\<close>, when it has one.\<close>

definition Client_processBatch ::
  "codec \<Rightarrow> (bytes list \<Rightarrow> 't \<Rightarrow> gerror option \<times> 't) option \<Rightarrow> (bytes \<Rightarrow> 't \<Rightarrow> gerror option \<times> 't) \<Rightarrow>
     Message list \<Rightarrow> ('h, 't) Client \<Rightarrow> ('h spawned \<times> bool \<times> ('h, 't) Client) run" where
  "Client_processBatch cd batch_send tr_send messages c =
     (if length messages = 0 then Inr ([], False, c)
      else case encode_batch cd messages of
        (jsonMessages, errs) \<Rightarrow>
          run_bind (trigger_all errs c) (\<lambda>(gs, c1).
            case (case batch_send of
                Some bsend \<Rightarrow> if length jsonMessages > 0 then bsend jsonMessages (cl_conn c1)
                  else send_each tr_send jsonMessages (cl_conn c1)
              | None \<Rightarrow> send_each tr_send jsonMessages (cl_conn c1)) of
              (None, t) \<Rightarrow> Inr (gs, False, c1\<lparr>cl_conn := t\<rparr>)
            | (Some err, t) \<Rightarrow>
                run_bind (Client_triggerEvent EventError (GErr err) (c1\<lparr>cl_conn := t\<rparr>)) (\<lambda>(gs', c2).
                run_bind (Client_handleDisconnect err c2) (\<lambda>(gs'', rc, c3). Inr (gs @ gs' @ gs'', rc, c3)))))"

text \<open>\<open>setupTransport\<close>, which nothing calls; \<open>enable\<close>: the transport's \<open>EnableCompression\<close>.\<close>

definition Client_setupTransport :: "(bool \<Rightarrow> 't \<Rightarrow> 't) option \<Rightarrow> 't \<Rightarrow> ('h, 't) Client \<Rightarrow> 't" where
  "Client_setupTransport enable t c =
     (if cl_compressionEnabled c then case enable of Some f \<Rightarrow> f True t | None \<Rightarrow> t else t)"

end
