(* ===== verification/ClientProps.thy ===== *)
theory ClientProps
  imports Client
begin

text \<open>
  What the client of \<open>socket/client.go\<close> does: the result of every operation for a goroutine that
  finds the mutex unlocked, the waits and the end of \<open>reconnect\<close>, and the batches.
\<close>

section \<open>Operations on an unlocked client\<close>

named_theorems client_runs \<open>results of the client's operations on an unlocked mutex\<close>

lemma c_lock_simps [simp]:
  "cl_mu c = Unlocked \<Longrightarrow> c_Lock c = Inr (c\<lparr>cl_mu := WLocked\<rparr>)"
  "cl_mu c = WLocked \<Longrightarrow> c_Unlock c = Inr (c\<lparr>cl_mu := Unlocked\<rparr>)"
  "cl_mu c = Unlocked \<Longrightarrow> c_Unlock c = Inl (Fatal ''sync: Unlock of unlocked RWMutex'')"
  "cl_mu c = Unlocked \<Longrightarrow> c_RLock c = Inr (c\<lparr>cl_mu := RLocked 0\<rparr>)"
  "cl_mu c = WLocked \<Longrightarrow> c_RLock c = Inl Deadlock"
  "cl_mu c = RLocked 0 \<Longrightarrow> c_RUnlock c = Inr (c\<lparr>cl_mu := Unlocked\<rparr>)"
  by (simp_all add: c_Lock_def c_Unlock_def c_RLock_def c_RUnlock_def)

lemma client_mu_same: "cl_mu c = m \<Longrightarrow> c\<lparr>cl_mu := m\<rparr> = c"
  by (cases c) simp

lemma queue_message_mu:
  "queue_message msg (c\<lparr>cl_mu := m\<rparr>) =
     (fst (queue_message msg c), (snd (queue_message msg c))\<lparr>cl_mu := m\<rparr>)"
  by (simp add: queue_message_def split: option.split)

lemma queue_message_keeps [simp]:
  "cl_mu (snd (queue_message msg c)) = cl_mu c"
  "cl_connected (snd (queue_message msg c)) = cl_connected c"
  "cl_rooms (snd (queue_message msg c)) = cl_rooms c"
  by (simp_all add: queue_message_def split: option.split)

lemma Client_Send_runs [client_runs]:
  assumes "cl_mu c = Unlocked"
  shows "Client_Send event data c =
     Inr (if cl_connected c then queue_message \<lparr>msg_Event = event, msg_Data = data\<rparr> c
          else (Some ErrConnectionClosed, c))"
proof (cases "queue_message \<lparr>msg_Event = event, msg_Data = data\<rparr> c")
  case (Pair err c')
  then have "cl_mu c' = Unlocked" using assms queue_message_keeps(1) [of "\<lparr>msg_Event = event, msg_Data = data\<rparr>" c] by simp
  then show ?thesis using assms Pair
    by (simp add: Client_Send_def queue_message_mu client_mu_same)
qed

lemma rejoin_runs [client_runs]:
  "cl_mu c = Unlocked \<Longrightarrow> \<exists>c'. rejoin rooms c = Inr c' \<and> cl_mu c' = Unlocked"
proof (induction rooms arbitrary: c)
  case (Cons room rooms)
  let ?m = "\<lparr>msg_Event = ''join'', msg_Data = GString room\<rparr>"
  show ?case
  proof (cases "cl_connected c")
    case True
    have "cl_mu (snd (queue_message ?m c)) = Unlocked" using Cons.prems by simp
    then show ?thesis using Cons.IH [of "snd (queue_message ?m c)"] True
      by (simp add: Client_Send_runs [OF Cons.prems] split_beta)
  next
    case False
    then show ?thesis using Cons.IH [OF Cons.prems] by (simp add: Client_Send_runs [OF Cons.prems])
  qed
qed simp

lemma Client_triggerEvent_runs [client_runs]:
  "cl_mu c = Unlocked \<Longrightarrow>
     Client_triggerEvent event data c = Inr (map (\<lambda>h. (h, data)) (handlers_of (cl_handlers c) event), c)"
  by (simp add: Client_triggerEvent_def client_mu_same)

lemma Client_handleDisconnect_runs [client_runs]:
  "cl_mu c = Unlocked \<Longrightarrow>
     Client_handleDisconnect err c =
       Inr (if cl_connected c
            then (map (\<lambda>h. (h, GErr err)) (handlers_of (cl_handlers c) EventDisconnect),
                  cl_reconnectAttempts c \<noteq> 0, c\<lparr>cl_connected := False\<rparr>)
            else ([], False, c))"
  by (simp add: Client_handleDisconnect_def Client_triggerEvent_runs client_mu_same)

lemma Client_On_runs [client_runs]:
  "cl_mu c = Unlocked \<Longrightarrow>
     Client_On event h c = Inr (c\<lparr>cl_handlers := add_handler event h (cl_handlers c)\<rparr>)"
  by (cases c) (simp add: Client_On_def)

lemma Client_Off_runs [client_runs]:
  "cl_mu c = Unlocked \<Longrightarrow>
     Client_Off event c = Inr (c\<lparr>cl_handlers := gm_delete event (cl_handlers c)\<rparr>)"
  by (cases c) (simp add: Client_Off_def)

lemma Client_Close_runs [client_runs]:
  "cl_mu c = Unlocked \<Longrightarrow>
     Client_Close tr_close c =
       Inr (if cl_connected c
            then (fst (tr_close (cl_conn c)),
                  c\<lparr>cl_cancelled := True, cl_connected := False, cl_conn := snd (tr_close (cl_conn c))\<rparr>)
            else (None, c))"
  by (cases c) (auto simp: Client_Close_def split: prod.split)

text \<open>A client that was just made; \<open>closed\<close> and connected ones below differ in one field.\<close>

definition demo_client :: "(string, unit) Client" where
  "demo_client = fst (NewClient (Some (replicate 8 0)) 0 () [WithBatchSend 2 1000])"

lemma demo_client_simps [simp]:
  "cl_mu demo_client = Unlocked" "\<not> cl_connected demo_client" "cl_rooms demo_client = []"
  "cl_batchSize demo_client = 2" "cl_batchInterval demo_client = 1000"
  "cl_handlers demo_client = []" "cl_reconnectAttempts demo_client = 5"
  "cl_reconnectDelay demo_client = 1000000000" "cl_maxReconnectDelay demo_client = 30000000000"
  "cl_messageBufferCh demo_client = make_chan 1000" "cl_sendCh demo_client = make_chan 100"
  by (simp_all add: demo_client_def NewClient_def split_beta)

section \<open>Connect, Join and Leave\<close>

lemma Connect_fatal:
  assumes "cl_mu c = Unlocked"
  shows "Client_Connect tr_connect c =
     (if cl_connected c then Inr (None, [], c) else Inl (Fatal ''sync: Unlock of unlocked RWMutex''))"
proof (cases "cl_connected c")
  case True
  then show ?thesis using assms by (simp add: Client_Connect_def client_mu_same)
next
  case False
  obtain r t where tr: "tr_connect (cl_conn c) = (r, t)" by fastforce
  let ?c = "c\<lparr>cl_conn := t, cl_connected := True, cl_mu := Unlocked\<rparr>"
  obtain c' where "rejoin (gm_keys (cl_rooms c)) ?c = Inr c'" "cl_mu c' = Unlocked"
    using rejoin_runs [of ?c] by auto
  then show ?thesis using assms False tr
    by (cases r) (simp_all add: Client_Connect_def Let_def)
qed

text \<open>A run of \<open>reconnect\<close> that returns is one of the loop on the results of \<open>Connect\<close>.\<close>

lemma reconnect_calls_loop:
  "reconnect_calls limit maxd n d turns c = Inr (ds, e, loops, c') \<Longrightarrow>
     \<exists>outs. length outs \<le> length turns \<and> reconnect_loop limit maxd n d outs = (ds, e)"
proof (induction turns arbitrary: n d c ds)
  case Nil
  then show ?case
    by (intro exI [of _ "[]"]) (auto simp: reconnect_calls.simps reconnect_loop.simps split: if_splits)
next
  case (Cons x turns)
  obtain b tr where x: "x = (b, tr)" by fastforce
  consider (ended) "\<not> (limit \<le> 0 \<or> n < limit) \<or> b" | (call) "limit \<le> 0 \<or> n < limit" "\<not> b" by blast
  then show ?case
  proof cases
    case ended
    then show ?thesis using Cons.prems x
      by (intro exI [of _ "[(b, None)]"]) (auto simp: reconnect_calls.simps reconnect_loop.simps split: if_splits)
  next
    case call
    then obtain err ls c1 where r: "Client_Connect tr c = Inr (err, ls, c1)"
      using Cons.prems x by (auto simp: reconnect_calls.simps [of _ _ _ _ "_ # _"] run_bind_Inr_iff)
    show ?thesis
    proof (cases err)
      case None
      then show ?thesis using Cons.prems x call r
        by (intro exI [of _ "[(False, None)]"])
          (auto simp: reconnect_calls.simps [of _ _ _ _ "_ # _"] reconnect_loop.simps)
    next
      case (Some e1)
      then obtain ds1 where d: "ds = d # ds1"
          "reconnect_calls limit maxd (n + 1) (next_delay maxd d) turns c1 = Inr (ds1, e, loops, c')"
        using Cons.prems x call r
        by (auto simp: reconnect_calls.simps [of _ _ _ _ "_ # _"] run_bind_Inr_iff)
      from Cons.IH [OF d(2)] obtain outs where
        "length outs \<le> length turns" "reconnect_loop limit maxd (n + 1) (next_delay maxd d) outs = (ds1, e)" by blast
      then show ?thesis using d(1) call
        by (intro exI [of _ "(False, Some e1) # outs"]) (simp add: reconnect_loop.simps [of _ _ _ _ "_ # _"])
    qed
  qed
qed

text \<open>\<open>Connect\<close> never returns from an attempt to connect.  Whatever the transport answers, the
  explicit unlock is followed by the deferred one, and with nobody else holding the mutex that is
  a fatal error of the runtime.  Only on a client that is connected already does it return.  So a
  lost connection ends the process: the first wait of \<open>reconnect\<close> that is not cancelled is followed by
  that error.\<close>

theorem Connect_is_fatal:
  assumes "cl_mu c = Unlocked"
  shows "Client_Connect tr_connect c =
     (if cl_connected c then Inr (None, [], c) else Inl (Fatal ''sync: Unlock of unlocked RWMutex'')) \<and>
   (\<not> cl_connected c \<longrightarrow> Client_reconnect_run ((False, tr_connect) # turns) c =
     Inl (Fatal ''sync: Unlock of unlocked RWMutex''))"
  using Connect_fatal [OF assms] by (auto simp: Client_reconnect_run_def reconnect_calls.simps)

theorem Connect_is_fatal_witness:
  "Client_Connect (\<lambda>t. (None, t)) demo_client = Inl (Fatal ''sync: Unlock of unlocked RWMutex'') \<and>
   Client_reconnect_run [(False, \<lambda>t. (Some ErrTimeout, t))] demo_client =
     Inl (Fatal ''sync: Unlock of unlocked RWMutex'')"
  using Connect_is_fatal [of demo_client "\<lambda>t. (None, t)" "[]"]
    Connect_is_fatal [of demo_client "\<lambda>t. (Some ErrTimeout, t)" "[]"] by simp

text \<open>\<open>Join\<close> and \<open>Leave\<close> call \<open>Send\<close>, which asks for the read lock, while they hold the write
  lock: on a connected client they never return.  On a client that is not connected they change
  the set of rooms and nothing else.\<close>

theorem connected_Join_deadlocks:
  assumes "cl_mu c = Unlocked"
  shows "Client_Join room c =
       (if cl_connected c then Inl Deadlock else Inr (c\<lparr>cl_rooms := gm_put room True (cl_rooms c)\<rparr>)) \<and>
     Client_Leave room c =
       (if cl_connected c then Inl Deadlock else Inr (c\<lparr>cl_rooms := gm_delete room (cl_rooms c)\<rparr>))"
  using assms by (cases c) (simp add: Client_Join_def Client_Leave_def Client_Send_def Let_def)

theorem connected_Join_deadlocks_witness:
  "Client_Join ''lobby'' (demo_client\<lparr>cl_connected := True\<rparr>) = Inl Deadlock \<and>
   Client_Leave ''lobby'' demo_client = Inr demo_client"
  using connected_Join_deadlocks [of "demo_client\<lparr>cl_connected := True\<rparr>" "''lobby''"]
    connected_Join_deadlocks [of demo_client "''lobby''"]
  by (simp add: gm_delete_def demo_client_def NewClient_def split_beta)

section \<open>Losing the connection\<close>

text \<open>What the loops do with the errors they meet, one after the other.\<close>

fun handle_disconnects ::
  "gerror list \<Rightarrow> ('h, 't) Client \<Rightarrow> ('h spawned \<times> bool list \<times> ('h, 't) Client) run" where
  "handle_disconnects [] c = Inr ([], [], c)"
| "handle_disconnects (err # errs) c =
     run_bind (Client_handleDisconnect err c) (\<lambda>(gs, rc, c1).
     run_bind (handle_disconnects errs c1) (\<lambda>(gs', rcs, c2). Inr (gs @ gs', rc # rcs, c2)))"

lemma handle_disconnects_closed:
  "cl_mu c = Unlocked \<Longrightarrow> \<not> cl_connected c \<Longrightarrow>
     handle_disconnects errs c = Inr ([], replicate (length errs) False, c)"
  by (induction errs) (simp_all add: Client_handleDisconnect_runs)

text \<open>However many of the client's loops report that the connection broke, the disconnect
  handlers are started once, with the first error, and at most one \<open>reconnect\<close>; none at all when
  the number of attempts is 0, whereas a negative number means to try for ever.\<close>

theorem connection_loss_handled_once:
  assumes "cl_mu c = Unlocked" and "cl_connected c"
  shows "handle_disconnects (err # errs) c =
     Inr (map (\<lambda>h. (h, GErr err)) (handlers_of (cl_handlers c) EventDisconnect),
          (cl_reconnectAttempts c \<noteq> 0) # replicate (length errs) False,
          c\<lparr>cl_connected := False\<rparr>)"
  using assms by (simp add: Client_handleDisconnect_runs handle_disconnects_closed)

theorem connection_loss_handled_once_witness:
  "handle_disconnects [ErrTimeout, ErrConnectionClosed]
      (demo_client\<lparr>cl_connected := True, cl_reconnectAttempts := 0\<rparr>) =
    Inr ([], [False, False], demo_client\<lparr>cl_connected := False, cl_reconnectAttempts := 0\<rparr>)"
  using connection_loss_handled_once
    [of "demo_client\<lparr>cl_connected := True, cl_reconnectAttempts := 0\<rparr>" ErrTimeout "[ErrConnectionClosed]"]
  by (simp add: handlers_of_def)

section \<open>Reconnecting\<close>

definition failed :: "bool \<times> gerror option \<Rightarrow> bool" where
  "failed x \<longleftrightarrow> \<not> fst x \<and> snd x \<noteq> None"

lemma next_delay_sint:
  assumes "0 \<le> sint d" "sint d < 2 ^ 62" "0 \<le> sint m"
  shows "sint (next_delay m d) = min (sint m) (2 * sint d)"
proof -
  have "sint (d * 2) = signed_take_bit 63 (sint d * 2)"
    using sint_word_ariths(3) [of d 2] by simp
  also have "\<dots> = sint d * 2"
    using assms(1,2) by (simp add: signed_take_bit_int_eq_self_iff)
  finally show ?thesis by (auto simp: next_delay_def Let_def)
qed

lemma reconnect_Nil:
  "reconnect_loop limit maxd n d [] = ([], if limit \<le> 0 \<or> n < limit then StillTrying else GaveUp)"
  by (simp add: reconnect_loop.simps)

lemma reconnect_Cons:
  "reconnect_loop limit maxd n d ((b, err) # outs) =
     (if \<not> (limit \<le> 0 \<or> n < limit) then ([], GaveUp)
      else if b then ([d], Cancelled) else if err = None then ([d], Reconnected)
      else (d # fst (reconnect_loop limit maxd (n + 1) (next_delay maxd d) outs),
            snd (reconnect_loop limit maxd (n + 1) (next_delay maxd d) outs)))"
  by (simp add: reconnect_loop.simps split_beta)

lemma reconnect_delays:
  "reconnect_loop limit maxd n d outs = (ds, e) \<Longrightarrow> 0 \<le> sint d \<Longrightarrow> sint d < 2 ^ 62 \<Longrightarrow>
   0 \<le> sint maxd \<Longrightarrow> sint maxd < 2 ^ 62 \<Longrightarrow> i < length ds \<Longrightarrow>
   sint (ds ! i) = (if i = 0 then sint d else min (sint maxd) (2 ^ i * sint d))"
proof (induction outs arbitrary: n d ds e i)
  case Nil
  then show ?case by (auto simp: reconnect_Nil split: if_splits)
next
  case (Cons x outs)
  obtain ctxDone err where x: "x = (ctxDone, err)" by fastforce
  have nd: "sint (next_delay maxd d) = min (sint maxd) (2 * sint d)"
    using next_delay_sint Cons.prems by blast
  have nd_lt: "sint (next_delay maxd d) < 2 ^ 62" "0 \<le> sint (next_delay maxd d)"
    using nd Cons.prems(2,4,5) by simp_all
  show ?case
  proof (cases "(limit \<le> 0 \<or> n < limit) \<and> \<not> ctxDone \<and> err \<noteq> None")
    case False
    then show ?thesis using Cons.prems(1,6) x
      by (auto simp: reconnect_Cons split: if_splits)
  next
    case True
    obtain ds' e' where r: "reconnect_loop limit maxd (n + 1) (next_delay maxd d) outs = (ds', e')"
      by fastforce
    then have ds: "ds = d # ds'" using True Cons.prems(1) x
      by (auto simp: reconnect_Cons)
    show ?thesis
    proof (cases i)
      case 0
      then show ?thesis using ds by simp
    next
      case (Suc j)
      have "sint (ds' ! j) = (if j = 0 then sint (next_delay maxd d)
          else min (sint maxd) (2 ^ j * sint (next_delay maxd d)))"
        using Cons.IH [OF r nd_lt(2) nd_lt(1) Cons.prems(4,5)] Cons.prems(6) ds Suc by simp
      moreover have "min m (2 ^ j * min m (2 * s)) = min m (2 ^ Suc j * s)"
        if "0 \<le> m" "0 \<le> s" for m s :: int
      proof (cases "m \<le> 2 * s")
        case True
        have p: "1 \<le> (2 :: int) ^ j" by simp
        have "m \<le> 2 ^ j * m" using mult_right_mono [OF p that(1)] by simp
        moreover have "2 ^ j * m \<le> 2 ^ j * (2 * s)" using True by (intro mult_left_mono) simp_all
        ultimately have "m \<le> 2 ^ Suc j * s" by (simp only: power_Suc2 mult.assoc)
        then show ?thesis using True \<open>m \<le> 2 ^ j * m\<close> by simp
      qed simp
      ultimately show ?thesis using ds Suc nd Cons.prems(2,4) by (cases j) simp_all
    qed
  qed
qed

lemma reconnect_count:
  "reconnect_loop limit maxd n d outs = (ds, e) \<Longrightarrow> 0 < limit \<Longrightarrow> n \<le> limit \<Longrightarrow>
     int (length ds) \<le> limit - n \<and>
     (e = GaveUp \<longleftrightarrow> limit - n \<le> int (length outs) \<and> list_all failed (take (nat (limit - n)) outs)) \<and>
     (e = GaveUp \<longrightarrow> int (length ds) = limit - n)"
proof (induction outs arbitrary: n d ds e)
  case Nil
  then show ?case by (auto simp: reconnect_Nil split: if_splits)
next
  case (Cons x outs)
  obtain ctxDone err where x: "x = (ctxDone, err)" by fastforce
  show ?case
  proof (cases "n < limit")
    case False
    then show ?thesis using Cons.prems x by (auto simp: reconnect_Cons)
  next
    case True
    then have nat: "nat (limit - n) = Suc (nat (limit - (n + 1)))" by simp
    obtain ds' e' where r: "reconnect_loop limit maxd (n + 1) (next_delay maxd d) outs = (ds', e')"
      by fastforce
    note ih = Cons.IH [OF r Cons.prems(2)]
    show ?thesis
      using Cons.prems(1) True x r ih nat
      by (auto simp: reconnect_Cons failed_def split: if_splits)
  qed
qed

lemma reconnect_unlimited:
  "limit \<le> 0 \<Longrightarrow> snd (reconnect_loop limit maxd n d outs) \<noteq> GaveUp"
proof (induction outs arbitrary: n d)
  case (Cons x outs)
  then show ?case by (cases x) (simp add: reconnect_Cons)
qed (simp add: reconnect_Nil)



section \<open>Batches\<close>

primrec batch_msgs :: "batch_event list \<Rightarrow> Message list" where
  "batch_msgs [] = []"
| "batch_msgs (e # es) = (case e of BatchMessage m \<Rightarrow> m # batch_msgs es | BatchTick \<Rightarrow> batch_msgs es)"

lemma batch_loop_simps:
  "batch_loop n (BatchMessage msg # es) batch =
     (if int (Suc (length batch)) \<ge> n
      then ((batch @ [msg]) # fst (batch_loop n es []), snd (batch_loop n es []))
      else batch_loop n es (batch @ [msg]))"
  "batch_loop n (BatchTick # es) batch =
     (if batch = [] then batch_loop n es []
      else (batch # fst (batch_loop n es []), snd (batch_loop n es [])))"
  by (simp_all add: Let_def split_beta)

lemma batch_loop_msgs: "concat (fst (batch_loop n es batch)) @ snd (batch_loop n es batch) = batch @ batch_msgs es"
  by (induction n es batch rule: batch_loop.induct) (simp_all add: Let_def split_beta)

lemma batch_loop_sizes:
  "0 < n \<Longrightarrow> int (length batch) < n \<Longrightarrow>
     (\<forall>b \<in> set (fst (batch_loop n es batch)). 0 < length b \<and> int (length b) \<le> n) \<and>
     int (length (snd (batch_loop n es batch))) < n"
proof (induction es arbitrary: batch)
  case (Cons e es)
  note ih = Cons.IH [OF Cons.prems(1)]
  have empty: "int (length []) < n" using Cons.prems(1) by simp
  show ?case
  proof (cases e)
    case (BatchMessage msg)
    then show ?thesis using ih [OF empty] ih [of "batch @ [msg]"] Cons.prems(2)
      by (simp add: batch_loop_simps del: batch_loop.simps)
  next
    case BatchTick
    then show ?thesis using ih [OF empty] Cons.prems
      by (simp add: batch_loop_simps del: batch_loop.simps)
  qed
qed simp

lemma batch_loop_tick: "snd (batch_loop n (es @ [BatchTick]) batch) = []"
proof (induction es arbitrary: batch)
  case (Cons e es)
  then show ?case by (cases e) (simp_all add: batch_loop_simps del: batch_loop.simps)
qed simp

text \<open>Batching neither loses, repeats nor reorders a message: the batches given to
  \<open>processBatch\<close> and the one under construction are, one after the other, the messages taken from
  the buffer.  No batch is empty or larger than the batch size, and after a tick nothing is
  pending.\<close>

theorem batches_keep_messages:
  assumes "Client_batchProcessingLoop es c = Inr (bs, rest)" and "1 < cl_batchSize c"
  shows "concat bs @ rest = batch_msgs es \<and>
     (\<forall>b \<in> set bs. 0 < length b \<and> int (length b) \<le> cl_batchSize c) \<and>
     int (length rest) < cl_batchSize c \<and> (es \<noteq> [] \<longrightarrow> last es = BatchTick \<longrightarrow> rest = [])"
proof -
  have r: "batch_loop (cl_batchSize c) es [] = (bs, rest)"
    using assms by (simp add: Client_batchProcessingLoop_def split: if_splits)
  have "concat bs @ rest = batch_msgs es"
    using batch_loop_msgs [of "cl_batchSize c" es "[]"] by (simp add: r)
  moreover have "(\<forall>b \<in> set bs. 0 < length b \<and> int (length b) \<le> cl_batchSize c) \<and> int (length rest) < cl_batchSize c"
    using batch_loop_sizes [of "cl_batchSize c" "[]" es] assms(2) by (simp add: r)
  moreover have "rest = []" if "es \<noteq> []" "last es = BatchTick"
  proof -
    have "es = butlast es @ [BatchTick]" using that append_butlast_last_id [of es] by simp
    then show ?thesis using batch_loop_tick [of "cl_batchSize c" "butlast es" "[]"] by (simp add: r)
  qed
  ultimately show ?thesis by blast
qed

theorem batches_keep_messages_witness:
  "let m = (\<lambda>e. \<lparr>msg_Event = e, msg_Data = GString []\<rparr>);
       r = Client_batchProcessingLoop
             [BatchMessage (m ''a''), BatchMessage (m ''b''), BatchMessage (m ''c''), BatchTick] demo_client
   in r = Inr ([[m ''a'', m ''b''], [m ''c'']], []) \<and>
      concat [[m ''a'', m ''b''], [m ''c'']] = [m ''a'', m ''b'', m ''c'']"
proof -
  let ?m = "\<lambda>e. \<lparr>msg_Event = e, msg_Data = GString []\<rparr>"
  let ?es = "[BatchMessage (?m ''a''), BatchMessage (?m ''b''), BatchMessage (?m ''c''), BatchTick]"
  have r: "Client_batchProcessingLoop ?es demo_client = Inr ([[?m ''a'', ?m ''b''], [?m ''c'']], [])"
    by (simp add: Client_batchProcessingLoop_def Let_def)
  show ?thesis using batches_keep_messages [OF r] r by (simp add: Let_def)
qed

end
