(* ===== verification/ClientLocks.thy ===== *)
theory ClientLocks
  imports ClientProps
begin

text \<open>
  The client's mutex with many goroutines: each operation of \<open>socket/client.go\<close> is the list of its
  calls on the mutex, and an execution is one order of all of them.  A \<open>sync.RWMutex\<close> does not
  know who holds it, so any goroutine's unlock releases it.
\<close>

section \<open>Calls on the mutex\<close>

datatype mutex_call = CLock | CUnlock | CRLock | CRUnlock

fun mutex_do :: "mutex_call \<Rightarrow> rwmutex \<Rightarrow> rwmutex run" where
  "mutex_do CLock m = rw_Lock m"
| "mutex_do CUnlock m = rw_Unlock m"
| "mutex_do CRLock m = rw_RLock m"
| "mutex_do CRUnlock m = rw_RUnlock m"

text \<open>All calls in this order: \<open>Inr\<close> when every one of them returned.\<close>

fun mutex_run :: "mutex_call list \<Rightarrow> rwmutex \<Rightarrow> rwmutex run" where
  "mutex_run [] m = Inr m"
| "mutex_run (x # xs) m = run_bind (mutex_do x m) (mutex_run xs)"

text \<open>The operations: for \<open>Connect\<close> whether the client was connected, whether the transport
  connected, and the number of rooms it joins again.\<close>

datatype client_op =
    OpConnect bool bool nat
  | OpSend | OpOn | OpOff | OpTrigger | OpIsConnected | OpClose | OpRooms | OpInRoom
  | OpDisconnect bool | OpJoin bool | OpLeave bool

fun op_calls :: "client_op \<Rightarrow> mutex_call list" where
  "op_calls (OpConnect connected ok rooms) =
     (if connected then [CLock, CUnlock]
      else if \<not> ok then [CLock, CUnlock, CUnlock]
      else [CLock, CUnlock] @ concat (replicate rooms [CRLock, CRUnlock]) @ [CUnlock])"
| "op_calls OpSend = [CRLock, CRUnlock]"
| "op_calls OpOn = [CLock, CUnlock]"
| "op_calls OpOff = [CLock, CUnlock]"
| "op_calls OpTrigger = [CRLock, CRUnlock]"
| "op_calls OpIsConnected = [CRLock, CRUnlock]"
| "op_calls OpClose = [CLock, CUnlock]"
| "op_calls OpRooms = [CRLock, CRUnlock]"
| "op_calls OpInRoom = [CRLock, CRUnlock]"
| "op_calls (OpDisconnect connected) =
     (if connected then [CLock, CUnlock, CRLock, CRUnlock] else [CLock, CUnlock])"
| "op_calls (OpJoin connected) =
     (if connected then [CLock, CRLock, CRUnlock, CUnlock] else [CLock, CUnlock])"
| "op_calls (OpLeave connected) =
     (if connected then [CLock, CRLock, CRUnlock, CUnlock] else [CLock, CUnlock])"

text \<open>\<open>calls\<close> is an order in which the operations may have made all their calls.\<close>

definition calls_of :: "client_op list \<Rightarrow> mutex_call list \<Rightarrow> bool" where
  "calls_of ops calls \<longleftrightarrow> mset calls = (\<Sum>x\<leftarrow>ops. mset (op_calls x))"

section \<open>Counting locks\<close>

definition w_held :: "rwmutex \<Rightarrow> nat" where
  "w_held m = (if m = WLocked then 1 else 0)"

lemma mutex_do_count:
  "mutex_do x m = Inr m' \<Longrightarrow>
     w_held m' + (if x = CUnlock then 1 else 0) = w_held m + (if x = CLock then 1 else 0)"
  by (cases x; cases m) (auto simp: w_held_def elim!: rw_RUnlock.elims)

lemma mutex_run_count:
  "mutex_run xs m = Inr m' \<Longrightarrow> w_held m' + count (mset xs) CUnlock = w_held m + count (mset xs) CLock"
proof (induction xs arbitrary: m)
  case (Cons x xs)
  then obtain m1 where m1: "mutex_do x m = Inr m1" "mutex_run xs m1 = Inr m'"
    by (auto simp: run_bind_Inr_iff)
  then show ?case using Cons.IH [OF m1(2)] mutex_do_count [OF m1(1)] by (auto split: if_splits)
qed simp

lemma mset_read_calls: "count (mset (concat (replicate n [CRLock, CRUnlock]))) c =
    (if c = CRLock \<or> c = CRUnlock then n else 0)"
  by (induction n) auto

lemma op_calls_count:
  "count (mset (op_calls x)) CUnlock =
     count (mset (op_calls x)) CLock + (case x of OpConnect connected _ _ \<Rightarrow> if connected then 0 else 1 | _ \<Rightarrow> 0)"
  by (cases x) (simp_all add: mset_read_calls)

text \<open>Each operation, run alone, leaves the mutex as it was; \<open>Connect\<close> on a client that is not
  connected does not return, and neither do \<open>Join\<close> and \<open>Leave\<close> on one that is.\<close>

lemma op_calls_alone:
  "mutex_run (op_calls x) Unlocked =
     (case x of
        OpConnect False _ _ \<Rightarrow> Inl (Fatal ''sync: Unlock of unlocked RWMutex'')
      | OpJoin True \<Rightarrow> Inl Deadlock
      | OpLeave True \<Rightarrow> Inl Deadlock
      | _ \<Rightarrow> Inr Unlocked)"
proof -
  have "mutex_run (concat (replicate n [CRLock, CRUnlock]) @ xs) Unlocked = mutex_run xs Unlocked" for n xs
    by (induction n) simp_all
  then show ?thesis by (cases x) (auto split: bool.split)
qed

section \<open>The lists are those of the operations\<close>

text \<open>What an operation of the theory Client does to the mutex, from any state of it, is what its
  list of calls does.\<close>

lemma mutex_run_append: "mutex_run (xs @ ys) m = run_bind (mutex_run xs m) (mutex_run ys)"
  by (induction xs arbitrary: m) (auto simp: run_bind_def split: sum.split)

lemma calls_Send:
  "run_bind (Client_Send e d c) (\<lambda>(err, c'). Inr (cl_mu c')) = mutex_run (op_calls OpSend) (cl_mu c)"
proof -
  have q: "cl_mu (snd (queue_message m c)) = cl_mu c" for m and c :: "('h, 't) Client"
    by (simp add: queue_message_def split: option.split)
  show ?thesis
    by (cases "cl_mu c"; cases "cl_connected c")
      (simp_all add: Client_Send_def c_RLock_def c_RUnlock_def q split_beta)
qed

lemma calls_rejoin:
  "run_bind (rejoin rooms c) (\<lambda>c'. Inr (cl_mu c')) =
     mutex_run (concat (replicate (length rooms) [CRLock, CRUnlock])) (cl_mu c)"
proof (induction rooms arbitrary: c)
  case (Cons room rooms)
  show ?case
  proof (cases "Client_Send ''join'' (GString room) c")
    case (Inl h)
    then show ?thesis using calls_Send [of "''join''" "GString room" c]
      by (auto simp: run_bind_def split: sum.splits)
  next
    case (Inr x)
    then have "mutex_run (op_calls OpSend) (cl_mu c) = Inr (cl_mu (snd x))"
      using calls_Send [of "''join''" "GString room" c] by (simp add: split_beta)
    then show ?thesis using Inr Cons.IH [of "snd x"]
      by (auto simp: split_beta run_bind_def split: sum.splits)
  qed
qed simp

lemma calls_Connect:
  "run_bind (Client_Connect tr c) (\<lambda>(err, ls, c'). Inr (cl_mu c')) =
     mutex_run (op_calls (OpConnect (cl_connected c) (fst (tr (cl_conn c)) = None) (length (cl_rooms c)))) (cl_mu c)"
proof (cases "cl_mu c")
  case Unlocked
  obtain r t where tr: "tr (cl_conn c) = (r, t)" by fastforce
  let ?c = "c\<lparr>cl_conn := t, cl_connected := True, cl_mu := Unlocked\<rparr>"
  have "mutex_run (concat (replicate n [CRLock, CRUnlock])) Unlocked = Inr Unlocked" for n
    by (induction n) simp_all
  then have rej: "run_bind (rejoin (gm_keys (cl_rooms c)) ?c) (\<lambda>c'. Inr (cl_mu c')) = Inr Unlocked"
    using calls_rejoin [of "gm_keys (cl_rooms c)" ?c] by simp
  then obtain c' where "rejoin (gm_keys (cl_rooms c)) ?c = Inr c'" "cl_mu c' = Unlocked"
    by (auto simp: run_bind_Inr_iff)
  then show ?thesis using Unlocked tr op_calls_alone [of "OpConnect (cl_connected c) (r = None) (length (cl_rooms c))"]
    by (cases r; cases "cl_connected c") (simp_all add: Connect_fatal del: op_calls.simps)
qed (simp_all add: Client_Connect_def c_Lock_def)

lemma calls_On: "run_bind (Client_On e h c) (\<lambda>c'. Inr (cl_mu c')) = mutex_run (op_calls OpOn) (cl_mu c)"
  by (cases "cl_mu c") (simp_all add: Client_On_def c_Lock_def c_Unlock_def)

lemma calls_Off: "run_bind (Client_Off e c) (\<lambda>c'. Inr (cl_mu c')) = mutex_run (op_calls OpOff) (cl_mu c)"
  by (cases "cl_mu c") (simp_all add: Client_Off_def c_Lock_def c_Unlock_def)

lemma calls_triggerEvent:
  "run_bind (Client_triggerEvent e d c) (\<lambda>(gs, c'). Inr (cl_mu c')) = mutex_run (op_calls OpTrigger) (cl_mu c)"
  by (cases "cl_mu c") (simp_all add: Client_triggerEvent_def c_RLock_def c_RUnlock_def)

lemma calls_handleDisconnect:
  "run_bind (Client_handleDisconnect err c) (\<lambda>(gs, rc, c'). Inr (cl_mu c')) =
     mutex_run (op_calls (OpDisconnect (cl_connected c))) (cl_mu c)"
  by (cases "cl_mu c")
    (simp_all add: Client_handleDisconnect_def Client_triggerEvent_def c_Lock_def c_Unlock_def c_RLock_def c_RUnlock_def)

lemma calls_Close:
  "run_bind (Client_Close cl c) (\<lambda>(err, c'). Inr (cl_mu c')) = mutex_run (op_calls OpClose) (cl_mu c)"
  by (cases "cl_mu c") (simp_all add: Client_Close_def c_Lock_def c_Unlock_def split: prod.split)

lemma calls_Join:
  "run_bind (Client_Join room c) (\<lambda>c'. Inr (cl_mu c')) = mutex_run (op_calls (OpJoin (cl_connected c))) (cl_mu c)"
  "run_bind (Client_Leave room c) (\<lambda>c'. Inr (cl_mu c')) = mutex_run (op_calls (OpLeave (cl_connected c))) (cl_mu c)"
  by (cases "cl_mu c"; simp add: Client_Join_def Client_Leave_def Client_Send_def c_Lock_def c_Unlock_def c_RLock_def Let_def)+

lemma calls_readers:
  "run_bind (Client_Rooms c) (\<lambda>_. Inr (cl_mu c)) = mutex_run (op_calls OpRooms) (cl_mu c)"
  "run_bind (Client_InRoom room c) (\<lambda>_. Inr (cl_mu c)) = mutex_run (op_calls OpInRoom) (cl_mu c)"
  "run_bind (Client_IsConnected c) (\<lambda>_. Inr (cl_mu c)) = mutex_run (op_calls OpIsConnected) (cl_mu c)"
  by (cases "cl_mu c"; simp add: Client_Rooms_def Client_InRoom_def Client_IsConnected_def c_RLock_def c_RUnlock_def)+

lemmas client_calls = calls_Connect calls_Send calls_On calls_Off calls_triggerEvent calls_handleDisconnect
  calls_Close calls_Join calls_readers

section \<open>Property\<close>

text \<open>C38. No other goroutine can save \<open>Connect\<close>.  Whatever operations other goroutines run on the
  client at the same time, and in whatever order the calls on the mutex happen, there is no
  execution in which an attempt to connect and all the other operations return: some call is the
  runtime's fatal error or waits for ever.\<close>

theorem no_interleaving_completes_Connect:
  assumes "OpConnect False ok rooms \<in> set ops" and "calls_of ops calls"
  shows "\<exists>h. mutex_run calls Unlocked = Inl h"
proof -
  have le: "(\<Sum>x\<leftarrow>xs. count (mset (op_calls x)) CLock) \<le> (\<Sum>x\<leftarrow>xs. count (mset (op_calls x)) CUnlock)" for xs
    by (rule sum_list_mono) (simp add: op_calls_count)
  have cnt: "count (\<Sum>x\<leftarrow>xs. mset (op_calls x)) c = (\<Sum>x\<leftarrow>xs. count (mset (op_calls x)) c)" for xs c
    by (induction xs) simp_all
  obtain as bs where "ops = as @ OpConnect False ok rooms # bs" using assms(1) by (auto simp: in_set_conv_decomp)
  then have "count (mset calls) CLock < count (mset calls) CUnlock"
    using assms(2) le [of as] le [of bs] op_calls_count [of "OpConnect False ok rooms"]
    by (simp add: calls_of_def cnt del: op_calls.simps)
  then have "mutex_run calls Unlocked \<noteq> Inr m" for m
    using mutex_run_count [of calls Unlocked m] by (auto simp: w_held_def)
  then show ?thesis by (cases "mutex_run calls Unlocked") auto
qed

theorem no_interleaving_completes_Connect_witness:
  "mutex_run [CLock, CUnlock, CLock, CUnlock] Unlocked = Inr Unlocked \<and>
   (\<exists>h. mutex_run [CLock, CUnlock, CLock, CUnlock, CUnlock] Unlocked = Inl h)"
proof -
  have "calls_of [OpConnect False True 0, OpOn] [CLock, CUnlock, CLock, CUnlock, CUnlock]"
    by (simp add: calls_of_def)
  from no_interleaving_completes_Connect [OF _ this, of True 0] show ?thesis by simp
qed

end
