(* ===== verification/ClientLoops.thy ===== *)
theory ClientLoops
  imports ClientProps "HOL-Library.Sublist"
begin

text \<open>
  The loops of a connected client (\<open>sendLoop\<close>, \<open>receiveLoop\<close>, \<open>batchProcessingLoop\<close>) with the callers
  of its methods, in any order, over any transport.  The operations of \<open>client.go\<close> are those of the
  theory Client; here is what they do together.  There is no step for \<open>Connect\<close>, which does not return
  (theory ClientProps).
\<close>

section \<open>States and steps\<close>

text \<open>The interface \<open>Transport\<close> with the optional \<open>BatchSend\<close>.  \<open>ti_receive\<close> is \<open>None\<close> while it waits;
  \<open>ti_background\<close>: a turn of a goroutine of the transport itself.\<close>

record ('e, 't) transport_ops =
  ti_send :: "'e \<Rightarrow> bytes \<Rightarrow> 't \<Rightarrow> gerror option \<times> 't"
  ti_batch :: "('e \<Rightarrow> bytes list \<Rightarrow> 't \<Rightarrow> gerror option \<times> 't) option"
  ti_receive :: "'e \<Rightarrow> 't \<Rightarrow> ((gerror + bytes) \<times> 't) option"
  ti_close :: "'e \<Rightarrow> 't \<Rightarrow> gerror option \<times> 't"
  ti_background :: "'e \<Rightarrow> 't \<Rightarrow> 't"

text \<open>The client, which of its loops are running, the batch under construction, the goroutines of
  handlers and of \<open>reconnect\<close> that were started; and, for the statements, the messages \<open>Send\<close> has
  accepted and those the loops have taken for the transport.\<close>

record ('h, 't) ClientSys =
  cy_client :: "('h, 't) Client"
  cy_sending :: bool
  cy_receiving :: bool
  cy_batching :: bool
  cy_batch :: "Message list"
  cy_spawned :: "'h spawned"
  cy_reconnects :: nat
  cy_accepted :: "Message list"
  cy_given :: "Message list"

definition cy_start :: "('h, 't) Client \<Rightarrow> ('h, 't) ClientSys" where
  "cy_start c =
     \<lparr>cy_client = c, cy_sending = True, cy_receiving = True, cy_batching = cl_batchSize c > 1, cy_batch = [],
      cy_spawned = [], cy_reconnects = 0, cy_accepted = [], cy_given = []\<rparr>"

text \<open>\<open>processBatch\<close> on a batch, and its effect on the state.\<close>

definition cy_process ::
  "codec \<Rightarrow> ('e, 't) transport_ops \<Rightarrow> (bytes \<Rightarrow> 'e) \<Rightarrow> 'e \<Rightarrow> Message list \<Rightarrow> ('h, 't) Client \<Rightarrow>
     ('h spawned \<times> bool \<times> ('h, 't) Client) run" where
  "cy_process cd ti es e ms c =
     Client_processBatch cd (map_option (\<lambda>f. f e) (ti_batch ti)) (\<lambda>b. ti_send ti (es b) b) ms c"

definition cy_done ::
  "'h spawned \<Rightarrow> bool \<Rightarrow> ('h, 't) Client \<Rightarrow> ('h, 't) ClientSys \<Rightarrow> ('h, 't) ClientSys" where
  "cy_done gs rc c s =
     s\<lparr>cy_client := c, cy_spawned := cy_spawned s @ gs, cy_reconnects := cy_reconnects s + (if rc then 1 else 0)\<rparr>"

inductive clstep ::
  "codec \<Rightarrow> ('e, 't) transport_ops \<Rightarrow> ('h, 't) ClientSys \<Rightarrow> ('h, 't) ClientSys \<Rightarrow> bool" for cd ti where
  send: "Client_Send ev d (cy_client s) = Inr (err, c) \<Longrightarrow>
    clstep cd ti s (s\<lparr>cy_client := c,
      cy_accepted := cy_accepted s @ (if err = None then [\<lparr>msg_Event = ev, msg_Data = d\<rparr>] else [])\<rparr>)"
| collect: "cy_batching s \<Longrightarrow> ch_try_recv (cl_messageBufferCh (cy_client s)) = Some (m, ch) \<Longrightarrow>
    int (length (cy_batch s @ [m])) < cl_batchSize (cy_client s) \<Longrightarrow>
    clstep cd ti s (s\<lparr>cy_client := (cy_client s)\<lparr>cl_messageBufferCh := ch\<rparr>, cy_batch := cy_batch s @ [m]\<rparr>)"
| batch_full: "cy_batching s \<Longrightarrow> ch_try_recv (cl_messageBufferCh (cy_client s)) = Some (m, ch) \<Longrightarrow>
    int (length (cy_batch s @ [m])) \<ge> cl_batchSize (cy_client s) \<Longrightarrow>
    cy_process cd ti es e (cy_batch s @ [m]) ((cy_client s)\<lparr>cl_messageBufferCh := ch\<rparr>) = Inr (gs, rc, c) \<Longrightarrow>
    clstep cd ti s ((cy_done gs rc c s)\<lparr>cy_batch := [], cy_given := cy_given s @ cy_batch s @ [m]\<rparr>)"
| tick: "cy_batching s \<Longrightarrow> length (cy_batch s) > 0 \<Longrightarrow>
    cy_process cd ti es e (cy_batch s) (cy_client s) = Inr (gs, rc, c) \<Longrightarrow>
    clstep cd ti s ((cy_done gs rc c s)\<lparr>cy_batch := [], cy_given := cy_given s @ cy_batch s\<rparr>)"
| send_turn: "cy_sending s \<Longrightarrow> ch_try_recv (cl_sendCh (cy_client s)) = Some (m, ch) \<Longrightarrow>
    Client_send_turn cd (ti_send ti e) m ((cy_client s)\<lparr>cl_sendCh := ch\<rparr>) = Inr (gs, goes_on, rc, c) \<Longrightarrow>
    clstep cd ti s ((cy_done gs rc c s)\<lparr>cy_sending := goes_on, cy_given := cy_given s @ [m]\<rparr>)"
| receive_turn: "cy_receiving s \<Longrightarrow> ti_receive ti e (cl_conn (cy_client s)) = Some (r, t) \<Longrightarrow>
    Client_receive_turn cd r ((cy_client s)\<lparr>cl_conn := t\<rparr>) = Inr (gs, goes_on, rc, c) \<Longrightarrow>
    clstep cd ti s ((cy_done gs rc c s)\<lparr>cy_receiving := goes_on\<rparr>)"
| batch_exit: "cl_cancelled (cy_client s) \<Longrightarrow> clstep cd ti s (s\<lparr>cy_batching := False\<rparr>)"
| send_exit: "cl_cancelled (cy_client s) \<Longrightarrow> clstep cd ti s (s\<lparr>cy_sending := False\<rparr>)"
| background: "clstep cd ti s (s\<lparr>cy_client := (cy_client s)\<lparr>cl_conn := ti_background ti e (cl_conn (cy_client s))\<rparr>\<rparr>)"
| close: "Client_Close (ti_close ti e) (cy_client s) = Inr (err, c) \<Longrightarrow> clstep cd ti s (s\<lparr>cy_client := c\<rparr>)"
| on: "Client_On ev h (cy_client s) = Inr c \<Longrightarrow> clstep cd ti s (s\<lparr>cy_client := c\<rparr>)"
| off: "Client_Off ev (cy_client s) = Inr c \<Longrightarrow> clstep cd ti s (s\<lparr>cy_client := c\<rparr>)"

abbreviation clreach :: "codec \<Rightarrow> ('e, 't) transport_ops \<Rightarrow> ('h, 't) ClientSys \<Rightarrow> ('h, 't) ClientSys \<Rightarrow> bool" where
  "clreach cd ti \<equiv> reaches (clstep cd ti)"

section \<open>What the transports write\<close>

text \<open>The texts of the messages that can be encoded, in order.\<close>

definition encs :: "codec \<Rightarrow> Message list \<Rightarrow> bytes list" where
  "encs cd ms = fst (encode_batch cd ms)"

lemma encs_simps [simp]:
  "encs cd [] = []"
  "encs cd (m # ms) = (case marshal cd m of Inl _ \<Rightarrow> [] | Inr j \<Rightarrow> [j]) @ encs cd ms"
  by (simp_all add: encs_def split: prod.split sum.split)

lemma encs_append [simp]: "encs cd (ms @ ms') = encs cd ms @ encs cd ms'"
  by (induction ms) simp_all

text \<open>The writes of a transport are visible in its state, and no other operation adds to them; \<open>err\<close> of
  \<open>None\<close> means that everything has been written.\<close>

definition wrote :: "('t \<Rightarrow> bytes list) \<Rightarrow> bytes list \<Rightarrow> 't \<Rightarrow> gerror option \<times> 't \<Rightarrow> bool" where
  "wrote out bs t r \<longleftrightarrow> (\<exists>k. out (snd r) = out t @ take k bs) \<and> (fst r = None \<longrightarrow> out (snd r) = out t @ bs)"

lemma wrote_none: "out t' = out t \<Longrightarrow> wrote out bs t (Some err, t')"
  by (auto simp: wrote_def intro: exI [of _ 0])

lemma wrote_all: "out t' = out t @ bs \<Longrightarrow> wrote out bs t (err, t')"
  by (auto simp: wrote_def intro: exI [of _ "length bs"])

text \<open>What an operation of a loop does to the client, when it had to write \<open>bs\<close>; \<open>rc\<close>: it started
  \<open>reconnect\<close>.\<close>

definition cy_effect ::
  "('t \<Rightarrow> bytes list) \<Rightarrow> bytes list \<Rightarrow> ('h, 't) Client \<Rightarrow> bool \<Rightarrow> ('h, 't) Client \<Rightarrow> bool" where
  "cy_effect out bs c rc c' \<longleftrightarrow>
     cl_mu c' = Unlocked \<and> cl_batchSize c' = cl_batchSize c \<and> cl_sendCh c' = cl_sendCh c \<and>
     cl_messageBufferCh c' = cl_messageBufferCh c \<and>
     (\<exists>k. out (cl_conn c') = out (cl_conn c) @ take k bs) \<and>
     (cl_connected c' \<longrightarrow> cl_connected c \<and> out (cl_conn c') = out (cl_conn c) @ bs) \<and>
     (rc \<longrightarrow> cl_connected c \<and> \<not> cl_connected c')"

lemma cy_effect_write:
  "wrote out bs (cl_conn c) (err, t) \<Longrightarrow> cl_mu c = Unlocked \<Longrightarrow>
     c' = (if err = None then c\<lparr>cl_conn := t\<rparr> else c\<lparr>cl_conn := t, cl_connected := False\<rparr>) \<Longrightarrow>
     (rc \<longrightarrow> cl_connected c \<and> err \<noteq> None) \<Longrightarrow> cy_effect out bs c rc c'"
  by (auto simp: cy_effect_def wrote_def)

lemma trigger_all_runs: "cl_mu c = Unlocked \<Longrightarrow> \<exists>gs. trigger_all errs c = Inr (gs, c)"
  by (induction errs) (auto simp: Client_triggerEvent_runs)

lemma encode_batch_encs: "\<exists>errs. encode_batch cd ms = (encs cd ms, errs)"
  by (simp add: encs_def prod_eq_iff)

lemma client_conn_same: "cl_connected c = b \<Longrightarrow> c\<lparr>cl_connected := b\<rparr> = c"
  by (cases c) simp

locale message_writer =
  fixes out :: "'t \<Rightarrow> bytes list" and ti :: "('e, 't) transport_ops"
  assumes send_out: "wrote out [b] t (ti_send ti e b t)"
    and batch_out: "ti_batch ti = Some f \<Longrightarrow> wrote out bs t (f e bs t)"
    and receive_out: "ti_receive ti e t = Some (r, t') \<Longrightarrow> out t' = out t"
    and close_out: "out (snd (ti_close ti e t)) = out t"
    and background_out: "out (ti_background ti e t) = out t"
begin

lemma send_each_out: "wrote out bs t (send_each (\<lambda>b. ti_send ti (es b) b) bs t)"
proof (induction bs arbitrary: t)
  case (Cons b bs)
  obtain err t1 where s: "ti_send ti (es b) b t = (err, t1)" by fastforce
  have w: "wrote out [b] t (err, t1)" using send_out [of b t "es b"] s by simp
  show ?case
  proof (cases err)
    case None
    then have "out t1 = out t @ [b]" using w by (simp add: wrote_def)
    then show ?thesis using Cons.IH [of t1] s None
      by (auto simp: wrote_def intro: exI [of _ "Suc k" for k])
  next
    case (Some e)
    obtain k where "out t1 = out t @ take k [b]" using w by (auto simp: wrote_def)
    then have "out t1 = out t @ take (min k 1) (b # bs)" by (cases k) simp_all
    then show ?thesis using s Some by (auto simp: wrote_def)
  qed
qed (simp add: wrote_def)

lemma process_effect:
  assumes "cy_process cd ti es e ms c = Inr (gs, rc, c')" and "cl_mu c = Unlocked"
  shows "cy_effect out (encs cd ms) c rc c'"
proof (cases "ms = []")
  case True
  then show ?thesis using assms
    by (auto simp: cy_process_def Client_processBatch_def cy_effect_def)
next
  case False
  obtain errs where en: "encode_batch cd ms = (encs cd ms, errs)" using encode_batch_encs by blast
  obtain hs where tr: "trigger_all errs c = Inr (hs, c)" using trigger_all_runs [OF assms(2)] by blast
  obtain err t where w: "(case map_option (\<lambda>f. f e) (ti_batch ti) of
        Some bsend \<Rightarrow> if length (encs cd ms) > 0 then bsend (encs cd ms) (cl_conn c)
          else send_each (\<lambda>b. ti_send ti (es b) b) (encs cd ms) (cl_conn c)
      | None \<Rightarrow> send_each (\<lambda>b. ti_send ti (es b) b) (encs cd ms) (cl_conn c)) = (err, t)" by fastforce
  have wr: "wrote out (encs cd ms) (cl_conn c) (err, t)"
    unfolding w [symmetric] using send_each_out batch_out by (auto simp: wrote_all split: option.split)
  note run = assms(1) [unfolded cy_process_def Client_processBatch_def en tr run_bind_simps prod.case w]
  show ?thesis
  proof (cases err)
    case None
    then have "c' = c\<lparr>cl_conn := t\<rparr>" "\<not> rc" using run False by simp_all
    then show ?thesis using cy_effect_write [OF wr assms(2)] None by simp
  next
    case (Some x)
    then have "c' = c\<lparr>cl_conn := t, cl_connected := False\<rparr>" "rc \<longrightarrow> cl_connected c"
      using run False assms(2)
      by (auto simp: Client_triggerEvent_runs Client_handleDisconnect_runs client_conn_same split: if_splits)
    then show ?thesis using cy_effect_write [OF wr assms(2)] Some by simp
  qed
qed

lemma send_turn_effect:
  assumes "Client_send_turn cd (ti_send ti e) m c = Inr (gs, go, rc, c')" and "cl_mu c = Unlocked"
  shows "cy_effect out (encs cd [m]) c rc c'"
proof (cases "marshal cd m")
  case (Inl x)
  then show ?thesis using assms
    by (auto simp: Client_send_turn_def Client_triggerEvent_runs cy_effect_def)
next
  case (Inr j)
  obtain err t where s: "ti_send ti e j (cl_conn c) = (err, t)" by fastforce
  have w: "wrote out [j] (cl_conn c) (err, t)" using send_out [of j "cl_conn c" e] s by simp
  have "c' = (if err = None then c\<lparr>cl_conn := t\<rparr> else c\<lparr>cl_conn := t, cl_connected := False\<rparr>)"
    and "rc \<longrightarrow> cl_connected c \<and> err \<noteq> None"
    using assms Inr s by (cases err; auto simp: Client_send_turn_def Client_triggerEvent_runs
        Client_handleDisconnect_runs client_conn_same split: if_splits)+
  from cy_effect_write [OF w assms(2) this] show ?thesis using Inr by simp
qed

lemma receive_turn_effect:
  assumes "Client_receive_turn cd r (c\<lparr>cl_conn := t\<rparr>) = Inr (gs, go, rc, c')" and "cl_mu c = Unlocked"
    and "out t = out (cl_conn c)"
  shows "cy_effect out [] c rc c'"
proof (cases r)
  case (Inl x)
  then show ?thesis using assms
    by (auto simp: Client_receive_turn_def Client_triggerEvent_runs Client_handleDisconnect_runs cy_effect_def
        split: if_splits)
next
  case (Inr b)
  then show ?thesis using assms
    by (cases "unmarshal cd b") (auto simp: Client_receive_turn_def Client_triggerEvent_runs cy_effect_def)
qed

end

section \<open>The invariant\<close>

text \<open>What \<open>Send\<close> has put into a buffer and no loop has taken.\<close>

definition pending :: "('h, 't) Client \<Rightarrow> Message list" where
  "pending c = ch_buf (cl_messageBufferCh c) @ ch_buf (cl_sendCh c)"

definition cy_inv :: "('t \<Rightarrow> bytes list) \<Rightarrow> codec \<Rightarrow> bytes list \<Rightarrow> int \<Rightarrow> ('h, 't) ClientSys \<Rightarrow> bool" where
  "cy_inv out cd pre n s \<longleftrightarrow>
     cl_mu (cy_client s) = Unlocked \<and> cl_batchSize (cy_client s) = n \<and>
     (if n > 1 then ch_buf (cl_sendCh (cy_client s)) = []
      else ch_buf (cl_messageBufferCh (cy_client s)) = [] \<and> cy_batch s = []) \<and>
     cy_accepted s = cy_given s @ cy_batch s @ pending (cy_client s) \<and>
     subseq (out (cl_conn (cy_client s))) (pre @ encs cd (cy_given s)) \<and>
     (cl_connected (cy_client s) \<longrightarrow> out (cl_conn (cy_client s)) = pre @ encs cd (cy_given s)) \<and>
     cy_reconnects s + (if cl_connected (cy_client s) then 1 else 0) \<le> 1"

lemma cy_inv_effect:
  assumes "cy_inv out cd pre n s" and "cy_effect out (encs cd ms) c rc c'"
    and "cl_conn c = cl_conn (cy_client s)" and "cl_connected c = cl_connected (cy_client s)"
    and "cl_batchSize c = n" and "cy_accepted s = cy_given s @ ms @ rest @ pending c"
    and "if n > 1 then ch_buf (cl_sendCh c) = [] else ch_buf (cl_messageBufferCh c) = [] \<and> rest = []"
    and "s' = (cy_done gs rc c' s)\<lparr>cy_batch := rest, cy_given := cy_given s @ ms\<rparr>"
  shows "cy_inv out cd pre n s'"
proof -
  note E = assms(2) [unfolded cy_effect_def] and I = assms(1) [unfolded cy_inv_def]
  obtain k where k: "out (cl_conn c') = out (cl_conn c) @ take k (encs cd ms)" using E by blast
  have c': "cl_mu c' = Unlocked" "cl_batchSize c' = n" "cl_sendCh c' = cl_sendCh c"
      "cl_messageBufferCh c' = cl_messageBufferCh c"
      "cl_connected c' \<Longrightarrow> cl_connected c \<and> out (cl_conn c') = out (cl_conn c) @ encs cd ms"
      "rc \<Longrightarrow> cl_connected c \<and> \<not> cl_connected c'"
    using E assms(5) by simp_all
  have s': "cy_client s' = c'" "cy_batch s' = rest" "cy_given s' = cy_given s @ ms"
      "cy_accepted s' = cy_accepted s" "cy_reconnects s' = cy_reconnects s + (if rc then 1 else 0)"
    using assms(8) by (simp_all add: cy_done_def)
  have old: "subseq (out (cl_conn c)) (pre @ encs cd (cy_given s))"
      "cl_connected c \<Longrightarrow> out (cl_conn c) = pre @ encs cd (cy_given s)"
      "cy_reconnects s + (if cl_connected c then 1 else 0) \<le> 1"
    using I assms(3,4) by simp_all
  have "subseq (take k (encs cd ms)) (encs cd ms)" by (simp add: take_is_prefix prefix_imp_subseq)
  then have sub: "subseq (out (cl_conn c')) (pre @ encs cd (cy_given s @ ms))"
    using list_emb_append_mono [OF old(1)] by (simp add: k)
  have "cl_connected c' \<Longrightarrow> out (cl_conn c') = pre @ encs cd (cy_given s @ ms)"
    using c'(5) old(2) by auto
  moreover have "cy_reconnects s' + (if cl_connected c' then 1 else 0) \<le> 1"
    using c'(5,6) old(3) s'(5) by (cases rc; cases "cl_connected c'") auto
  ultimately show ?thesis
    unfolding cy_inv_def s'(1-4) using c'(1-4) assms(6,7) sub by (auto simp: pending_def)
qed

context message_writer
begin

lemma clstep_inv:
  "clstep cd ti s s' \<Longrightarrow> cy_inv out cd pre n s \<Longrightarrow> cy_inv out cd pre n s'"
proof (induction rule: clstep.induct)
  case (send ev d s err c)
  then show ?case
    by (auto simp: cy_inv_def Client_Send_runs queue_message_def pending_def ch_send_iff
        split: if_splits option.splits)
next
  case (collect s m ch)
  then show ?case by (auto simp: cy_inv_def pending_def dest!: ch_recv_SomeD split: if_splits)
next
  case (batch_full s m ch es e gs rc c)
  let ?c = "(cy_client s)\<lparr>cl_messageBufferCh := ch\<rparr>"
  have b: "ch_buf (cl_messageBufferCh (cy_client s)) = m # ch_buf ch" using ch_recv_SomeD [OF batch_full(2)] by simp
  show ?case
    by (rule cy_inv_effect [where rest = "[]" and gs = gs, OF batch_full(5) process_effect [OF batch_full(4)]])
      (use batch_full(5) b in \<open>simp_all add: cy_inv_def pending_def split: if_splits\<close>)
next
  case (tick s es e gs rc c)
  show ?case
    by (rule cy_inv_effect [where rest = "[]" and gs = gs, OF tick(4) process_effect [OF tick(3)]])
      (use tick(4) in \<open>simp_all add: cy_inv_def split: if_splits\<close>)
next
  case (send_turn s m ch e gs go rc c)
  let ?c = "(cy_client s)\<lparr>cl_sendCh := ch\<rparr>"
  have b: "ch_buf (cl_sendCh (cy_client s)) = m # ch_buf ch" using ch_recv_SomeD [OF send_turn(2)] by simp
  then have n: "\<not> n > 1" "cy_batch s = []" "ch_buf (cl_messageBufferCh (cy_client s)) = []"
    using send_turn(4) by (auto simp: cy_inv_def split: if_splits)
  have "cy_inv out cd pre n ((cy_done gs rc c s)\<lparr>cy_batch := [], cy_given := cy_given s @ [m]\<rparr>)"
    by (rule cy_inv_effect [where rest = "[]" and gs = gs, OF send_turn(4) send_turn_effect [OF send_turn(3)]])
      (use send_turn(4) b n in \<open>simp_all add: cy_inv_def pending_def\<close>)
  then show ?case using n(2) by (simp add: cy_inv_def cy_done_def split: if_splits)
next
  case (receive_turn s e r t gs go rc c)
  have "cl_mu (cy_client s) = Unlocked" using receive_turn(4) by (simp add: cy_inv_def)
  from receive_turn_effect [OF receive_turn(3) this receive_out [OF receive_turn(2)]]
  have eff: "cy_effect out (encs cd []) (cy_client s) rc c" by simp
  have "cy_inv out cd pre n ((cy_done gs rc c s)\<lparr>cy_batch := cy_batch s, cy_given := cy_given s @ []\<rparr>)"
    by (rule cy_inv_effect [where rest = "cy_batch s" and gs = gs, OF receive_turn(4) eff])
      (use receive_turn(4) in \<open>simp_all add: cy_inv_def split: if_splits\<close>)
  then show ?case by (simp add: cy_inv_def cy_done_def split: if_splits)
next
  case (background s e)
  then show ?case by (simp add: cy_inv_def background_out pending_def)
next
  case (close e s err c)
  then show ?case
    by (auto simp: cy_inv_def Client_Close_runs close_out pending_def split: if_splits)
next
  case (on ev h s c)
  then show ?case by (auto simp: cy_inv_def Client_On_runs pending_def)
next
  case (off ev s c)
  then show ?case by (auto simp: cy_inv_def Client_Off_runs pending_def)
qed (simp_all add: cy_inv_def)

lemma clreach_inv: "clreach cd ti s s' \<Longrightarrow> cy_inv out cd pre n s \<Longrightarrow> cy_inv out cd pre n s'"
  by (induction rule: reaches.induct) (blast intro: clstep_inv)+

lemma cy_start_inv:
  "cl_mu c = Unlocked \<Longrightarrow> pending c = [] \<Longrightarrow> cy_inv out cd (out (cl_conn c)) (cl_batchSize c) (cy_start c)"
  by (simp add: cy_inv_def cy_start_def pending_def)

end

section \<open>The two transports\<close>

text \<open>The data frames written on the connections of a WebSocket transport, past ones first.\<close>

definition wst_frames :: "WebSocketTransport \<Rightarrow> bytes list" where
  "wst_frames t = concat (map written (wst_past t)) @
     (case wst_conn t of None \<Rightarrow> [] | Some cs \<Rightarrow> written cs)"

definition ws_ops :: "(ws_env \<times> (gerror + bytes), WebSocketTransport) transport_ops" where
  "ws_ops =
     \<lparr>ti_send = (\<lambda>e. WST_Send (fst e)), ti_batch = Some (\<lambda>e. WST_BatchSend (fst e)),
      ti_receive = (\<lambda>e t. Some (WST_Receive (fst e) (snd e) t)), ti_close = (\<lambda>e. WST_Close (fst e)),
      ti_background = (\<lambda>e t. t)\<rparr>"

lemma wst_frames_call:
  "wst_frames (ws_call x t) = wst_frames t @ (if wst_conn t = None then [] else written [x])"
  by (auto simp: wst_frames_def ws_call_def split: option.split)

lemma deadline_frames:
  "ws_write_deadline E t = (err, t') \<Longrightarrow> wst_frames t' = wst_frames t \<and> (wst_conn t' = None \<longleftrightarrow> wst_conn t = None)"
  by (auto simp: ws_write_deadline_def wst_frames_call split: if_splits)

lemma write_all_frames:
  "wst_conn t \<noteq> None \<Longrightarrow> wrote wst_frames ms t (ws_write_all w ms t)"
proof (induction w ms t rule: ws_write_all.induct)
  case (2 w m ms t)
  have f: "wst_frames (ws_call (WriteMessage m) t) = wst_frames t @ [m]" using 2(2) by (auto simp: wst_frames_call)
  show ?case
  proof (cases "w 0")
    case None
    have "wrote wst_frames ms (ws_call (WriteMessage m) t) (ws_write_all (\<lambda>k. w (Suc k)) ms (ws_call (WriteMessage m) t))"
      using 2 None by simp
    then show ?thesis using None f by (auto simp: wrote_def intro: exI [of _ "Suc k" for k])
  next
    case (Some err)
    then show ?thesis using f by (auto simp: wrote_def intro: exI [of _ 1])
  qed
qed (simp add: wrote_def)

interpretation ws_writer: message_writer wst_frames ws_ops
proof unfold_locales
  fix b :: bytes and t t' and e :: "ws_env \<times> (gerror + bytes)" and r f bs
  show "wrote wst_frames [b] t (ti_send ws_ops e b t)"
  proof (cases "ws_write_deadline (fst e) t")
    case (Pair err t1)
    then have t1: "wst_frames t1 = wst_frames t" "wst_conn t1 = None \<longleftrightarrow> wst_conn t = None"
      using deadline_frames by auto
    have "wrote wst_frames [b] t (Some x, t1)" "wrote wst_frames [b] t (Some x, t)" for x
      using t1 by (simp_all add: wrote_none)
    moreover have "wrote wst_frames [b] t (r2, ws_call (WriteMessage b) t1)" if "wst_conn t \<noteq> None" for r2
      using t1 that by (intro wrote_all) (simp add: wst_frames_call)
    ultimately show ?thesis using Pair by (cases err) (auto simp: ws_ops_def WST_Send_def)
  qed
  show "ti_batch ws_ops = Some f \<Longrightarrow> wrote wst_frames bs t (f e bs t)"
  proof (cases "ws_write_deadline (fst e) t")
    case (Pair err t1)
    assume "ti_batch ws_ops = Some f"
    then have f: "f e bs t = WST_BatchSend (fst e) bs t" by (auto simp: ws_ops_def)
    have t1: "wst_frames t1 = wst_frames t" "wst_conn t1 = None \<longleftrightarrow> wst_conn t = None"
      using deadline_frames [OF Pair] by auto
    then show ?thesis unfolding f using write_all_frames [of t1 bs "we_write (fst e)"] Pair
      by (auto simp: WST_BatchSend_def wrote_def intro: exI [of _ 0] split: option.split)
  qed
  show "ti_receive ws_ops e t = Some (r, t') \<Longrightarrow> wst_frames t' = wst_frames t"
    by (auto simp: ws_ops_def WST_Receive_def Let_def wst_frames_call split: if_splits option.splits)
  show "wst_frames (snd (ti_close ws_ops e t)) = wst_frames t"
    by (auto simp: ws_ops_def WST_Close_def wst_frames_def split: option.split)
qed (simp add: ws_ops_def)

text \<open>The bodies posted by a long-polling transport.\<close>

definition lpt_posts :: "LongPollingTransport \<Rightarrow> bytes list" where
  "lpt_posts t = concat (map (\<lambda>rq. case hr_body rq of None \<Rightarrow> [] | Some b \<Rightarrow> [b]) (lpt_requests t))"

definition lp_ops :: "(lp_env \<times> bool, LongPollingTransport) transport_ops" where
  "lp_ops =
     \<lparr>ti_send = (\<lambda>e. LPT_Send (fst e)), ti_batch = None, ti_receive = (\<lambda>e. LPT_Receive (snd e)),
      ti_close = (\<lambda>e. LPT_Close (fst e)), ti_background = (\<lambda>e t. snd (LPT_poll_turn (fst e) t))\<rparr>"

lemma http_do_posts:
  "http_do E rq t = (r, t') \<Longrightarrow>
     lpt_posts t' = lpt_posts t @ (if le_newRequest E (hr_url rq) = None then case hr_body rq of None \<Rightarrow> [] | Some b \<Rightarrow> [b] else [])"
  by (auto simp: http_do_def lpt_posts_def split: option.splits)

interpretation lp_writer: message_writer lpt_posts lp_ops
proof unfold_locales
  fix b :: bytes and t t' and e :: "lp_env \<times> bool" and r bs
    and f :: "lp_env \<times> bool \<Rightarrow> bytes list \<Rightarrow> LongPollingTransport \<Rightarrow> gerror option \<times> LongPollingTransport"
  show "wrote lpt_posts [b] t (ti_send lp_ops e b t)"
  proof (cases "http_do (fst e) (send_request b t) t")
    case (Pair r1 t1)
    have "wrote lpt_posts [b] t (Some x, t)" for x by (simp add: wrote_none)
    moreover have "wrote lpt_posts [b] t (Some x, t1)" if "r1 = Inl y" for x y
      using that Pair by (intro wrote_none) (auto simp: http_do_def split: option.splits)
    moreover have "wrote lpt_posts [b] t (x, t1)" if "r1 = Inr y" for x y
      using that http_do_posts [OF Pair] Pair
      by (intro wrote_all) (auto simp: http_do_def send_request_def split: option.splits)
    ultimately show ?thesis using Pair
      by (cases r1) (auto simp: lp_ops_def LPT_Send_def split: lp_answer.split)
  qed
  have "lpt_posts (t\<lparr>lpt_incomingQueue := c\<rparr>) = lpt_posts t" for c and t :: LongPollingTransport
    by (simp add: lpt_posts_def)
  moreover have "lpt_posts t1 = lpt_posts t" if "http_do (fst e) (poll_request t) t = (r1, t1)" for r1 t1
    using http_do_posts [OF that] by (simp add: poll_request_def)
  ultimately show "lpt_posts (ti_background lp_ops e t) = lpt_posts t"
    by (auto simp: lp_ops_def LPT_poll_turn_def LPT_fetchMessages_def
        split: if_splits prod.splits sum.splits lp_answer.splits)
  show "ti_receive lp_ops e t = Some (r, t') \<Longrightarrow> lpt_posts t' = lpt_posts t"
    by (auto simp: lp_ops_def LPT_Receive_def lpt_posts_def split: if_splits option.splits)
  show "lpt_posts (snd (ti_close lp_ops e t)) = lpt_posts t"
    using http_do_posts [of "fst e" "disconnect_request t" t]
    by (cases "http_do (fst e) (disconnect_request t) t")
      (auto simp: lp_ops_def LPT_Close_def lpt_posts_def disconnect_request_def)
qed (simp add: lp_ops_def)

section \<open>What the peer gets\<close>


text \<open>The same of the bodies that a client over the long-polling transport posts.\<close>

lemma client_posts_accepted_in_order:
  assumes "cl_mu c = Unlocked" and "pending c = []" and "clreach cd lp_ops (cy_start c) s"
  shows "cy_accepted s = cy_given s @ cy_batch s @ pending (cy_client s) \<and>
    subseq (lpt_posts (cl_conn (cy_client s))) (lpt_posts (cl_conn c) @ encs cd (cy_given s)) \<and>
    (cl_connected (cy_client s) \<longrightarrow> lpt_posts (cl_conn (cy_client s)) = lpt_posts (cl_conn c) @ encs cd (cy_given s))"
  using lp_writer.clreach_inv [OF assms(3) lp_writer.cy_start_inv [OF assms(1,2)]] by (simp add: cy_inv_def)

definition demo_loops_client :: "(string, WebSocketTransport) Client" where
  "demo_loops_client = (fst (NewClient (Some (replicate 8 0)) 0 ((NewWebSocketTransport ''ws://h'' [])\<lparr>wst_conn := Some [],
     wst_connected := True, wst_writeTimeout := 0\<rparr>) [WithBatchSend 2 1000]))\<lparr>cl_connected := True\<rparr>"

definition demo_loops_codec :: codec where
  "demo_loops_codec = \<lparr>marshal = (\<lambda>m. Inr (map of_char (msg_Event m))), unmarshal = (\<lambda>b. Inl ErrInvalidMessage)\<rparr>"

lemma demo_loops_simps:
  "cl_mu demo_loops_client = Unlocked" "cl_connected demo_loops_client" "cl_batchSize demo_loops_client = 2"
  "cl_messageBufferCh demo_loops_client = make_chan 1000" "cl_sendCh demo_loops_client = make_chan 100"
  "cl_conn demo_loops_client = (NewWebSocketTransport ''ws://h'' [])\<lparr>wst_conn := Some [], wst_connected := True, wst_writeTimeout := 0\<rparr>"
  by (simp_all add: demo_loops_client_def NewClient_def split_beta)


end
