(* ===== verification/EndToEnd.thy ===== *)
theory EndToEnd
  imports ClientProps ServerProps WSPump
begin

text \<open>
  Client and server together: a batch of the client over its WebSocket transport up to the
  handlers of a server socket, the sends of a server socket through its write pump up to the
  handlers of the client, and the client's long-polling transport against the HTTP handler
  of the server, request by request.
\<close>

section \<open>WebSocket: from a batch to the handlers\<close>

lemma encode_batch_ok:
  "\<forall>m\<in>set ms. \<exists>j. marshal cd m = Inr j \<Longrightarrow>
     \<exists>js. encode_batch cd ms = (js, []) \<and> list_all2 (\<lambda>m j. marshal cd m = Inr j) ms js"
proof (induction ms)
  case (Cons m ms)
  then obtain j js where "marshal cd m = Inr j" "encode_batch cd ms = (js, [])"
    "list_all2 (\<lambda>m j. marshal cd m = Inr j) ms js" by auto
  then show ?case by simp
qed simp

lemma receiveLoop_encoded:
  assumes "codec_ok cd" and "list_all2 (\<lambda>m j. marshal cd m = Inr j) ms js"
  shows "SI_receiveLoop cd cl (map Inr js) s =
    (concat (map (\<lambda>m. map (\<lambda>h. (h, msg_Data m)) (handlers_of (si_handlers s) (msg_Event m))) ms), True, s)"
  using assms(2)
proof (induction rule: list_all2_induct)
  case (Cons m ms j js)
  then have "unmarshal cd j = Inr m" using assms(1) by (simp add: codec_ok_def)
  then show ?case using Cons by (simp add: SI_receive_step_def SI_triggerEvent_def)
qed simp


definition live_env :: ws_env where
  "live_env = demo_ws_env\<lparr>we_write := \<lambda>_. None\<rparr>"


section \<open>WebSocket: from the server's sends to the client's handlers\<close>

text \<open>What happens at a server socket over a WebSocket: \<open>Send\<close> by some goroutine, or a turn of the
  write pump whose write succeeds, at the time \<open>now\<close>.\<close>

datatype serve_event = ServeSend Event gval | ServePump int

fun serve ::
  "codec \<Rightarrow> gerror option \<Rightarrow> serve_event list \<Rightarrow> ('h, WebSocketServerTransport) socketImpl \<Rightarrow>
     ('h, WebSocketServerTransport) socketImpl" where
  "serve cd cerr [] s = s"
| "serve cd cerr (ServeSend e d # es) s = serve cd cerr es (snd (SI_Send cd (WSS_Write cerr) e d s))"
| "serve cd cerr (ServePump now # es) s =
     serve cd cerr es (case WSS_pump_turn False now (si_transport s) of
       None \<Rightarrow> s | Some t \<Rightarrow> s\<lparr>si_transport := t\<rparr>)"

fun served :: "serve_event list \<Rightarrow> Message list" where
  "served [] = []"
| "served (ServeSend e d # es) = \<lparr>msg_Event = e, msg_Data = d\<rparr> # served es"
| "served (ServePump now # es) = served es"

abbreviation "sock_queue s \<equiv> ch_buf (wss_sendCh (si_transport s))"
abbreviation "sock_frames s \<equiv> frames (wss_calls (si_transport s))"
abbreviation "sock_closed s \<equiv> wss_closed (si_transport s)"

text \<open>One event on a connected socket: a send appends its encoding to the queue or closes the
  connection, a turn of the pump moves the first message of the queue to the wire.\<close>

lemma serve_send:
  assumes "si_connected s" and "marshal cd \<lparr>msg_Event = e, msg_Data = d\<rparr> = Inr j"
    and "SI_Send cd (WSS_Write cerr) e d s = (err, s')"
  shows "si_connected s'" and "sock_frames s' = sock_frames s"
    and "sock_closed s \<Longrightarrow> s' = s"
    and "\<not> sock_closed s' \<Longrightarrow> sock_queue s' = sock_queue s @ [j]"
  using assms by (auto simp: SI_Send_def WSS_Write_def WSS_Close_def ch_send_iff split: if_splits option.splits)

lemma serve_pump:
  assumes "WSS_pump_turn False now t = Some t'"
  shows "\<exists>m. ch_buf (wss_sendCh t) = m # ch_buf (wss_sendCh t') \<and>
    frames (wss_calls t') = frames (wss_calls t) @ [m] \<and> \<not> wss_closed t \<and> \<not> wss_closed t'"
  using assms by (auto simp: WSS_pump_turn_def Let_def dest: ch_recv_SomeD split: if_splits option.splits)

lemma serve_frames:
  assumes "si_connected s" and "list_all2 (\<lambda>m j. marshal cd m = Inr j) (served es) js"
  shows "\<exists>n \<le> length (sock_queue s @ js).
    sock_frames (serve cd cerr es s) = sock_frames s @ take n (sock_queue s @ js) \<and>
    (\<not> sock_closed (serve cd cerr es s) \<longrightarrow> sock_queue (serve cd cerr es s) = drop n (sock_queue s @ js)) \<and>
    (sock_closed s \<longrightarrow> n = 0 \<and> sock_closed (serve cd cerr es s))"
  using assms
proof (induction es arbitrary: s js)
  case (Cons x es)
  show ?case
  proof (cases x)
    case (ServeSend e d)
    then obtain j js' where js: "js = j # js'" "marshal cd \<lparr>msg_Event = e, msg_Data = d\<rparr> = Inr j"
      "list_all2 (\<lambda>m j. marshal cd m = Inr j) (served es) js'"
      using Cons.prems(2) by (auto simp: list_all2_Cons1)
    obtain err s1 where s1: "SI_Send cd (WSS_Write cerr) e d s = (err, s1)" by fastforce
    note sent = serve_send [OF Cons.prems(1) js(2) s1]
    from Cons.IH [OF sent(1) js(3)] obtain n where n: "n \<le> length (sock_queue s1 @ js')"
      "sock_frames (serve cd cerr es s1) = sock_frames s1 @ take n (sock_queue s1 @ js')"
      "\<not> sock_closed (serve cd cerr es s1) \<longrightarrow> sock_queue (serve cd cerr es s1) = drop n (sock_queue s1 @ js')"
      "sock_closed s1 \<longrightarrow> n = 0 \<and> sock_closed (serve cd cerr es s1)" by blast
    show ?thesis
    proof (cases "sock_closed s1")
      case True
      then show ?thesis using n sent s1 ServeSend by (intro exI [of _ 0]) auto
    next
      case False
      then show ?thesis using n sent s1 ServeSend js(1) by (intro exI [of _ n]) auto
    qed
  next
    case (ServePump now)
    then have js: "list_all2 (\<lambda>m j. marshal cd m = Inr j) (served es) js" using Cons.prems(2) by simp
    show ?thesis
    proof (cases "WSS_pump_turn False now (si_transport s)")
      case None
      then show ?thesis using Cons.IH [OF Cons.prems(1) js] ServePump by simp
    next
      case (Some t)
      from serve_pump [OF Some] obtain m where m: "sock_queue s = m # ch_buf (wss_sendCh t)"
        "frames (wss_calls t) = sock_frames s @ [m]" "\<not> sock_closed s" by blast
      from Cons.IH [of "s\<lparr>si_transport := t\<rparr>", OF _ js] Cons.prems(1) obtain n where
        "n \<le> length (ch_buf (wss_sendCh t) @ js)"
        "sock_frames (serve cd cerr es (s\<lparr>si_transport := t\<rparr>)) =
           frames (wss_calls t) @ take n (ch_buf (wss_sendCh t) @ js)"
        "\<not> sock_closed (serve cd cerr es (s\<lparr>si_transport := t\<rparr>)) \<longrightarrow>
           sock_queue (serve cd cerr es (s\<lparr>si_transport := t\<rparr>)) = drop n (ch_buf (wss_sendCh t) @ js)"
        by auto
      then show ?thesis using Some m ServePump by (intro exI [of _ "Suc n"]) simp
    qed
  qed
qed (auto intro: exI [of _ 0])

text \<open>The client's \<open>Receive\<close> on an answer of its connection keeps the connection, and a message it
  reads starts the handlers of its event.\<close>

lemma Receive_live:
  assumes "wst_connected t" and "wst_conn t \<noteq> None" and "we_deadline E = None"
  shows "\<exists>t'. WST_Receive E r t = (r, t') \<and> wst_connected t' \<and> wst_conn t' \<noteq> None"
  using assms by (auto simp: WST_Receive_def Let_def simp del: not_None_eq)

lemma receive_turn_message:
  "cl_mu c = Unlocked \<Longrightarrow> unmarshal cd j = Inr m \<Longrightarrow>
     Client_receive_turn cd (Inr j) c =
       Inr (map (\<lambda>h. (h, msg_Data m)) (handlers_of (cl_handlers c) (msg_Event m)), True, False, c)"
  by (cases c) (simp add: Client_receive_turn_def Client_triggerEvent_def c_RLock_def c_RUnlock_def)

lemma client_reads:
  assumes "codec_ok cd" and "list_all2 (\<lambda>m x. we_deadline (fst x) = None \<and>
      (\<exists>j. snd x = Inr j \<and> marshal cd m = Inr j)) ms xs"
    and "cl_mu c = Unlocked" and "wst_connected (cl_conn c)" and "wst_conn (cl_conn c) \<noteq> None"
  shows "\<exists>t. Client_receiveLoop cd (\<lambda>(E, r). WST_Receive E r) xs c =
    Inr (concat (map (\<lambda>m. map (\<lambda>h. (h, msg_Data m)) (handlers_of (cl_handlers c) (msg_Event m))) ms),
      True, False, c\<lparr>cl_conn := t\<rparr>)"
  using assms(2-)
proof (induction arbitrary: c rule: list_all2_induct)
  case Nil
  then show ?case by (intro exI [of _ "cl_conn c"]) simp
next
  case (Cons m ms x xs)
  obtain j where j: "snd x = Inr j" "marshal cd m = Inr j" "we_deadline (fst x) = None"
    using Cons.hyps(1) by blast
  have u: "unmarshal cd j = Inr m" using j(2) assms(1) by (simp add: codec_ok_def)
  obtain t where t: "WST_Receive (fst x) (Inr j) (cl_conn c) = (Inr j, t)" "wst_connected t" "wst_conn t \<noteq> None"
    using Receive_live [OF Cons.prems(2,3) j(3)] by blast
  from Cons.IH [of "c\<lparr>cl_conn := t\<rparr>"] Cons.prems(1) t(2,3) obtain t' where
    "Client_receiveLoop cd (\<lambda>(E, r). WST_Receive E r) xs (c\<lparr>cl_conn := t\<rparr>) =
      Inr (concat (map (\<lambda>m. map (\<lambda>h. (h, msg_Data m)) (handlers_of (cl_handlers c) (msg_Event m))) ms),
        True, False, c\<lparr>cl_conn := t'\<rparr>)" by auto
  then show ?case using t(1) j(1) receive_turn_message [of "c\<lparr>cl_conn := t\<rparr>", OF _ u] Cons.prems(1)
    by (cases x) (auto intro: exI [of _ t'])
qed



section \<open>Long polling: requests and answers\<close>

text \<open>The body of a response as text (\<open>http.Error\<close> adds a line break).\<close>

fun response_text :: "response \<Rightarrow> string" where
  "response_text [] = []"
| "response_text (WriteText s # ops) = s @ response_text ops"
| "response_text (HttpError s c # ops) = s @ [CHR 0x0A] @ response_text ops"
| "response_text (_ # ops) = response_text ops"

text \<open>The request as the server sees it; \<open>route\<close>: the path of a URL and the value of its query
  parameter \<open>sessionId\<close>.\<close>

definition server_request :: "(string \<Rightarrow> string \<times> string) \<Rightarrow> http_request \<Rightarrow> request" where
  "server_request route rq =
     \<lparr>rq_upgrade = [], rq_path = fst (route (hr_url rq)), rq_sessionId = snd (route (hr_url rq)),
      rq_body = Inr (case hr_body rq of None \<Rightarrow> [] | Some b \<Rightarrow> b)\<rparr>"

definition serve_request ::
  "env \<Rightarrow> (string \<Rightarrow> string \<times> string) \<Rightarrow> bytes option \<Rightarrow> int \<Rightarrow> World \<Rightarrow> http_request \<Rightarrow> (response \<times> World) run" where
  "serve_request E route rnd now w rq =
     Server_HandleHTTP E (server_request route rq) (\<lambda>_. UpgradeFailed []) rnd now w"

text \<open>The HTTP client in front of that server.\<close>

definition http_env :: "(string \<Rightarrow> gerror + string) \<Rightarrow> (http_request \<Rightarrow> (response \<times> 'w) run) \<Rightarrow> lp_env" where
  "http_env dec serve_rq =
     \<lparr>le_newRequest = (\<lambda>_. None),
      le_do = (\<lambda>rq. case serve_rq rq of
          Inl _ \<Rightarrow> DoError (ErrNew ''EOF'')
        | Inr (resp, _) \<Rightarrow> Answer (response_status resp) [] (response_text resp) (dec (response_text resp))
            (Inr (response_texts resp))),
      le_ctxDone = False\<rparr>"

text \<open>The body the server writes for a new session.\<close>

definition session_json :: "string \<Rightarrow> string" where
  "session_json i = ''{\"sessionId\":\"'' @ i @ ''\"}''"

text \<open>An operation of the client's transport that makes at most one request, with \<open>HandleHTTP\<close> at the
  other end.\<close>

definition lp_call ::
  "env \<Rightarrow> (string \<Rightarrow> gerror + string) \<Rightarrow> (string \<Rightarrow> string \<times> string) \<Rightarrow> bytes option \<Rightarrow> int \<Rightarrow>
     (lp_env \<Rightarrow> LongPollingTransport \<Rightarrow> 'a \<times> LongPollingTransport) \<Rightarrow> LongPollingTransport \<Rightarrow> World \<Rightarrow>
     ('a \<times> LongPollingTransport \<times> World) run" where
  "lp_call E dec route rnd now op t w =
     (case op (http_env dec (serve_request E route rnd now w)) t of
        (x, t') \<Rightarrow> (case drop (length (lpt_requests t)) (lpt_requests t') of
           [] \<Rightarrow> Inr (x, t', w)
         | rq # _ \<Rightarrow> run_bind (serve_request E route rnd now w rq) (\<lambda>(_, w'). Inr (x, t', w'))))"

fun lp_sends ::
  "env \<Rightarrow> (string \<Rightarrow> gerror + string) \<Rightarrow> (string \<Rightarrow> string \<times> string) \<Rightarrow> (int \<times> bytes) list \<Rightarrow>
     LongPollingTransport \<Rightarrow> World \<Rightarrow> (gerror option list \<times> LongPollingTransport \<times> World) run" where
  "lp_sends E dec route [] t w = Inr ([], t, w)"
| "lp_sends E dec route ((now, data) # ds) t w =
     run_bind (lp_call E dec route None now (\<lambda>e. LPT_Send e data) t w) (\<lambda>(err, t', w').
     run_bind (lp_sends E dec route ds t' w') (\<lambda>(errs, t'', w''). Inr (err # errs, t'', w'')))"

text \<open>What is assumed of URLs: the four the transport builds on its base URL lead to the server's
  paths, and the session identifier comes back.\<close>

definition routes :: "(string \<Rightarrow> string \<times> string) \<Rightarrow> string \<Rightarrow> string \<Rightarrow> bool" where
  "routes route base i \<longleftrightarrow>
     route (base @ ''/connect'') = (''/socket/connect'', []) \<and>
     route (base @ ''/poll?sessionId='' @ i) = (''/socket/poll'', i) \<and>
     route (base @ ''/send?sessionId='' @ i) = (''/socket/send'', i) \<and>
     route (base @ ''/disconnect?sessionId='' @ i) = (''/socket/disconnect'', i)"

text \<open>The messages a session has received and its receive loop has not yet read.\<close>

definition session_inbox :: "World \<Rightarrow> string \<Rightarrow> bytes chan option" where
  "session_inbox w i =
     (case gm_get (srv_sessions (w_server w)) i of
        None \<Rightarrow> None
      | Some ss \<Rightarrow> (case si_transport (w_socks w (ses_sock ss)) of
          TWS _ \<Rightarrow> None
        | TLP t \<Rightarrow> if lps_closed t then None else Some (lps_incomingMessages t)))"

lemma serve_request_lp:
  "serve_request E route rnd now w rq =
     Inr (Server_handleLongPolling E (server_request route rq) rnd now w)"
  by (simp add: serve_request_def Server_HandleHTTP_def Server_tryWebSocketUpgrade_def server_request_def)

text \<open>The call when the operation made exactly one request.\<close>

lemma lp_call_one:
  assumes "op (http_env dec (serve_request E route rnd now w)) t = (x, t')"
    and "lpt_requests t' = lpt_requests t @ [rq]"
    and "Server_handleLongPolling E (server_request route rq) rnd now w = (resp, w')"
  shows "lp_call E dec route rnd now op t w = Inr (x, t', w')"
  using assms by (simp add: lp_call_def serve_request_lp)

lemma http_do_env:
  assumes "Server_handleLongPolling E (server_request route rq) rnd now w = (resp, w')"
  shows "http_do (http_env dec (serve_request E route rnd now w)) rq t =
    (Inr (Answer (response_status resp) [] (response_text resp) (dec (response_text resp))
       (Inr (response_texts resp))), t\<lparr>lpt_requests := lpt_requests t @ [rq]\<rparr>)"
  using assms by (simp add: http_do_def http_env_def serve_request_lp)

lemma lp_connect_result:
  assumes i: "fst (fresh_id rnd w) = i" and d: "dec (session_json i) = Inr i"
    and t: "\<not> lpt_connected t" and r: "routes route (lpt_baseURL t) i"
  shows "\<exists>t' w'. lp_call E dec route rnd now LPT_Connect t w = Inr (None, t', w') \<and>
    lpt_connected t' \<and> lpt_sessionID t' = i \<and> lpt_baseURL t' = lpt_baseURL t \<and>
    session_inbox w' i = Some (make_chan 100)"
proof -
  obtain w1 where f: "fresh_id rnd w = (i, w1)" using i by (cases "fresh_id rnd w") auto
  obtain resp w' where c: "handleLongPollingConnect rnd now w = (resp, w')" by fastforce
  have resp: "resp = [SetHeader ''Content-Type'' ''application/json'', WriteText (''{\"sessionId\":\"'' @ i @ ''\"}'')]"
    and inbox: "session_inbox w' i = Some (make_chan 100)"
    using c f by (auto simp: handleLongPollingConnect_def alloc_sock_def session_inbox_def upd_server_def
        newSocketFromServerTransport_def NewLongPollingServerTransport_def DefaultLongPollingServerConfig_def
        spawn_def Let_def)
  have ok: "response_status resp = StatusOK" "response_text resp = session_json i"
    by (simp_all add: resp session_json_def)
  let ?e = "http_env dec (serve_request E route rnd now w)"
  have s: "Server_handleLongPolling E (server_request route (connect_request t)) rnd now w = (resp, w')"
    using c r by (simp add: Server_handleLongPolling_def server_request_def connect_request_def routes_def)
  obtain t' where t': "LPT_Connect ?e t = (None, t')" "lpt_requests t' = lpt_requests t @ [connect_request t]"
    "lpt_connected t'" "lpt_sessionID t' = i" "lpt_baseURL t' = lpt_baseURL t"
    using t ok d by (simp add: LPT_Connect_def http_do_env [OF s])
  show ?thesis using lp_call_one [where op = LPT_Connect, OF t'(1,2) s] t' inbox by blast
qed

lemma lp_send_result:
  assumes i: "lpt_sessionID t = i" "i \<noteq> []" and inbox: "session_inbox w i = Some c"
    and r: "routes route (lpt_baseURL t) i"
  shows "\<exists>err t' w'. lp_call E dec route None now (\<lambda>e. LPT_Send e data) t w = Inr (err, t', w') \<and>
    lpt_connected t' = lpt_connected t \<and> lpt_sessionID t' = i \<and> lpt_baseURL t' = lpt_baseURL t \<and>
    session_inbox w' i = Some (ch.offer data c) \<and> (err = None \<longleftrightarrow> length (ch_buf c) < ch_cap c)"
proof -
  obtain ss lt where ss: "gm_get (srv_sessions (w_server w)) i = Some ss"
    "si_transport (w_socks w (ses_sock ss)) = TLP lt" "\<not> lps_closed lt" "lps_incomingMessages lt = c"
    using inbox by (auto simp: session_inbox_def split: option.splits transport.splits if_splits)
  obtain resp lt' where h: "LPS_HandleSend now (Inr data) lt = (resp, lt')" by fastforce
  let ?w' = "upd_sock (ses_sock ss) (\<lambda>s. s\<lparr>si_transport := TLP lt'\<rparr>) w"
  have s: "Server_handleLongPolling E (server_request route (send_request data t)) None now w = (resp, ?w')"
    using ss h r i by (simp add: Server_handleLongPolling_def server_request_def send_request_def routes_def
        handleLongPollingSend_def on_session_transport_def)
  have lt': "\<not> lps_closed lt'" "lps_incomingMessages lt' = ch.offer data c"
      "response_status resp = StatusOK \<longleftrightarrow> length (ch_buf c) < ch_cap c"
    using h ss(3,4) by (auto simp: LPS_HandleSend_def ch.offer_def ch_try_send_def Let_def StatusOK_def
        StatusServiceUnavailable_def split: if_splits)
  then have inbox': "session_inbox ?w' i = Some (ch.offer data c)"
    using ss(1) by (simp add: session_inbox_def upd_sock_def)
  let ?e = "http_env dec (serve_request E route None now w)"
  let ?t = "t\<lparr>lpt_requests := lpt_requests t @ [send_request data t]\<rparr>"
  obtain err where e: "LPT_Send ?e data t = (err, ?t)" "err = None \<longleftrightarrow> length (ch_buf c) < ch_cap c"
    using lt'(3) i by (cases "response_status resp = StatusOK") (simp_all add: LPT_Send_def http_do_env [OF s])
  have "lp_call E dec route None now (\<lambda>e. LPT_Send e data) t w = Inr (err, ?t, ?w')"
    by (rule lp_call_one [where op = "\<lambda>e. LPT_Send e data", OF e(1) _ s]) simp
  then show ?thesis using e(2) inbox' i by (intro exI [of _ err] exI [of _ ?t] exI [of _ ?w']) simp
qed

lemma lp_sends_result:
  assumes "lpt_sessionID t = i" "i \<noteq> []" and "session_inbox w i = Some c" and "ch_ok c"
    and "routes route (lpt_baseURL t) i"
  shows "\<exists>errs t' w'. lp_sends E dec route ds t w = Inr (errs, t', w') \<and>
    lpt_connected t' = lpt_connected t \<and> lpt_sessionID t' = i \<and> lpt_baseURL t' = lpt_baseURL t \<and>
    session_inbox w' i = Some (fold ch.offer (map snd ds) c) \<and> length errs = length ds \<and>
    (\<forall>k<length ds. errs ! k = None \<longleftrightarrow> k < ch_cap c - length (ch_buf c))"
  using assms(1,3-)
proof (induction ds arbitrary: t w c)
  case (Cons d ds)
  obtain now data where d: "d = (now, data)" by fastforce
  obtain err t1 w1 where s: "lp_call E dec route None now (\<lambda>e. LPT_Send e data) t w = Inr (err, t1, w1)"
    "lpt_connected t1 = lpt_connected t" "lpt_sessionID t1 = i" "lpt_baseURL t1 = lpt_baseURL t"
    "session_inbox w1 i = Some (ch.offer data c)" "err = None \<longleftrightarrow> length (ch_buf c) < ch_cap c"
    using lp_send_result [OF Cons.prems(1) assms(2) Cons.prems(2,4)] by blast
  have o: "ch_ok (ch.offer data c)" "ch_cap (ch.offer data c) = ch_cap c"
    "ch_buf (ch.offer data c) = (if length (ch_buf c) < ch_cap c then ch_buf c @ [data] else ch_buf c)"
    using ch.offer_contents [OF Cons.prems(3)] by simp_all
  obtain errs t' w' where r: "lp_sends E dec route ds t1 w1 = Inr (errs, t', w')"
    "lpt_connected t' = lpt_connected t1" "lpt_sessionID t' = i" "lpt_baseURL t' = lpt_baseURL t1"
    "session_inbox w' i = Some (fold ch.offer (map snd ds) (ch.offer data c))" "length errs = length ds"
    "\<forall>k<length ds. errs ! k = None \<longleftrightarrow> k < ch_cap c - length (ch_buf (ch.offer data c))"
    using Cons.IH [OF s(3,5) o(1)] o(2) s(4) Cons.prems(4) by auto
  have "(err # errs) ! k = None \<longleftrightarrow> k < ch_cap c - length (ch_buf c)" if "k < length (d # ds)" for k
    using that r(7) s(6) o(3) by (cases k) auto
  then show ?case using d s r by auto
qed simp

text \<open>\<open>Close\<close> ends the session on both sides.\<close>

lemma lp_close_result:
  assumes i: "lpt_connected t" "lpt_sessionID t = i" and inbox: "session_inbox w i = Some c"
    and r: "routes route (lpt_baseURL t) i"
  shows "\<exists>t' w'. lp_call E dec route None now LPT_Close t w = Inr (None, t', w') \<and>
    \<not> lpt_connected t' \<and> lpt_sessionID t' = [] \<and> \<not> gm_has (srv_sessions (w_server w')) i"
proof -
  obtain ss where ss: "gm_get (srv_sessions (w_server w)) i = Some ss"
    using inbox by (auto simp: session_inbox_def split: option.splits)
  let ?w' = "sock_Close E (ses_sock ss) (drop_session i ss w)"
  have s: "Server_handleLongPolling E (server_request route (disconnect_request t)) None now w =
      ([WriteHeader StatusOK], ?w')"
    using ss r i by (simp add: Server_handleLongPolling_def server_request_def disconnect_request_def routes_def
        handleLongPollingDisconnect_def)
  let ?e = "http_env dec (serve_request E route None now w)"
  obtain t' where t': "LPT_Close ?e t = (None, t')" "lpt_requests t' = lpt_requests t @ [disconnect_request t]"
    "\<not> lpt_connected t'" "lpt_sessionID t' = []"
    using i by (simp add: LPT_Close_def http_do_env [OF s])
  have "srv_sessions (w_server ?w') = gm_delete i (srv_sessions (w_server w))"
    by (simp add: sock_Close_def drop_session_def upd_server_def upd_sock_def spawn_def split: prod.split)
  then have "\<not> gm_has (srv_sessions (w_server ?w')) i" by (simp add: gm_has_def)
  then show ?thesis using lp_call_one [where op = LPT_Close, OF t'(1,2) s] t' by blast
qed


text \<open>A decoder for the answer: the text between the fixed prefix and the closing characters; and the
  parsing of the URLs for the base URL \<open>/socket\<close>.\<close>

definition demo_dec :: "string \<Rightarrow> gerror + string" where
  "demo_dec s = Inr (take (length s - 16) (drop 14 s))"

definition demo_route :: "string \<Rightarrow> string \<times> string" where
  "demo_route u = (let p = takeWhile (\<lambda>c. c \<noteq> CHR ''?'') u in (p, drop (length p + 11) u))"

lemma demo_routes: "routes demo_route ''/socket'' i"
  by (simp add: routes_def demo_route_def)


end
