(* ===== verification/RoomDelivery.thy ===== *)
theory RoomDelivery
  imports EndToEnd
begin

text \<open>
  A broadcast to a room from the call to the peers: the worker pool of the room, the sends of its
  workers, the write pump of each member's connection, and the handlers of a client that reads what
  the pump has written.
\<close>

text \<open>The sends of the workers, in the order in which they return.\<close>

definition deliver :: "env \<Rightarrow> Event \<Rightarrow> gval \<Rightarrow> Socket list \<Rightarrow> World \<Rightarrow> World" where
  "deliver E event data sks w = fold (\<lambda>sk w. snd (sock_Send E (sk_addr sk) event data w)) sks w"

lemma sock_Send_socks:
  "w_socks (snd (sock_Send E b event data w)) =
     (w_socks w)(b := snd (SI_Send (env_codec E) (tr_Write E) event data (w_socks w b)))"
  by (simp add: sock_Send_def split: prod.split)

lemma deliver_socks:
  "distinct (map sk_addr sks) \<Longrightarrow> w_socks (deliver E event data sks w) a =
     (if a \<in> sk_addr ` set sks then snd (SI_Send (env_codec E) (tr_Write E) event data (w_socks w a))
      else w_socks w a)"
proof (induction sks arbitrary: w)
  case (Cons sk sks)
  then show ?case
    by (auto simp: deliver_def sock_Send_socks)
qed (simp add: deliver_def)

text \<open>The socket at an address is in a room.\<close>

definition in_room :: "World \<Rightarrow> string \<Rightarrow> nat \<Rightarrow> bool" where
  "in_room w room a \<longleftrightarrow>
     (case gm_get (rm_rooms (srv_roomManager (w_server w))) room of
        None \<Rightarrow> False
      | Some r \<Rightarrow> ref w a \<in> set (Room_GetSockets (rm_heap (srv_roomManager (w_server w)) r)))"

lemma room_ids:
  assumes "room_ok r"
  shows "map sk_ID (Room_GetSockets r) = gm_keys (room_sockets r)"
proof -
  have "sk_ID (snd x) = fst x" if "x \<in> set (room_sockets r)" for x
    using assms that gm_entries_iff [of "room_sockets r" "fst x" "snd x"] by (simp add: room_ok_def)
  then show ?thesis by (simp add: Room_GetSockets_def gm_vals_def gm_keys_def)
qed

lemma room_members:
  assumes "world_ok w" and "gm_get (rm_rooms (srv_roomManager (w_server w))) room = Some r"
    and "sks = Room_GetSockets (rm_heap (srv_roomManager (w_server w)) r)"
  shows "distinct (map sk_addr sks)" and "a \<in> sk_addr ` set sks \<longleftrightarrow> in_room w room a"
proof -
  let ?rm = "srv_roomManager (w_server w)"
  have ok: "rm_ok ?rm" "\<forall>sk\<in>rm_refs ?rm. sock_ok w sk" using assms(1) by (auto simp: world_ok_def server_ok_def)
  have room: "room_ok (rm_heap ?rm r)" using ok(1) by (simp add: rm_ok_def)
  then have gm: "gm_ok (room_sockets (rm_heap ?rm r))" by (simp add: room_ok_def)
  have sk: "sock_ok w sk" if "sk \<in> set sks" for sk
    using that ok(2) gm assms(3) by (auto simp: Room_GetSockets_def gm_vals_iff rm_refs_def)
  then have ref: "ref w (sk_addr sk) = sk" if "sk \<in> set sks" for sk using that ref_eq by blast
  show "a \<in> sk_addr ` set sks \<longleftrightarrow> in_room w room a"
  proof
    assume "in_room w room a"
    then have "ref w a \<in> set sks" using assms(2,3) by (simp add: in_room_def)
    then show "a \<in> sk_addr ` set sks" by (force simp: ref_def)
  qed (use ref assms(2,3) in \<open>auto simp: in_room_def\<close>)
  have "map sk_ID sks = gm_keys (room_sockets (rm_heap ?rm r))"
    using room assms(3) by (simp add: room_ids)
  then have "distinct (map sk_ID sks)" using gm by (simp add: gm_ok_def gm_keys_def)
  then have "distinct sks" by (simp add: distinct_map)
  have "sk = sk'" if "sk \<in> set sks" "sk' \<in> set sks" "sk_addr sk = sk_addr sk'" for sk sk'
    using ref [OF that(1)] ref [OF that(2)] unfolding that(3) by (rule trans [OF sym])
  then have "inj_on sk_addr (set sks)" by (rule inj_onI)
  with \<open>distinct sks\<close> show "distinct (map sk_addr sks)"
    unfolding distinct_map by (rule conjI)
qed

lemma broadcast_sent:
  assumes "Server_BroadcastToRoom room w = Some p" and "pool_reach p q" and "pool_returned q"
  shows "\<exists>r. gm_get (rm_rooms (srv_roomManager (w_server w))) room = Some r \<and>
    mset (pl_sent q) = mset (Room_GetSockets (rm_heap (srv_roomManager (w_server w)) r))"
proof -
  obtain r where r: "gm_get (rm_rooms (srv_roomManager (w_server w))) room = Some r"
      and p: "Room_BroadcastParallel 10 (rm_heap (srv_roomManager (w_server w)) r) = Some p"
    using assms(1) by (auto simp: Server_BroadcastToRoom_def RoomManager_BroadcastToRoom_def split: option.splits)
  let ?S = "Room_GetSockets (rm_heap (srv_roomManager (w_server w)) r)"
  have inv: "pool_inv (mset ?S) (nat (min (int (length ?S)) 10)) q" and "?S \<noteq> []"
    using BroadcastParallel_pool_inv [OF p] pool_reach_inv [OF assms(2)] by blast+
  then have "mset (pl_sent q) = mset ?S" using pool_returned_sent [OF inv assms(3)] by simp
  then show ?thesis using r by blast
qed


text \<open>A world with one WebSocket connection, which is registered and in a room.\<close>

definition demo_socket :: simpl where
  "demo_socket = newSocketFromServerTransport ''s''
     (TWS (NewWebSocketServerTransport ''s'' DefaultWebSocketServerConfig 0))"

definition demo_member :: World where
  "demo_member = Server_Join ''s'' ''lobby''
     (Server_handleSocket (SocketRef 0 ''s'') (snd (alloc_sock demo_socket (new_world demo_server))))"

lemma ok_demo_member: "world_ok demo_member"
proof -
  obtain sk w where a: "alloc_sock demo_socket (new_world demo_server) = (sk, w)" by fastforce
  then have "sk = SocketRef 0 ''s''"
    by (auto simp: alloc_sock_def new_world_def demo_socket_def newSocketFromServerTransport_def)
  then have "world_ok (Server_handleSocket (SocketRef 0 ''s'') w)"
    using ok_alloc(1,2) [OF ok_demo a] ok_handleSocket by blast
  then show ?thesis unfolding demo_member_def a using ok_wstep [OF wstep.api_join] by simp
qed

lemma demo_member_room:
  "rm_rooms (srv_roomManager (w_server demo_member)) = [(''lobby'', 0)]"
  "room_sockets (rm_heap (srv_roomManager (w_server demo_member)) 0) = [(''s'', SocketRef 0 ''s'')]"
  "ref demo_member 0 = SocketRef 0 ''s''" "si_connected (w_socks demo_member 0)"
  "si_transport (w_socks demo_member 0) = TWS (NewWebSocketServerTransport ''s'' DefaultWebSocketServerConfig 0)"
  by (simp_all add: demo_member_def demo_socket_def newSocketFromServerTransport_def alloc_sock_def
      new_world_def demo_server_def default_server_def Server_handleSocket_def Server_triggerEvent_def
      Server_Join_def upd_rooms_def upd_server_def upd_sock_def ref_def SI_On_def add_handler_def
      RoomManager_JoinRoom_def RoomManager_GetRoom_def GetRoom_lookup_def GetRoom_create_def
      NewRoomManager_def upd_room_def NewRoom_def Room_AddSocket_def gm_put_def spawn_def
      forwarded_events_def gm_keys_def handlers_of_def Let_def)


end
