(* ===== verification/ReadDeadline.thy ===== *)
theory ReadDeadline
  imports ServerProps
begin

text \<open>
  What the transport of a socket keeps for the whole life of its connection.  A quantity of
  transports that no operation of a transport changes is constant in every run of the server
  (locale \<open>constant_of_transport\<close>).  It is used for the identifier and, above all, for the read deadline,
  which is set once, when the connection is made.
\<close>

section \<open>Quantities that no operation changes\<close>

definition obs_ext :: "(transport \<Rightarrow> 'a) \<Rightarrow> World \<Rightarrow> World \<Rightarrow> bool" where
  "obs_ext obs w w' \<longleftrightarrow> w_next w \<le> w_next w' \<and>
     (\<forall>a<w_next w. obs (si_transport (w_socks w' a)) = obs (si_transport (w_socks w a)))"

lemma obs_ext_trans [trans]: "obs_ext obs u v \<Longrightarrow> obs_ext obs v w \<Longrightarrow> obs_ext obs u w"
  by (auto simp: obs_ext_def)

lemma obs_ext_simps [simp]:
  "obs_ext obs w w" "obs_ext obs w (spawn ts w') = obs_ext obs w w'"
  "obs_ext obs w (upd_server f w') = obs_ext obs w w'"
  "obs_ext obs (upd_server f w) w' = obs_ext obs w w'"
  "obs_ext obs w (w'\<lparr>w_calls := cs\<rparr>) = obs_ext obs w w'"
  "obs_ext obs w (w'\<lparr>w_signals := bs\<rparr>) = obs_ext obs w w'"
  "obs_ext obs w (take_task k w') = obs_ext obs w w'"
  "obs_ext obs w (set_semaphore c w') = obs_ext obs w w'"
  by (simp_all add: obs_ext_def take_task_def set_semaphore_def)

lemma obs_upd_sock:
  "obs (si_transport (g (w_socks w a))) = obs (si_transport (w_socks w a)) \<Longrightarrow> obs_ext obs w (upd_sock a g w)"
  by (auto simp: obs_ext_def)

lemma obs_fold:
  "(\<And>x w. obs_ext obs w (f x w)) \<Longrightarrow> obs_ext obs w (fold f xs w)"
  by (induction xs arbitrary: w) (auto intro: obs_ext_trans)

lemma obs_alloc: "alloc_sock s w = (sk, w') \<Longrightarrow> obs_ext obs w w'"
  by (auto simp: alloc_sock_def obs_ext_def)

lemma obs_fresh: "fresh_id rnd w = (i, w') \<Longrightarrow> obs_ext obs w w'"
  by (auto simp: fresh_id_def obs_ext_def split: prod.splits)

lemma obs_handleSocket: "obs_ext obs w (Server_handleSocket sk w)"
  by (simp add: obs_ext_def)

lemma obs_rooms [simp]: "obs_ext obs w (upd_rooms f w)"
  by (simp add: upd_rooms_def)

locale constant_of_transport =
  fixes obs :: "transport \<Rightarrow> 'a" and E :: env
  assumes write_obs: "obs (snd (tr_Write E b t)) = obs t"
    and close_obs: "obs (snd (tr_Close E t)) = obs t"
    and pump_obs: "WSS_pump_turn err now x = Some x' \<Longrightarrow> obs (TWS x') = obs (TWS x)"
    and lp_read_obs: "LPS_Read y = Some (r, y') \<Longrightarrow> obs (TLP y') = obs (TLP y)"
    and poll_obs: "obs (TLP (snd (LPS_HandlePoll now y))) = obs (TLP y)"
    and send_obs: "obs (TLP (snd (LPS_HandleSend now body y))) = obs (TLP y)"
begin

lemma SI_Send_obs:
  "SI_Send cd (tr_Write E) e d s = (err, s') \<Longrightarrow> obs (si_transport s') = obs (si_transport s)"
  by (auto simp: SI_Send_def split: if_splits sum.splits prod.splits) (metis write_obs snd_conv)

lemma SI_Close_obs:
  "SI_Close (tr_Close E) s = (err, gs, s') \<Longrightarrow> obs (si_transport s') = obs (si_transport s)"
  using close_obs [of "si_transport s"] by (auto simp: SI_Close_def Let_def split: if_splits prod.splits)

lemma receive_obs:
  "SI_receive_step cd (tr_Close E) r s = (gs, b, s') \<Longrightarrow> obs (si_transport s') = obs (si_transport s)"
  by (auto simp: SI_receive_step_def Let_def dest: SI_Close_obs split: sum.splits prod.splits)

lemma WSS_Read_obs: "WSS_Read (env_connClose E) r x = (r', x') \<Longrightarrow> obs (TWS x') = obs (TWS x)"
  using close_obs [of "TWS x"] by (auto simp: WSS_Read_def split: sum.splits)

lemma sock_Send_obs: "sock_Send E a e d w = (err, w') \<Longrightarrow> obs_ext obs w w'"
  by (auto simp: sock_Send_def intro!: obs_upd_sock dest: SI_Send_obs split: prod.splits)

lemma sock_Close_obs: "obs_ext obs w (sock_Close E a w)"
  by (auto simp: sock_Close_def intro!: obs_upd_sock dest: SI_Close_obs split: prod.splits)

lemma sock_receive_obs: "obs_ext obs w (sock_receive E a r w)"
  by (auto simp: sock_receive_def intro!: obs_upd_sock dest: receive_obs split: prod.splits)

lemma upgrade_obs: "upgrade_socket upg rnd now w = Inr (resp, sk, w') \<Longrightarrow> obs_ext obs w w'"
  by (auto simp: upgrade_socket_def Let_def split: upgrade.splits prod.splits if_splits
      dest!: obs_fresh [where obs = obs] obs_alloc [where obs = obs] intro: obs_ext_trans)

lemma release_obs: "release_semaphore w = Inr w' \<Longrightarrow> obs_ext obs v w \<Longrightarrow> obs_ext obs v w'"
  by (auto simp: release_semaphore_def split: option.splits prod.splits)

lemma tryUpgrade_obs:
  assumes "Server_tryWebSocketUpgrade rq upg rnd now w = Inr (resp, sk, w')"
  shows "obs_ext obs w w'"
proof -
  have sem: "obs_ext obs w v" if "upgrade_socket upg rnd now (set_semaphore c w) = Inr (x, y, v)" for c x y v
    using upgrade_obs [OF that] by (simp add: obs_ext_def set_semaphore_def)
  show ?thesis using assms
    by (auto simp: Server_tryWebSocketUpgrade_def run_bind_Inr_iff
        split: if_splits option.splits dest: upgrade_obs intro: release_obs sem)
qed

lemma on_session_obs:
  "(\<And>y. obs (TLP (snd (f y))) = obs (TLP y)) \<Longrightarrow> on_session_transport a f w = (resp, w') \<Longrightarrow> obs_ext obs w w'"
  by (auto simp: on_session_transport_def intro!: obs_upd_sock split: transport.splits prod.splits)
    (metis snd_conv)

lemma connect_obs: "handleLongPollingConnect rnd now w = (resp, w') \<Longrightarrow> obs_ext obs w w'"
  by (auto simp: handleLongPollingConnect_def Let_def split: prod.splits
      dest!: obs_fresh [where obs = obs] obs_alloc [where obs = obs] intro: obs_ext_trans)

lemma disconnect_obs: "handleLongPollingDisconnect E i w = (resp, w') \<Longrightarrow> obs_ext obs w w'"
  using sock_Close_obs [of "drop_session i s w" for s]
  by (auto simp: handleLongPollingDisconnect_def drop_session_def split: option.splits)

lemma longPolling_obs: "Server_handleLongPolling E rq rnd now w = (resp, w') \<Longrightarrow> obs_ext obs w w'"
  by (auto simp: Server_handleLongPolling_def Let_def handleLongPollingPoll_def handleLongPollingSend_def
      intro: connect_obs disconnect_obs on_session_obs poll_obs send_obs split: if_splits option.splits)

lemma HandleHTTP_obs: "Server_HandleHTTP E rq upg rnd now w = Inr (resp, w') \<Longrightarrow> obs_ext obs w w'"
  by (auto simp: Server_HandleHTTP_def run_bind_Inr_iff split: option.splits prod.splits
      intro: obs_ext_trans [OF tryUpgrade_obs longPolling_obs] obs_ext_trans [OF tryUpgrade_obs obs_handleSocket])

lemma cleanup_obs: "obs_ext obs w (Server_cleanupSessions E now w)"
  unfolding Server_cleanupSessions_def
proof (rule obs_fold)
  show "obs_ext obs v (cleanup_one E now e v)" for e v
    using sock_Close_obs [of "drop_session (fst e) (snd e) v" "ses_sock (snd e)"]
    by (simp add: cleanup_one_def drop_session_def)
qed

lemma run_task_obs:
  assumes "run_task E t w = Inr w'"
  shows "obs_ext obs w w'"
proof (cases t)
  case (TSocket sk h d)
  then show ?thesis using assms
    by (cases h) (auto simp: Server_triggerEvent_def run_disconnect_def Let_def Server_LeaveAll_def upd_rooms_def
        close_signal_def split: if_splits)
next
  case (TSend sk e d)
  then show ?thesis using assms by (auto intro: sock_Send_obs [OF surjective_pairing])
next
  case (TSignal sk)
  then show ?thesis using assms by (auto simp: register_signal_def Let_def obs_ext_def)
qed (use assms in \<open>auto simp: obs_handleSocket\<close>)

lemma wstep_obs: "wstep E w w' \<Longrightarrow> obs_ext obs w w'"
proof (induction rule: wstep.induct)
  case (task k w w')
  from run_task_obs [OF task(2)] show ?case by (simp add: obs_ext_def take_task_def)
next
  case (receive_ws a w t r r' t')
  then show ?case
    by (intro obs_ext_trans [OF obs_upd_sock sock_receive_obs]) (simp add: WSS_Read_obs)
next
  case (receive_lp a w t r' t')
  then show ?case
    by (intro obs_ext_trans [OF obs_upd_sock sock_receive_obs]) (simp add: lp_read_obs)
next
  case (write_pump a w t err now t')
  then show ?case by (intro obs_upd_sock) (simp add: pump_obs)
next
  case (shutdown w)
  then show ?case unfolding Server_Shutdown_def by (intro obs_fold sock_Close_obs)
qed (auto simp: Server_HandleFunc_def Server_Broadcast_def Let_def Server_Join_def Server_Leave_def
    Server_LeaveAll_def Server_In_def SI_Off_def split: option.splits prod.splits
    intro: HandleHTTP_obs cleanup_obs sock_Send_obs sock_Close_obs obs_upd_sock)

lemma reach_obs: "wreach E w w' \<Longrightarrow> obs_ext obs w w'"
  by (induction rule: reaches.induct) (auto intro: obs_ext_trans wstep_obs)

end

section \<open>The read deadline of a WebSocket connection\<close>

text \<open>The read deadlines set on a connection, in order; a long-polling session has none.\<close>

fun deadline_of :: "conn_call \<Rightarrow> int list" where
  "deadline_of (SetReadDeadline d) = [d]"
| "deadline_of _ = []"

definition read_deadlines :: "WebSocketServerTransport \<Rightarrow> int list" where
  "read_deadlines t = concat (map deadline_of (wss_calls t))"

fun tr_deadlines :: "transport \<Rightarrow> int list option" where
  "tr_deadlines (TWS t) = Some (read_deadlines t)"
| "tr_deadlines (TLP t) = None"

lemma Close_deadlines: "read_deadlines (snd (WSS_Close cerr t)) = read_deadlines t"
  by (simp add: WSS_Close_def read_deadlines_def)

lemma Write_deadlines: "read_deadlines (snd (WSS_Write cerr b t)) = read_deadlines t"
proof (cases "ch_try_send b (wss_sendCh t)")
  case None
  then show ?thesis by (simp add: WSS_Write_def Close_deadlines)
qed (simp add: WSS_Write_def read_deadlines_def)

interpretation deadlines: constant_of_transport tr_deadlines E for E
proof unfold_locales
  fix b t err now x x' y r y' body
  show "tr_deadlines (snd (tr_Write E b t)) = tr_deadlines t"
    by (cases t) (simp_all add: Write_deadlines)
  show "tr_deadlines (snd (tr_Close E t)) = tr_deadlines t"
    by (cases t) (simp_all add: Close_deadlines)
  show "WSS_pump_turn err now x = Some x' \<Longrightarrow> tr_deadlines (TWS x') = tr_deadlines (TWS x)"
    by (auto simp: WSS_pump_turn_def Let_def read_deadlines_def deadline_calls_def split: if_splits option.splits)
qed simp_all

lemma upgraded_transport:
  assumes "upgrade_socket upg rnd now w = Inr (resp, Some sk, w')"
  shows "sk_addr sk < w_next w' \<and>
    tr_deadlines (si_transport (w_socks w' (sk_addr sk))) = Some [now + 30 * second]"
  using assms
  by (auto simp: upgrade_socket_def Let_def alloc_sock_def newSocketFromServerTransport_def read_deadlines_def
      NewWebSocketServerTransport_def DefaultWebSocketServerConfig_def second_def split: upgrade.splits prod.splits if_splits)

lemma tryUpgrade_transport:
  assumes "Server_tryWebSocketUpgrade rq upg rnd now w = Inr (resp, Some sk, w')"
  shows "sk_addr sk < w_next w' \<and>
    tr_deadlines (si_transport (w_socks w' (sk_addr sk))) = Some [now + 30 * second]"
proof -
  have "w_socks v' = w_socks v \<and> w_next v' = w_next v" if "release_semaphore v = Inr v'" for v v'
    using that by (auto simp: release_semaphore_def set_semaphore_def split: option.splits prod.splits)
  then show ?thesis using assms
    by (fastforce simp: Server_tryWebSocketUpgrade_def run_bind_Inr_iff split: if_splits option.splits
        dest: upgraded_transport)
qed

text \<open>What the documentation of \<open>net.Conn\<close> says of a read deadline: at or after the time set last,
  \<open>ReadMessage\<close> fails.  Its arguments are the deadlines set so far and the time of the read.\<close>

definition obeys_deadline :: "(int list \<Rightarrow> int \<Rightarrow> gerror + bytes) \<Rightarrow> bool" where
  "obeys_deadline ReadMessage \<longleftrightarrow> (\<forall>ds now. ds \<noteq> [] \<and> last ds \<le> now \<longrightarrow> (\<exists>err. ReadMessage ds now = Inl err))"

lemma receive_error_closes:
  "w_socks (sock_receive E a (Inl err) w) a = s \<Longrightarrow> \<not> si_connected s"
  using receive_error_spawned [of "env_codec E" "tr_Close E" err "w_socks w a"]
  by (auto simp: sock_receive_def split: prod.splits)

text \<open>C16. A WebSocket connection of the server ends thirty seconds after it was made, however busy it
  is.  Its transport sets the read deadline once, when it is created, and in whatever the server does
  afterwards nothing sets it again: so a read at or after that time fails, which closes the
  transport and disconnects the socket.  The ping interval and the ping timeout of the server,
  meant to keep a connection alive, are never read.\<close>

theorem ws_connection_ends_after_30_seconds:
  assumes "Server_tryWebSocketUpgrade rq upg rnd start w = Inr (resp, Some sk, w1)"
    and "wreach E (Server_handleSocket sk w1) w2" and "a = sk_addr sk"
    and "obeys_deadline ReadMessage" and "start + 30 * second \<le> now"
  shows "\<exists>t err t' w3. si_transport (w_socks w2 a) = TWS t \<and> read_deadlines t = [start + 30 * second] \<and>
    WSS_Read (env_connClose E) (ReadMessage (read_deadlines t) now) t = (Inl err, t') \<and> wss_closed t' \<and>
    w3 = sock_receive E a (Inl err) (upd_sock a (\<lambda>s. s\<lparr>si_transport := TWS t'\<rparr>) w2) \<and>
    wstep E w2 w3 \<and> \<not> si_connected (w_socks w3 a)"
proof -
  have "a < w_next w1" and d1: "tr_deadlines (si_transport (w_socks w1 a)) = Some [start + 30 * second]"
    using tryUpgrade_transport [OF assms(1)] assms(3) by simp_all
  then have a: "a < w_next w2" and "tr_deadlines (si_transport (w_socks w2 a)) = Some [start + 30 * second]"
    using deadlines.reach_obs [OF assms(2)] by (auto simp: obs_ext_def)
  then obtain t where t: "si_transport (w_socks w2 a) = TWS t" "read_deadlines t = [start + 30 * second]"
    by (cases "si_transport (w_socks w2 a)") auto
  obtain err where e: "ReadMessage (read_deadlines t) now = Inl err"
    using assms(4) [unfolded obeys_deadline_def, rule_format, of "read_deadlines t" now] assms(5) t(2) by auto
  obtain t' where r: "WSS_Read (env_connClose E) (Inl err) t = (Inl err, t')" "wss_closed t'"
    using wss.close_closed [of "env_connClose E" t] by (simp add: WSS_Read_def)
  let ?w3 = "sock_receive E a (Inl err) (upd_sock a (\<lambda>s. s\<lparr>si_transport := TWS t'\<rparr>) w2)"
  have "wstep E w2 ?w3" by (rule wstep.receive_ws [OF a t(1) r(1)])
  then show ?thesis using t e r receive_error_closes [OF refl] by auto
qed

theorem ws_connection_ends_after_30_seconds_witness:
  "\<exists>resp w1 t err t'. Server_HandleHTTP demo_env (demo_request ''websocket'' ''/socket'' []) (\<lambda>_. Upgraded) None 0
     (new_world demo_server) = Inr (resp, w1) \<and> si_transport (w_socks w1 0) = TWS t \<and>
     WSS_Read None (if last (read_deadlines t) \<le> 30 * second then Inl ErrTimeout else Inr [1]) t = (Inl err, t')"
proof -
  let ?rq = "demo_request ''websocket'' ''/socket'' []"
  let ?rm = "\<lambda>ds now. if last ds \<le> (now :: int) then Inl ErrTimeout else Inr [1 :: 8 word]"
  obtain sk w1 where u: "Server_tryWebSocketUpgrade ?rq (\<lambda>_. Upgraded) None 0 (new_world demo_server) =
      Inr ([], Some sk, w1)" and a: "sk_addr sk = 0"
    by (cases "generateID None 0")
      (auto simp: Server_tryWebSocketUpgrade_def demo_request_def demo_server_def default_server_def new_world_def
        ch_try_send_def ch_try_recv_def make_chan_def upgrade_socket_def Let_def alloc_sock_def set_semaphore_def upd_server_def
        release_semaphore_def fresh_id_def run_bind_def split: prod.splits sum.splits)
  have "obeys_deadline ?rm" by (simp add: obeys_deadline_def)
  from ws_connection_ends_after_30_seconds [where E = demo_env and now = "30 * second", OF u reaches.start a [symmetric] this]
  show ?thesis using u by (auto simp: Server_HandleHTTP_def demo_env_def)
qed

end
