(* ===== verification/ReceiveConcurrent.thy ===== *)
theory ReceiveConcurrent
  imports WSTransport WorkerPool
begin

text \<open>
  \<open>ReceiveConcurrent\<close> of \<open>socket/transport/websocket.go\<close>: a reader that pushes what it reads into
  a channel, workers that call the handler, one goroutine that hands it the error.  One rule per
  atomic step; the answers of the connection are free in every step of the reader, and another
  goroutine may close the transport at any moment.
\<close>

section \<open>States and steps\<close>

text \<open>Where the reader is: about to read, at the send of a message or of the error, at the two
  deferred \<open>close\<close> calls (the last one deferred runs first), or gone.\<close>

datatype reader =
    Reading
  | HasMessage bytes
  | HasError gerror
  | CloseErrs
  | CloseMessages
  | ReaderGone

record recv_pool =
  rp_conn :: WebSocketTransport
  rp_reader :: reader
  rp_messages :: "bytes chan"
  rp_closed :: bool
  rp_errs :: "gerror chan"
  rp_errsClosed :: bool
  rp_workers :: "bytes worker list"
  rp_errWorker :: "gerror worker"
  rp_handled :: "(gerror + bytes) list"     \<comment> \<open>calls of the handler that have returned\<close>
  rp_read :: "bytes list"                   \<comment> \<open>the messages read, for the statements\<close>

definition RC_start :: "int \<Rightarrow> WebSocketTransport \<Rightarrow> recv_pool" where
  "RC_start numWorkers t =
     \<lparr>rp_conn = t, rp_reader = Reading, rp_messages = make_chan (nat numWorkers), rp_closed = False,
      rp_errs = make_chan (nat numWorkers), rp_errsClosed = False,
      rp_workers = replicate (nat numWorkers) Idle, rp_errWorker = Idle, rp_handled = [], rp_read = []\<rparr>"

text \<open>The call: the handler gets the error at once when the transport is not connected (\<open>Inl\<close>),
  otherwise the goroutines start (\<open>Inr\<close>); \<open>wg.Add\<close> panics on a negative number.\<close>

definition WST_ReceiveConcurrent :: "int \<Rightarrow> WebSocketTransport \<Rightarrow> (gerror + recv_pool) run" where
  "WST_ReceiveConcurrent numWorkers t =
     (if \<not> wst_connected t \<or> wst_conn t = None then Inr (Inl not_connected)
      else if numWorkers < 0 then Inl (Panic ''sync: negative WaitGroup counter'')
      else Inr (Inr (RC_start numWorkers t)))"

inductive rc_step :: "recv_pool \<Rightarrow> recv_pool \<Rightarrow> bool" where
  read: "rp_reader p = Reading \<Longrightarrow> reader_turn E r (rp_conn p) = (Inr m, t) \<Longrightarrow>
    rc_step p (p\<lparr>rp_conn := t, rp_reader := HasMessage m, rp_read := rp_read p @ [m]\<rparr>)"
| fail: "rp_reader p = Reading \<Longrightarrow> reader_turn E r (rp_conn p) = (Inl e, t) \<Longrightarrow>
    rc_step p (p\<lparr>rp_conn := t, rp_reader := HasError e\<rparr>)"
| push: "rp_reader p = HasMessage m \<Longrightarrow> ch_try_send m (rp_messages p) = Some c \<Longrightarrow>
    rc_step p (p\<lparr>rp_reader := Reading, rp_messages := c\<rparr>)"
| push_err: "rp_reader p = HasError e \<Longrightarrow> ch_try_send e (rp_errs p) = Some c \<Longrightarrow>
    rc_step p (p\<lparr>rp_reader := CloseErrs, rp_errs := c\<rparr>)"
| hand_err: "rp_reader p = HasError e \<Longrightarrow> ch_cap (rp_errs p) = 0 \<Longrightarrow> rp_errWorker p = Idle \<Longrightarrow>
    rc_step p (p\<lparr>rp_reader := CloseErrs, rp_errWorker := Busy e\<rparr>)"
| close_errs: "rp_reader p = CloseErrs \<Longrightarrow>
    rc_step p (p\<lparr>rp_reader := CloseMessages, rp_errsClosed := True\<rparr>)"
| close_messages: "rp_reader p = CloseMessages \<Longrightarrow>
    rc_step p (p\<lparr>rp_reader := ReaderGone, rp_closed := True\<rparr>)"
| take: "i < length (rp_workers p) \<Longrightarrow> rp_workers p ! i = Idle \<Longrightarrow>
    ch_try_recv (rp_messages p) = Some (m, c) \<Longrightarrow>
    rc_step p (p\<lparr>rp_messages := c, rp_workers := (rp_workers p)[i := Busy m]\<rparr>)"
| handle: "i < length (rp_workers p) \<Longrightarrow> rp_workers p ! i = Busy m \<Longrightarrow>
    rc_step p (p\<lparr>rp_workers := (rp_workers p)[i := Idle], rp_handled := rp_handled p @ [Inr m]\<rparr>)"
| exit: "i < length (rp_workers p) \<Longrightarrow> rp_workers p ! i = Idle \<Longrightarrow>
    ch_try_recv (rp_messages p) = None \<Longrightarrow> rp_closed p \<Longrightarrow>
    rc_step p (p\<lparr>rp_workers := (rp_workers p)[i := Exited]\<rparr>)"
| take_err: "rp_errWorker p = Idle \<Longrightarrow> ch_try_recv (rp_errs p) = Some (e, c) \<Longrightarrow>
    rc_step p (p\<lparr>rp_errs := c, rp_errWorker := Busy e\<rparr>)"
| handle_err: "rp_errWorker p = Busy e \<Longrightarrow>
    rc_step p (p\<lparr>rp_errWorker := Idle, rp_handled := rp_handled p @ [Inl e]\<rparr>)"
| exit_err: "rp_errWorker p = Idle \<Longrightarrow> ch_try_recv (rp_errs p) = None \<Longrightarrow> rp_errsClosed p \<Longrightarrow>
    rc_step p (p\<lparr>rp_errWorker := Exited\<rparr>)"
| close_conn: "wst_connected (rp_conn p) \<Longrightarrow> wst_conn (rp_conn p) \<noteq> None \<Longrightarrow>
    WST_Close E (rp_conn p) = (err, t) \<Longrightarrow> rc_step p (p\<lparr>rp_conn := t\<rparr>)"

abbreviation rc_reach :: "recv_pool \<Rightarrow> recv_pool \<Rightarrow> bool" where
  "rc_reach \<equiv> reaches rc_step"

text \<open>\<open>wg.Wait\<close> has returned.\<close>

definition rc_returned :: "recv_pool \<Rightarrow> bool" where
  "rc_returned p \<longleftrightarrow> list_all (\<lambda>w. w = Exited) (rp_workers p)"

section \<open>The invariant\<close>

fun reader_messages :: "reader \<Rightarrow> bytes multiset" where
  "reader_messages (HasMessage m) = {#m#}"
| "reader_messages _ = {#}"

definition handled_messages :: "(gerror + bytes) list \<Rightarrow> bytes list" where
  "handled_messages hs = concat (map (\<lambda>h. case h of Inl _ \<Rightarrow> [] | Inr m \<Rightarrow> [m]) hs)"

definition handled_errors :: "(gerror + bytes) list \<Rightarrow> gerror list" where
  "handled_errors hs = concat (map (\<lambda>h. case h of Inl e \<Rightarrow> [e] | Inr _ \<Rightarrow> []) hs)"

lemma handled_append [simp]:
  "handled_messages (hs @ [Inr m]) = handled_messages hs @ [m]"
  "handled_messages (hs @ [Inl e]) = handled_messages hs"
  "handled_errors (hs @ [Inr m]) = handled_errors hs"
  "handled_errors (hs @ [Inl e]) = handled_errors hs @ [e]"
  "handled_messages [] = []" "handled_errors [] = []"
  by (simp_all add: handled_messages_def handled_errors_def)

text \<open>Every message read is with the reader, in the channel, with a worker, or was handled.\<close>

definition rc_messages :: "recv_pool \<Rightarrow> bytes multiset" where
  "rc_messages p = reader_messages (rp_reader p) + mset (ch_buf (rp_messages p)) +
     busy_jobs (rp_workers p) + mset (handled_messages (rp_handled p))"

text \<open>The number of errors sent on is one exactly when the reader is past its last send.\<close>

definition reader_past :: "reader \<Rightarrow> bool" where
  "reader_past r \<longleftrightarrow> r \<in> {CloseErrs, CloseMessages, ReaderGone}"

definition rc_errors :: "recv_pool \<Rightarrow> nat" where
  "rc_errors p = length (ch_buf (rp_errs p)) + size (busy_jobs [rp_errWorker p]) +
     length (handled_errors (rp_handled p))"

definition rc_inv :: "nat \<Rightarrow> recv_pool \<Rightarrow> bool" where
  "rc_inv n p \<longleftrightarrow> rc_messages p = mset (rp_read p) \<and>
     rc_errors p = (if reader_past (rp_reader p) then 1 else 0) \<and>
     length (rp_workers p) = n \<and> ch_cap (rp_messages p) = n \<and> ch_cap (rp_errs p) = n \<and>
     (rp_closed p \<longleftrightarrow> rp_reader p = ReaderGone) \<and>
     (rp_errsClosed p \<longleftrightarrow> rp_reader p \<in> {CloseMessages, ReaderGone}) \<and>
     (Exited \<in> set (rp_workers p) \<longrightarrow> rp_closed p \<and> ch_buf (rp_messages p) = []) \<and>
     (rp_errWorker p = Exited \<longrightarrow> rp_errsClosed p \<and> ch_buf (rp_errs p) = [])"

lemmas rc_defs = rc_inv_def rc_messages_def rc_errors_def reader_past_def

lemma rc_inv_start: "rc_inv (nat n) (RC_start n t)"
  by (auto simp: rc_defs RC_start_def)

lemma rc_step_inv: "rc_step p q \<Longrightarrow> rc_inv n p \<Longrightarrow> rc_inv n q"
proof (induction rule: rc_step.induct)
  case (take i p m c)
  then have "ch_buf (rp_messages p) = m # ch_buf c" "ch_cap c = ch_cap (rp_messages p)"
    using ch_recv_SomeD [OF take(3)] by simp_all
  with take show ?case by (auto simp: rc_defs busy_jobs_take dest: set_update_Exited)
next
  case (handle i p m)
  then have "busy_jobs (rp_workers p) = add_mset m (busy_jobs ((rp_workers p)[i := Idle]))"
    using busy_jobs_send by metis
  with handle show ?case by (auto simp: rc_defs dest: set_update_Exited)
next
  case (take_err p e c)
  then have "ch_buf (rp_errs p) = e # ch_buf c" "ch_cap c = ch_cap (rp_errs p)"
    using ch_recv_SomeD [OF take_err(2)] by simp_all
  with take_err show ?case by (auto simp: rc_defs)
qed (auto simp: rc_defs ch_send_iff busy_jobs_exit)

interpretation receiving: safe_system rc_step "rc_inv n" for n
  by unfold_locales (rule rc_step_inv)

lemmas rc_reach_inv = receiving.reach_inv

lemma rc_returned_read:
  assumes "rc_inv n p" and "rc_returned p" and "0 < n"
  shows "mset (handled_messages (rp_handled p)) = mset (rp_read p) \<and> rp_reader p = ReaderGone"
proof -
  have all: "\<forall>w\<in>set (rp_workers p). w = Exited" using assms(2) by (simp add: rc_returned_def list_all_iff)
  moreover have "Exited \<in> set (rp_workers p)"
    using assms(1,3) all by (cases "rp_workers p") (auto simp: rc_inv_def)
  moreover have "busy_jobs ws = {#}" if "\<forall>w\<in>set ws. w = Exited" for ws :: "bytes worker list"
    using that by (induction ws rule: busy_jobs.induct) auto
  ultimately show ?thesis using assms(1) by (auto simp: rc_defs)
qed

section \<open>Termination\<close>

text \<open>The reader has met an error.\<close>

definition reader_failed :: "recv_pool \<Rightarrow> bool" where
  "reader_failed p \<longleftrightarrow> (\<forall>m. rp_reader p \<noteq> HasMessage m) \<and> rp_reader p \<noteq> Reading"

fun reader_weight :: "reader \<Rightarrow> nat" where
  "reader_weight (HasError _) = 6"
| "reader_weight CloseErrs = 2"
| "reader_weight CloseMessages = 1"
| "reader_weight _ = 0"

definition rc_measure :: "recv_pool \<Rightarrow> nat" where
  "rc_measure p = reader_weight (rp_reader p) + 3 * length (ch_buf (rp_messages p)) +
     sum_list (map worker_weight (rp_workers p)) + 3 * length (ch_buf (rp_errs p)) +
     worker_weight (rp_errWorker p) + (if wst_connected (rp_conn p) then 1 else 0)"

lemma rc_step_failed:
  assumes "rc_step p q" and "reader_failed p"
  shows "reader_failed q \<and> rc_measure q < rc_measure p"
  using assms
proof (induction rule: rc_step.induct)
  case (take i p m c)
  then show ?case using worker_weight_update [of i "rp_workers p" "Busy m"]
      ch_recv_SomeD [of "rp_messages p" m c] by (auto simp: rc_measure_def reader_failed_def)
next
  case (handle i p m)
  then show ?case using worker_weight_update [of i "rp_workers p" Idle]
    by (auto simp: rc_measure_def reader_failed_def)
next
  case (exit i p)
  then show ?case using worker_weight_update [of i "rp_workers p" Exited]
    by (auto simp: rc_measure_def reader_failed_def)
next
  case (take_err p e c)
  then show ?case using ch_recv_SomeD [of "rp_errs p" e c]
    by (auto simp: rc_measure_def reader_failed_def)
next
  case (close_conn p E err t)
  then show ?case by (auto simp: rc_measure_def reader_failed_def WST_Close_def)
qed (auto simp: rc_measure_def reader_failed_def ch_send_iff)

lemma rc_stuck:
  assumes inv: "rc_inv n p" and f: "reader_failed p" and stuck: "\<And>q. \<not> rc_step p q"
  shows "rp_reader p = ReaderGone \<and> rc_returned p \<and> rp_errWorker p = Exited"
proof -
  have noerr: "rp_errWorker p \<noteq> Busy e" for e using stuck rc_step.handle_err by blast
  have gone: "rp_reader p = ReaderGone"
  proof (cases "rp_reader p")
    case (HasError e)
    show ?thesis
    proof (cases "n = 0")
      case True
      have "rp_errWorker p = Idle" using noerr inv HasError by (cases "rp_errWorker p") (auto simp: rc_defs)
      then show ?thesis using rc_step.hand_err [OF HasError] stuck inv True by (auto simp: rc_inv_def)
    next
      case False
      have "ch_buf (rp_errs p) = []" using inv HasError by (auto simp: rc_defs)
      then show ?thesis using rc_step.push_err [OF HasError] stuck inv False
        by (auto simp: rc_inv_def ch_try_send_def)
    qed
  qed (use f stuck rc_step.close_errs rc_step.close_messages in \<open>auto simp: reader_failed_def\<close>)
  have "rp_workers p ! i = Exited" if i: "i < length (rp_workers p)" for i
  proof (cases "rp_workers p ! i")
    case Idle
    show ?thesis
    proof (cases "ch_try_recv (rp_messages p)")
      case None
      then show ?thesis using rc_step.exit [OF i Idle] stuck gone inv by (auto simp: rc_inv_def)
    next
      case (Some x)
      then show ?thesis using rc_step.take [OF i Idle] stuck by (cases x) blast
    qed
  qed (use rc_step.handle [OF i] stuck in auto)
  then have "rc_returned p" by (simp add: rc_returned_def list_all_length)
  moreover have "rp_errWorker p = Exited"
  proof (cases "rp_errWorker p")
    case Idle
    show ?thesis
    proof (cases "ch_try_recv (rp_errs p)")
      case None
      then show ?thesis using rc_step.exit_err [OF Idle] stuck gone inv by (auto simp: rc_inv_def)
    next
      case (Some x)
      then show ?thesis using rc_step.take_err [OF Idle] stuck by (cases x) blast
    qed
  qed (use noerr in auto)
  ultimately show ?thesis using gone by blast
qed

definition rc_finished :: "recv_pool \<Rightarrow> bool" where
  "rc_finished p \<longleftrightarrow> rp_reader p = ReaderGone \<and> rc_returned p \<and> rp_errWorker p = Exited"

interpretation ending: terminating_system rc_step "\<lambda>p. rc_inv n p \<and> reader_failed p" rc_measure rc_finished for n
proof unfold_locales
  fix p q
  show "rc_step p q \<Longrightarrow> rc_inv n p \<and> reader_failed p \<Longrightarrow> rc_inv n q \<and> reader_failed q"
    using rc_step_inv rc_step_failed by blast
  show "rc_step p q \<Longrightarrow> rc_inv n p \<and> reader_failed p \<Longrightarrow> rc_measure q < rc_measure p"
    using rc_step_failed by blast
  show "rc_inv n p \<and> reader_failed p \<Longrightarrow> \<not> rc_finished p \<Longrightarrow> \<exists>q. rc_step p q"
    using rc_stuck unfolding rc_finished_def by blast
qed

section \<open>Properties\<close>

text \<open>C29. \<open>ReceiveConcurrent\<close> handles every message exactly once: when it returns, however reader,
  workers and a concurrent \<open>Close\<close> interleaved, the messages given to the handler are those that
  were read, as a multiset, and before that never more.\<close>

theorem concurrent_receive_exactly_once:
  assumes "0 < n" and "rc_reach (RC_start n t) p"
  shows "mset (handled_messages (rp_handled p)) \<subseteq># mset (rp_read p) \<and>
    length (handled_errors (rp_handled p)) \<le> 1 \<and>
    (rc_returned p \<longrightarrow> mset (handled_messages (rp_handled p)) = mset (rp_read p))"
proof -
  have inv: "rc_inv (nat n) p" using rc_reach_inv [OF assms(2) rc_inv_start] .
  then have "mset (rp_read p) = rc_messages p" "rc_errors p \<le> 1" by (auto simp: rc_inv_def)
  then show ?thesis using rc_returned_read [OF inv] assms(1)
    by (auto simp: rc_messages_def rc_errors_def)
qed

text \<open>C30. Once the reader has met an error (the connection broke or was closed) \<open>ReceiveConcurrent\<close>
  terminates: every run from there has at most \<open>rc_measure p\<close> steps, and a run that cannot be
  continued has returned, with every message read handled once and the error handled once.\<close>

theorem concurrent_receive_terminates:
  assumes "0 < n" and "rc_reach (RC_start n t) p" and "reader_failed p" and "(rc_step ^^ k) p q"
  shows "k \<le> rc_measure p \<and> ((\<forall>r. \<not> rc_step q r) \<longrightarrow> rc_returned q \<and>
    mset (handled_messages (rp_handled q)) = mset (rp_read q) \<and> length (handled_errors (rp_handled q)) = 1)"
proof -
  have p: "rc_inv (nat n) p \<and> reader_failed p" using rc_reach_inv [OF assms(2) rc_inv_start] assms(3) by blast
  have q: "rc_inv (nat n) q \<and> reader_failed q" using ending.reach_inv [OF reaches_power [OF assms(4)] p] .
  have "rc_returned q \<and> mset (handled_messages (rp_handled q)) = mset (rp_read q) \<and>
      length (handled_errors (rp_handled q)) = 1" if "\<forall>r. \<not> rc_step q r"
  proof -
    have "rc_finished q" by (rule ending.stuck_final [OF q]) (use that in blast)
    then have f: "rp_reader q = ReaderGone" "rc_returned q" "rp_errWorker q = Exited"
      by (simp_all add: rc_finished_def)
    have inv: "rc_inv (nat n) q" using q by blast
    show ?thesis using f rc_returned_read [OF inv] inv assms(1) by (auto simp: rc_defs)
  qed
  then show ?thesis using ending.runs_bounded [OF assms(4) p] by simp
qed

text \<open>A connected transport whose connection breaks at the first read.\<close>

definition demo_wst :: WebSocketTransport where
  "demo_wst = (snd (WST_Connect demo_ws_env (NewWebSocketTransport [] [WithReadTimeout 0])))"

lemma demo_wst_turn: "reader_turn demo_ws_env r demo_wst = (r, demo_wst)"
  by (simp add: reader_turn_def demo_wst_def WST_Receive_def WST_Connect_def NewWebSocketTransport_def demo_ws_env_def)

lemma demo_rc_reach:
  "rc_reach (RC_start 1 demo_wst)
     ((RC_start 1 demo_wst)\<lparr>rp_reader := HasMessage [7], rp_read := [[7]]\<rparr>)"
  using reaches_one [where step = rc_step, OF rc_step.read [of "RC_start 1 demo_wst", OF _ ]]
    demo_wst_turn [of "Inr [7]"] by (force simp: RC_start_def)

theorem concurrent_receive_exactly_once_witness:
  "handled_messages (rp_handled (RC_start 1 demo_wst)) = [] \<and>
   mset (handled_messages (rp_handled ((RC_start 1 demo_wst)\<lparr>rp_reader := HasMessage [7], rp_read := [[7]]\<rparr>)))
     \<subseteq># {#[7]#}"
  using concurrent_receive_exactly_once [OF _ demo_rc_reach] by (simp add: RC_start_def)

theorem concurrent_receive_terminates_witness:
  "let p = (RC_start 1 demo_wst)\<lparr>rp_reader := HasError ErrTimeout\<rparr> in
     reader_failed p \<and> (\<forall>k q. (rc_step ^^ k) p q \<longrightarrow> k \<le> rc_measure p)"
proof -
  let ?p = "(RC_start 1 demo_wst)\<lparr>rp_reader := HasError ErrTimeout\<rparr>"
  have r: "rc_reach (RC_start 1 demo_wst) ?p"
    using reaches_one [where step = rc_step, OF rc_step.fail [of "RC_start 1 demo_wst"]]
      demo_wst_turn [of "Inl ErrTimeout"] by (force simp: RC_start_def)
  have f: "reader_failed ?p" by (simp add: reader_failed_def)
  show ?thesis using f concurrent_receive_terminates [OF _ r f] by (auto simp: Let_def)
qed

end
