(* ===== verification/LPPollers.thy ===== *)
theory LPPollers
  imports LPTransport "HOL-Library.Multiset" "HOL-Library.Sublist"
begin

text \<open>
  The goroutines of the long-polling client (\<open>poll\<close>, started by each successful \<open>Connect\<close>) with the
  operations of the transport, in any order.  A poller reads \<open>t.ctx\<close> anew in each turn of its loop:
  it ends if it looks at a context that is done, and goes on with the next session if \<open>Connect\<close> has
  replaced the context before it looks.
\<close>

section \<open>States and steps\<close>

text \<open>Where a poller is: before the \<open>select\<close>; in it, with the context it evaluated; before
  \<open>fetchMessages\<close>; in the pause after an error; with messages still to be put into the queue; gone.\<close>

datatype poller = PTop | PWait nat | PFetch | PSleep | PPut "bytes list" | PGone

text \<open>Contexts are numbered; \<open>pk_ctx\<close> is \<open>t.ctx\<close>.  For the statements, all messages that were fetched
  and all that \<open>Receive\<close> has returned, in order.\<close>

record PollSys =
  pk_t :: LongPollingTransport
  pk_ctx :: nat
  pk_contexts :: nat
  pk_done :: "nat list"
  pk_pollers :: "poller list"
  pk_fetched :: "bytes list"
  pk_received :: "bytes list"

definition poll_start :: "LongPollingTransport \<Rightarrow> PollSys" where
  "poll_start t =
     \<lparr>pk_t = t, pk_ctx = 0, pk_contexts = 1, pk_done = [], pk_pollers = [], pk_fetched = [], pk_received = []\<rparr>"

datatype poll_act =
    ActConnect lp_env
  | ActSend lp_env bytes
  | ActReceive bool
  | ActClose lp_env
  | ActCancel                  \<comment> \<open>the context given to the last \<open>Connect\<close> is cancelled\<close>
  | ActPoller nat lp_env bool  \<comment> \<open>a step of a poller; the \<open>bool\<close>: a \<open>select\<close> takes \<open>Done\<close>\<close>

definition poller_step :: "lp_env \<Rightarrow> bool \<Rightarrow> poller \<Rightarrow> PollSys \<Rightarrow> (poller \<times> PollSys) option" where
  "poller_step E take_done p s =
     (case p of
        PTop \<Rightarrow> Some (PWait (pk_ctx s), s)
      | PWait c \<Rightarrow>
          if take_done then (if c \<in> set (pk_done s) then Some (PGone, s) else None) else Some (PFetch, s)
      | PFetch \<Rightarrow>
          (case LPT_fetchMessages E (pk_t s) of
             (Inl err, t) \<Rightarrow> Some (PSleep, s\<lparr>pk_t := t\<rparr>)
           | (Inr msgs, t) \<Rightarrow> Some (PPut msgs, s\<lparr>pk_t := t, pk_fetched := pk_fetched s @ msgs\<rparr>))
      | PSleep \<Rightarrow> Some (PTop, s)
      | PPut [] \<Rightarrow> Some (PTop, s)
      | PPut (m # ms) \<Rightarrow>
          Some (PPut ms, s\<lparr>pk_t := (pk_t s)\<lparr>lpt_incomingQueue := ch.offer m (lpt_incomingQueue (pk_t s))\<rparr>\<rparr>)
      | PGone \<Rightarrow> None)"

fun poll_do :: "poll_act \<Rightarrow> PollSys \<Rightarrow> PollSys option" where
  "poll_do (ActConnect E) s =
     (if lpt_connected (pk_t s) then Some s
      else case LPT_Connect E (pk_t s) of
        (err, t) \<Rightarrow> Some (s\<lparr>pk_t := t, pk_ctx := pk_contexts s, pk_contexts := Suc (pk_contexts s),
            pk_done := (if le_ctxDone E then [pk_contexts s] else []) @ pk_done s,
            pk_pollers := pk_pollers s @ (if err = None then [PTop] else [])\<rparr>))"
| "poll_do (ActSend E b) s = Some (s\<lparr>pk_t := snd (LPT_Send E b (pk_t s))\<rparr>)"
| "poll_do (ActReceive prefer_done) s =
     (case LPT_Receive prefer_done (pk_t s) of
        None \<Rightarrow> None
      | Some (r, t) \<Rightarrow> Some (s\<lparr>pk_t := t, pk_received := pk_received s @ (case r of Inl _ \<Rightarrow> [] | Inr m \<Rightarrow> [m])\<rparr>))"
| "poll_do (ActClose E) s =
     Some (s\<lparr>pk_t := snd (LPT_Close E (pk_t s)),
       pk_done := (if lpt_connected (pk_t s) then [pk_ctx s] else []) @ pk_done s\<rparr>)"
| "poll_do ActCancel s =
     Some (s\<lparr>pk_t := (pk_t s)\<lparr>lpt_ctxDone := True\<rparr>, pk_done := pk_ctx s # pk_done s\<rparr>)"
| "poll_do (ActPoller i E take_done) s =
     (if i < length (pk_pollers s)
      then (case poller_step E take_done (pk_pollers s ! i) s of
          None \<Rightarrow> None
        | Some (p, s') \<Rightarrow> Some (s'\<lparr>pk_pollers := (pk_pollers s')[i := p]\<rparr>))
      else None)"

fun poll_run :: "poll_act list \<Rightarrow> PollSys \<Rightarrow> PollSys option" where
  "poll_run [] s = Some s"
| "poll_run (a # as) s = (case poll_do a s of None \<Rightarrow> None | Some s' \<Rightarrow> poll_run as s')"

inductive poll_step :: "PollSys \<Rightarrow> PollSys \<Rightarrow> bool" where
  "poll_do a s = Some s' \<Longrightarrow> poll_step s s'"

inductive_cases poll_stepE: "poll_step s s'"

lemma poll_run_reaches: "poll_run as s = Some s' \<Longrightarrow> reaches poll_step s s'"
proof (induction as arbitrary: s)
  case (Cons a as)
  then obtain u where u: "poll_do a s = Some u" "poll_run as u = Some s'" by (auto split: option.splits)
  show ?case
    by (rule reaches_first [where step = poll_step, OF poll_step.intros [OF u(1)] Cons.IH [OF u(2)]])
qed (auto intro: reaches.start)

section \<open>What one poller does, and what several do\<close>

text \<open>The messages a poller holds, and those on their way: received, in the queue, held.\<close>

fun held :: "poller \<Rightarrow> bytes list" where
  "held (PPut ms) = ms"
| "held _ = []"

abbreviation queue :: "PollSys \<Rightarrow> bytes list" where
  "queue s \<equiv> ch_buf (lpt_incomingQueue (pk_t s))"

abbreviation all_held :: "PollSys \<Rightarrow> bytes list" where
  "all_held s \<equiv> concat (map held (pk_pollers s))"

lemma held_update:
  "i < length ps \<Longrightarrow> mset (concat (map held (ps[i := p]))) + mset (held (ps ! i)) =
     mset (concat (map held ps)) + mset (held p)"
  by (induction ps arbitrary: i) (auto simp: nth_Cons split: nat.split)

lemma held_single:
  "length ps \<le> 1 \<Longrightarrow> i < length ps \<Longrightarrow>
     concat (map held (ps[i := p])) = held p \<and> concat (map held ps) = held (ps ! i)"
  by (cases ps) auto

lemma fetch_frame: "LPT_fetchMessages E t = (r, t') \<Longrightarrow> lpt_incomingQueue t' = lpt_incomingQueue t"
  by (auto simp: lpt_defs split: option.splits lp_answer.splits sum.splits if_splits)

lemma connect_queue: "LPT_Connect E t = (r, t') \<Longrightarrow> lpt_incomingQueue t' = lpt_incomingQueue t"
  by (auto simp: lpt_defs split: option.splits lp_answer.splits sum.splits if_splits)

lemma send_queue [simp]: "lpt_incomingQueue (snd (LPT_Send E b t)) = lpt_incomingQueue t"
  by (auto simp: lpt_defs split: option.splits lp_answer.splits if_splits)

lemma close_queue [simp]: "lpt_incomingQueue (snd (LPT_Close E t)) = lpt_incomingQueue t"
  by (simp add: LPT_Close_def)

lemma receive_queue:
  "LPT_Receive b t = Some (r, t') \<Longrightarrow>
     ch_buf (lpt_incomingQueue t) = (case r of Inl _ \<Rightarrow> [] | Inr m \<Rightarrow> [m]) @ ch_buf (lpt_incomingQueue t')"
  by (auto simp: LPT_Receive_def ch_try_recv_def split: if_splits list.splits)

lemma poller_step_effect:
  assumes "poller_step E b p s = Some (p', s')"
  shows "pk_pollers s' = pk_pollers s \<and> pk_received s' = pk_received s \<and>
    (pk_fetched s' = pk_fetched s \<and> held p' = held p \<and> queue s' = queue s \<or>
     pk_fetched s' = pk_fetched s @ held p' \<and> held p = [] \<and> queue s' = queue s \<or>
     pk_fetched s' = pk_fetched s \<and> (\<exists>m. held p = m # held p' \<and> (queue s' = queue s \<or> queue s' = queue s @ [m])))"
  using assms
  by (auto simp: poller_step_def ch.offer_def ch_try_send_def fetch_frame
      split: poller.splits list.splits sum.splits prod.splits if_splits)

definition polls_ok :: "PollSys \<Rightarrow> bool" where
  "polls_ok s \<longleftrightarrow>
     mset (pk_received s @ queue s @ all_held s) \<subseteq># mset (pk_fetched s) \<and>
     (length (pk_pollers s) \<le> 1 \<longrightarrow> subseq (pk_received s @ queue s @ all_held s) (pk_fetched s))"

lemma ok_poll_start: "ch_buf (lpt_incomingQueue t) = [] \<Longrightarrow> polls_ok (poll_start t)"
  by (simp add: polls_ok_def poll_start_def)

lemma ok_poller_step:
  assumes "polls_ok s" and "i < length (pk_pollers s)" and st: "poller_step E b (pk_pollers s ! i) s = Some (p', s')"
  shows "polls_ok (s'\<lparr>pk_pollers := (pk_pollers s')[i := p']\<rparr>)"
proof -
  let ?p = "pk_pollers s ! i" and ?m = "mset (pk_received s @ queue s)"
  note eff = poller_step_effect [OF st]
  have frame: "pk_pollers s' = pk_pollers s" "pk_received s' = pk_received s" using eff by simp_all
  let ?new = "concat (map held ((pk_pollers s)[i := p']))"
  have upd: "mset ?new + mset (held ?p) = mset (all_held s) + mset (held p')" by (rule held_update [OF assms(2)])
  have sub: "?m + mset (all_held s) \<subseteq># mset (pk_fetched s)" using assms(1) by (simp add: polls_ok_def ac_simps)
  consider (other) "pk_fetched s' = pk_fetched s" "held p' = held ?p" "queue s' = queue s"
    | (fetch) "pk_fetched s' = pk_fetched s @ held p'" "held ?p = []" "queue s' = queue s"
    | (put) m where "pk_fetched s' = pk_fetched s" "held ?p = m # held p'" "queue s' = queue s \<or> queue s' = queue s @ [m]"
    using eff by blast
  note steps = this
  have ms: "mset (pk_received s) + (mset (queue s') + mset ?new) \<subseteq># mset (pk_fetched s')"
  proof (cases rule: steps)
    case other
    then show ?thesis using upd sub by (simp add: ac_simps)
  next
    case fetch
    then show ?thesis using upd subset_mset.add_mono [OF sub subset_mset.order_refl, of "mset (held p')"]
      by (simp add: ac_simps)
  next
    case a: (put m)
    then have "mset (all_held s) = add_mset m (mset ?new)" using upd by simp
    then have "add_mset m (mset (pk_received s) + (mset (queue s) + mset ?new)) \<subseteq># mset (pk_fetched s)" (is "?l \<subseteq># _")
      using sub by (simp add: ac_simps)
    moreover have "mset (pk_received s) + (mset (queue s') + mset ?new) \<subseteq># ?l"
      using a(3) by (elim disjE) (simp_all add: subset_mset.less_imp_le)
    ultimately show ?thesis unfolding a(1) by (rule subset_mset.order_trans [rotated])
  qed
  have "subseq (pk_received s @ queue s' @ ?new) (pk_fetched s')" if l: "length (pk_pollers s) \<le> 1"
  proof -
    have n: "?new = held p'" and h: "all_held s = held ?p" using held_single [OF l assms(2)] by simp_all
    have old: "subseq (pk_received s @ queue s @ held ?p) (pk_fetched s)"
      using assms(1) l by (simp add: polls_ok_def h)
    show ?thesis
    proof (cases rule: steps)
      case fetch
      then show ?thesis using old list_emb_append_mono [OF old subseq_order.order_refl, of "held p'"] n by simp
    next
      case a: (put m)
      have "subseq (pk_received s @ queue s @ held p') (pk_received s @ queue s @ m # held p')"
        by (simp add: subseq_append' list_emb_Cons)
      then show ?thesis using old a n subseq_order.order_trans by auto
    qed (use old n in simp)
  qed
  then show ?thesis using ms frame by (simp add: polls_ok_def)
qed

lemma ok_poll_do: "poll_do a s = Some s' \<Longrightarrow> polls_ok s \<Longrightarrow> polls_ok s'"
proof (cases a)
  case (ActConnect E)
  moreover assume "poll_do a s = Some s'" "polls_ok s"
  ultimately show ?thesis
    by (auto simp: polls_ok_def connect_queue split: if_splits prod.splits)
next
  case (ActReceive b)
  moreover assume a: "poll_do a s = Some s'" "polls_ok s"
  ultimately obtain r t where r: "LPT_Receive b (pk_t s) = Some (r, t)"
    and s': "s' = s\<lparr>pk_t := t, pk_received := pk_received s @ (case r of Inl _ \<Rightarrow> [] | Inr m \<Rightarrow> [m])\<rparr>"
    by (auto split: option.splits)
  have l: "pk_received s' @ queue s' @ all_held s = pk_received s @ queue s @ all_held s"
    by (simp add: s' receive_queue [OF r])
  have e: "pk_fetched s' = pk_fetched s" "pk_pollers s' = pk_pollers s" by (simp_all add: s')
  show ?thesis using a(2) unfolding polls_ok_def e l .
next
  case (ActPoller i E b)
  moreover assume "poll_do a s = Some s'" "polls_ok s"
  ultimately show ?thesis using ok_poller_step by (auto split: if_splits option.splits)
qed (auto simp: polls_ok_def)

interpretation polls: safe_system poll_step polls_ok
  by unfold_locales (auto elim: poll_stepE intro: ok_poll_do)

text \<open>C14. Whatever the order of calls and of pollers, what \<open>Receive\<close> returns and what still waits are messages that
  were fetched, none of them twice.  As long as \<open>Connect\<close> has succeeded only once they are in
  the order in which they were fetched.\<close>

theorem polled_messages_in_order:
  assumes "ch_buf (lpt_incomingQueue t) = []" and "reaches poll_step (poll_start t) s"
  shows "mset (pk_received s @ queue s) \<subseteq># mset (pk_fetched s) \<and>
    (length (pk_pollers s) \<le> 1 \<longrightarrow> subseq (pk_received s @ queue s) (pk_fetched s))"
proof -
  have ok: "polls_ok s" using polls.reach_inv [OF assms(2) ok_poll_start [OF assms(1)]] .
  let ?l = "pk_received s @ queue s"
  have "mset ?l \<subseteq># mset (?l @ all_held s)" and "subseq ?l (?l @ all_held s)"
    by (simp_all add: prefix_imp_subseq)
  moreover have "mset (?l @ all_held s) \<subseteq># mset (pk_fetched s)"
    "length (pk_pollers s) \<le> 1 \<longrightarrow> subseq (?l @ all_held s) (pk_fetched s)"
    using ok by (simp_all add: polls_ok_def)
  ultimately show ?thesis using subset_mset.order_trans subseq_order.order_trans by blast
qed

definition answers :: "string \<Rightarrow> string list \<Rightarrow> lp_env" where
  "answers sid msgs = \<lparr>le_newRequest = (\<lambda>_. None), le_do = (\<lambda>_. Answer StatusOK [] [] (Inr sid) (Inr msgs)), le_ctxDone = False\<rparr>"

lemmas run_simps = poll_start_def NewLongPollingTransport_def answers_def lpt_defs LPT_Close_def LPT_Receive_def
  poller_step_def ch.offer_def ch_try_send_def ch_try_recv_def make_chan_def StatusOK_def

theorem polled_messages_in_order_witness:
  "\<exists>s. reaches poll_step (poll_start (NewLongPollingTransport ''http://h'' [])) s \<and>
     pk_fetched s = [text_bytes ''a'', text_bytes ''b''] \<and> pk_received s = [text_bytes ''a''] \<and>
     queue s = [text_bytes ''b''] \<and> subseq (pk_received s @ queue s) (pk_fetched s)"
proof -
  let ?e = "answers ''s'' [''a'', ''b'']"
  let ?s0 = "poll_start (NewLongPollingTransport ''http://h'' [])"
  obtain s where r: "poll_run [ActConnect ?e, ActPoller 0 ?e False, ActPoller 0 ?e False, ActPoller 0 ?e False,
      ActPoller 0 ?e False, ActPoller 0 ?e False, ActReceive False] ?s0 = Some s"
    and s: "pk_fetched s = [text_bytes ''a'', text_bytes ''b'']" "pk_received s = [text_bytes ''a'']"
      "queue s = [text_bytes ''b'']" "length (pk_pollers s) = 1"
    by (simp add: run_simps)
  have e: "ch_buf (lpt_incomingQueue (NewLongPollingTransport ''http://h'' [])) = []"
    by (simp add: NewLongPollingTransport_def)
  show ?thesis using polled_messages_in_order [OF e poll_run_reaches [OF r]] s poll_run_reaches [OF r]
    by (intro exI [of _ s]) simp
qed

text \<open>With a second \<open>Connect\<close> the order is lost: a poller that was in its turn when \<open>Close\<close> was called finds the
  new context at the next turn of its loop and goes on, beside the poller of the new session, and
  the one may put its messages into the queue before the other, who fetched first.\<close>

definition reconnecting_run :: "string \<Rightarrow> string \<Rightarrow> poll_act list" where
  "reconnecting_run a b =
     [ActConnect (answers ''s'' []), ActPoller 0 (answers [] []) False, ActPoller 0 (answers [] []) False,
      ActClose (answers [] []), ActPoller 0 (answers [] []) False, ActConnect (answers ''t'' []),
      ActPoller 0 (answers [] []) False, ActPoller 0 (answers [] []) False, ActPoller 0 (answers [] []) False,
      ActPoller 0 (answers [] [a]) False, ActPoller 1 (answers [] []) False, ActPoller 1 (answers [] []) False,
      ActPoller 1 (answers [] [b]) False, ActPoller 1 (answers [] []) False, ActPoller 0 (answers [] []) False,
      ActReceive False, ActReceive False]"

lemma poller_survives_reconnect:
  "\<exists>s. reaches poll_step (poll_start (NewLongPollingTransport url [])) s \<and>
     pk_fetched s = [text_bytes a, text_bytes b] \<and> pk_received s = [text_bytes b, text_bytes a] \<and>
     pk_pollers s = [PPut [], PPut []]"
proof -
  have "\<exists>s. poll_run (reconnecting_run a b) (poll_start (NewLongPollingTransport url [])) = Some s \<and>
     pk_fetched s = [text_bytes a, text_bytes b] \<and> pk_received s = [text_bytes b, text_bytes a] \<and>
     pk_pollers s = [PPut [], PPut []]"
    by (simp add: reconnecting_run_def run_simps)
  then show ?thesis using poll_run_reaches by blast
qed

end
