(* ===== verification/SupervisorSys.thy ===== *)
theory SupervisorSys
  imports Supervisor
begin

text \<open>
  A node with its supervisors as a system: operations of the node, checks of the monitors and
  restarts interleave.  A check reads the node under its read lock and then restarts one process
  after the other, each under the write lock, so other operations come between.
\<close>

section \<open>States and steps\<close>

text \<open>The processes a check restarts, in order.\<close>

definition check_targets :: "Supervisor \<Rightarrow> Node \<Rightarrow> string list" where
  "check_targets s n =
     (if ctx_done (nd_ctxs n) (sup_ctx s) then []
      else
        let deadProcesses = dead_processes s n; ids = map ps_ID (sup_Processes s) in
        if length deadProcesses = 0 then []
        else case sup_Strategy s of
          OneForOne \<Rightarrow> deadProcesses
        | OneForAll \<Rightarrow> ids
        | RestForOne \<Rightarrow> dropWhile (\<lambda>i. \<not> containsProcessID deadProcesses i) ids
        | OtherStrategy _ \<Rightarrow> [])"

lemma check_restarts_targets:
  "Supervisor_checkProcesses clock (s, n) = restart_each clock (check_targets s n) (s, n)"
  by (simp add: Supervisor_checkProcesses_def check_targets_def Let_def split: SupervisorStrategy.split)

text \<open>A turn of \<open>monitor\<close>: \<open>None\<close> when it returns.  When the context is done and a tick is due, the
  \<open>select\<close> may take either; \<open>prefer_done\<close> is its choice.\<close>

definition Supervisor_monitor_turn ::
  "bool \<Rightarrow> (nat \<Rightarrow> int) \<Rightarrow> Supervisor \<times> Node \<Rightarrow> (Supervisor \<times> Node) option" where
  "Supervisor_monitor_turn prefer_done clock sn =
     (if ctx_done (nd_ctxs (snd sn)) (sup_ctx (fst sn)) \<and> prefer_done then None
      else Some (Supervisor_checkProcesses clock sn))"

text \<open>Each supervisor with the restarts its check has still to make.\<close>

record SupSys =
  sy_node :: Node
  sy_sups :: "(Supervisor \<times> string list) list"

inductive supstep :: "SupSys \<Rightarrow> SupSys \<Rightarrow> bool" where
  node: "nstep (sy_node x) n \<Longrightarrow> supstep x (x\<lparr>sy_node := n\<rparr>)"
| new: "NewSupervisor (length (sy_sups x)) spec (sy_node x) = (Inr s, n) \<Longrightarrow>
    supstep x (x\<lparr>sy_node := n, sy_sups := sy_sups x @ [(s, [])]\<rparr>)"
| new_fails: "NewSupervisor (length (sy_sups x)) spec (sy_node x) = (Inl err, n) \<Longrightarrow>
    supstep x (x\<lparr>sy_node := n\<rparr>)"
| check: "k < length (sy_sups x) \<Longrightarrow> sy_sups x ! k = (s, []) \<Longrightarrow>
    supstep x (x\<lparr>sy_sups := (sy_sups x)[k := (s, check_targets s (sy_node x))]\<rparr>)"
| restart: "k < length (sy_sups x) \<Longrightarrow> sy_sups x ! k = (s, i # ids) \<Longrightarrow>
    Supervisor_restartProcess now i (s, sy_node x) = (s', n) \<Longrightarrow>
    supstep x (x\<lparr>sy_node := n, sy_sups := (sy_sups x)[k := (s', ids)]\<rparr>)"

abbreviation supreach :: "SupSys \<Rightarrow> SupSys \<Rightarrow> bool" where
  "supreach \<equiv> reaches supstep"

text \<open>A check as one operation is a run of these steps when nobody comes between.\<close>

lemma restarts_as_steps:
  "k < length (sy_sups x) \<Longrightarrow> sy_sups x ! k = (s, ids) \<Longrightarrow> restart_each clock ids (s, sy_node x) = (s', n) \<Longrightarrow>
     supreach x (x\<lparr>sy_node := n, sy_sups := (sy_sups x)[k := (s', [])]\<rparr>)"
proof (induction ids arbitrary: x s clock)
  case Nil
  then have "x\<lparr>sy_node := n, sy_sups := (sy_sups x)[k := (s', [])]\<rparr> = x"
    using list_update_id [of "sy_sups x" k] by simp
  then show ?case by (simp add: reaches.start)
next
  case (Cons i ids)
  obtain s1 n1 where r: "Supervisor_restartProcess (clock 0) i (s, sy_node x) = (s1, n1)" by fastforce
  let ?x = "x\<lparr>sy_node := n1, sy_sups := (sy_sups x)[k := (s1, ids)]\<rparr>"
  have "supstep x ?x" by (rule supstep.restart [OF Cons.prems(1,2) r])
  moreover have "supreach ?x (?x\<lparr>sy_node := n, sy_sups := (sy_sups ?x)[k := (s', [])]\<rparr>)"
    using Cons.prems r by (intro Cons.IH [of ?x s1 "\<lambda>k. clock (Suc k)"]) (simp_all add: restart_each_Cons)
  ultimately show ?case using reaches_first [of supstep x ?x] by simp
qed

lemma check_as_steps:
  assumes "k < length (sy_sups x)" and "sy_sups x ! k = (s, [])"
    and "Supervisor_checkProcesses clock (s, sy_node x) = (s', n)"
  shows "supreach x (x\<lparr>sy_node := n, sy_sups := (sy_sups x)[k := (s', [])]\<rparr>)"
proof -
  let ?x = "x\<lparr>sy_sups := (sy_sups x)[k := (s, check_targets s (sy_node x))]\<rparr>"
  have "supstep x ?x" by (rule supstep.check [OF assms(1,2)])
  moreover have "supreach ?x (?x\<lparr>sy_node := n, sy_sups := (sy_sups ?x)[k := (s', [])]\<rparr>)"
    using assms by (intro restarts_as_steps [of k ?x s _ clock]) (simp_all add: check_restarts_targets)
  ultimately show ?thesis using reaches_first [of supstep x ?x] by simp
qed

section \<open>The invariant\<close>

definition supsys_ok :: "SupSys \<Rightarrow> bool" where
  "supsys_ok x \<longleftrightarrow> node_ok (sy_node x) \<and> (\<forall>e\<in>set (sy_sups x). parent_ok (sy_node x) (sup_ctx (fst e)))"

lemma parent_ok_spawn:
  "node_ok n \<Longrightarrow> parent_ok n q \<Longrightarrow> Node_SpawnProcessWithID i f n = (r, n') \<Longrightarrow> parent_ok n' q"
  by (auto simp: Node_SpawnProcessWithID_def intro: parent_ok_start node_okD(3) split: if_splits)

lemma parent_ok_stop_fold: "parent_ok n q \<Longrightarrow> parent_ok (fold stop_one es n) q"
  by (induction es arbitrary: n) (auto intro: stop_one_parent)

lemma parent_ok_nstep: "nstep n n' \<Longrightarrow> node_ok n \<Longrightarrow> parent_ok n q \<Longrightarrow> parent_ok n' q"
proof (induction rule: nstep.induct)
  case (spawn_fresh clock f n r n')
  have "parent_ok (n\<lparr>nd_nextProcessID := c\<rparr>) q" for c using spawn_fresh(3) by (simp add: parent_ok_def)
  then show ?case using spawn_fresh(1,2) parent_ok_spawn [OF ok_counter [OF spawn_fresh(2)]]
    by (auto simp: Node_SpawnProcess_def Node_generateProcessID_def Let_def)
next
  case (spawn_opts i f opts n r n')
  then show ?case
    by (auto simp: Node_SpawnProcessWithIDAndOptions_def intro: parent_ok_start node_okD(3) split: if_splits)
next
  case (spawn_fresh_opts clock f opts n r n')
  have "parent_ok (n\<lparr>nd_nextProcessID := c\<rparr>) q" for c using spawn_fresh_opts(3) by (simp add: parent_ok_def)
  moreover have "parent_ok (n\<lparr>nd_nextProcessID := c\<rparr>) (nd_ctx n)" for c
    using node_okD(3) [OF spawn_fresh_opts(2)] by (simp add: parent_ok_def)
  ultimately show ?case using spawn_fresh_opts(1)
    by (auto simp: Node_SpawnProcessWithOptions_def Node_SpawnProcessWithIDAndOptions_def
        Node_generateProcessID_def Let_def intro!: parent_ok_start split: if_splits)
next
  case (send i m n r n')
  then show ?case by (auto simp: Node_Send_def intro: parent_ok_upd split: option.splits if_splits)
next
  case (kill i n r n')
  show ?case
  proof (cases "gm_get (nd_processes n) i")
    case (Some a)
    have "parent_ok (upd_proc a (\<lambda>p. p\<lparr>pr_alive := False\<rparr>) (stop_one (i, a) n)) q"
      by (rule parent_ok_upd [OF stop_one_parent [OF kill(3)]]) simp
    then show ?thesis using kill(1) by (auto simp: Kill_eq [OF Some] drop_subscriptions_def parent_ok_def)
  qed (use kill in \<open>simp add: Node_Kill_def\<close>)
next
  case (stop n)
  have "parent_ok (n\<lparr>nd_ctxs := ctx_cancel (nd_ctx n) (nd_ctxs n)\<rparr>) q"
    using stop(2) by (simp add: parent_ok_def)
  then show ?case by (simp add: Node_Stop_def Let_def parent_ok_stop_fold)
next
  case (subscribe n i room)
  then show ?case by (simp add: Node_Subscribe_def Let_def parent_ok_def)
next
  case (unsubscribe n i room)
  then show ?case by (simp add: Node_Unsubscribe_def Let_def parent_ok_def split: option.split)
next
  case (notify ms n rest n')
  have "parent_ok n q \<Longrightarrow> parent_ok (snd (blocking_sends ms n)) q" for n
    by (induction ms n rule: blocking_sends.induct) (auto simp: parent_ok_upd split: option.split)
  then show ?case using notify(1,4) by (metis snd_conv)
next
  case (take a n m n')
  then show ?case by (auto simp: proc_take_def intro!: parent_ok_upd split: if_splits option.splits)
next
  case (exit a n n')
  then show ?case by (auto simp: proc_exit_def intro!: parent_ok_upd split: if_splits)
qed (rule parent_ok_spawn)

lemma restart_parent:
  assumes "sup_ok (s, n)" and "Supervisor_restartProcess now i (s, n) = (s', n')" and "parent_ok n q"
  shows "parent_ok n' q"
proof -
  let ?n1 = "case gm_get (nd_processes n) i of None \<Rightarrow> n | Some a \<Rightarrow> stop_one (i, a) n"
  have "parent_ok ?n1 (sup_ctx s)" "parent_ok ?n1 q"
    using assms(1,3) by (auto simp: sup_ok_def intro: stop_one_parent split: option.split)
  then have "parent_ok (start_process i f 100 (sup_ctx s) ?n1) q" for f by (auto intro: parent_ok_start)
  then show ?thesis using assms(2,3)
    by (auto simp: Supervisor_restartProcess_def Let_def split: if_splits option.splits)
qed

lemma spawn_all_ok:
  "spawn_all pss n = (r, n') \<Longrightarrow> node_ok n \<Longrightarrow> node_ok n' \<and> (\<forall>q. parent_ok n q \<longrightarrow> parent_ok n' q)"
proof (induction pss arbitrary: n)
  case (Cons ps pss)
  obtain res n1 where s: "Node_SpawnProcessWithID (ps_ID ps) (ps_Function ps) n = (res, n1)" by fastforce
  then show ?case using Cons ok_SpawnWithID [OF Cons.prems(2) s] parent_ok_spawn [OF Cons.prems(2) _ s]
    by (cases res) auto
qed simp

lemma parent_ok_new_ctx:
  assumes "node_ok n"
  shows "node_ok (n\<lparr>nd_ctxs := nd_ctxs n @ [(Some (nd_ctx n), False)]\<rparr>)"
    and "parent_ok n q \<Longrightarrow> parent_ok (n\<lparr>nd_ctxs := nd_ctxs n @ [(Some (nd_ctx n), False)]\<rparr>) q"
    and "parent_ok (n\<lparr>nd_ctxs := nd_ctxs n @ [(Some (nd_ctx n), False)]\<rparr>) (length (nd_ctxs n))"
proof -
  let ?n = "n\<lparr>nd_ctxs := nd_ctxs n @ [(Some (nd_ctx n), False)]\<rparr>"
  note D = node_okD [OF assms]
  have L: "nd_ctx n < length (nd_ctxs n)" using D(3) by (simp add: parent_ok_def)
  have old: "pr_ctx (nd_heap n a) < length (nd_ctxs n)" if "a < nd_next n" for a
    using D(4) [OF that] by (simp add: proc_ok_def)
  show p: "parent_ok ?n q" if "parent_ok n q" for q
    using that by (auto simp: parent_ok_def ctx_line_append)
  show "parent_ok ?n (length (nd_ctxs n))"
    using D(3) L by (auto simp: parent_ok_def ctx_line_new dest: old)
  have "proc_ok ?n a" if "a < nd_next n" for a
    using D(4) [OF that] by (auto simp: proc_ok_def ctx_line_append ctx_done_append)
  moreover have "entry_ok ?n i a" if "gm_get (nd_processes n) i = Some a" for i a
    using D(5) [OF that] old by (auto simp: entry_ok_def nth_append)
  ultimately show "node_ok ?n" using D(1,2) p [OF D(3)] by (auto simp: node_ok_def subs_ok_cong [of ?n n])
qed

lemma parent_ok_cancel_own:
  assumes "node_ok n" and "parent_ok n c"
  shows "node_ok (n\<lparr>nd_ctxs := ctx_cancel c (nd_ctxs n)\<rparr>)"
    and "parent_ok n q \<Longrightarrow> parent_ok (n\<lparr>nd_ctxs := ctx_cancel c (nd_ctxs n)\<rparr>) q"
proof -
  let ?n = "n\<lparr>nd_ctxs := ctx_cancel c (nd_ctxs n)\<rparr>"
  note D = node_okD [OF assms(1)]
  show p: "parent_ok ?n q" if "parent_ok n q" for q using that by (simp add: parent_ok_def)
  have c: "c \<in> set (ctx_line (nd_ctxs n) c)" using assms(2) by (simp add: parent_ok_def)
  have "proc_ok ?n a" if "a < nd_next n" for a
    using proc_ok_cancel [of ?n c n] D(4) [OF that] by simp
  moreover have "entry_ok ?n i a" if "gm_get (nd_processes n) i = Some a" for i a
  proof -
    have e: "entry_ok n i a" by (rule D(5) [OF that])
    then have a: "a < nd_next n" by (simp add: entry_ok_def)
    then have "pr_ctx (nd_heap n a) \<noteq> c" using assms(2) c unfolding parent_ok_def by metis
    then show ?thesis using e D(4) [OF a] by (simp add: entry_ok_def proc_ok_def ctx_cancel_nth)
  qed
  ultimately show "node_ok ?n" using D(1,2) p [OF D(3)] by (auto simp: node_ok_def subs_ok_cong [of ?n n])
qed

lemma NewSupervisor_ok:
  assumes "NewSupervisor addr spec n = (r, n')" and "node_ok n"
  shows "node_ok n' \<and> (\<forall>q. parent_ok n q \<longrightarrow> parent_ok n' q) \<and> (\<forall>s. r = Inr s \<longrightarrow> parent_ok n' (sup_ctx s))"
proof -
  let ?c = "length (nd_ctxs n)" and ?n = "n\<lparr>nd_ctxs := nd_ctxs n @ [(Some (nd_ctx n), False)]\<rparr>"
  note new = parent_ok_new_ctx [OF assms(2)]
  obtain err n1 where s: "spawn_all (ss_Processes spec) ?n = (err, n1)" by fastforce
  have n1: "node_ok n1" "\<And>q. parent_ok ?n q \<Longrightarrow> parent_ok n1 q" using spawn_all_ok [OF s new(1)] by auto
  have c: "parent_ok n1 ?c" by (rule n1(2) [OF new(3)])
  show ?thesis
  proof (cases err)
    case None
    then have "r = Inr \<lparr>sup_ID = ss_ID spec, sup_Strategy = ss_Strategy spec,
        sup_MaxRestarts = ss_MaxRestarts spec, sup_RestartPeriod = ss_RestartPeriod spec,
        sup_Processes = ss_Processes spec, sup_restarts = [], sup_ctx = ?c\<rparr>"
      "n' = n1\<lparr>nd_supervisors := gm_put (ss_ID spec) addr (nd_supervisors n1)\<rparr>"
      using assms(1) s by (simp_all add: NewSupervisor_def ctx_WithCancel_def)
    moreover have "node_ok (n1\<lparr>nd_supervisors := z\<rparr>)" "parent_ok (n1\<lparr>nd_supervisors := z\<rparr>) q = parent_ok n1 q" for z q
      using n1(1) by (auto simp: node_ok_def parent_ok_def proc_ok_def entry_ok_def subs_ok_def)
    ultimately show ?thesis using n1(2) new(2) c by simp
  next
    case (Some e)
    then have "r = Inl e" "n' = n1\<lparr>nd_ctxs := ctx_cancel ?c (nd_ctxs n1)\<rparr>"
      using assms(1) s by (simp_all add: NewSupervisor_def ctx_WithCancel_def)
    then show ?thesis using parent_ok_cancel_own [OF n1(1) c] n1(2) new(2) by simp
  qed
qed

lemma ok_supstep: "supstep x y \<Longrightarrow> supsys_ok x \<Longrightarrow> supsys_ok y"
proof (induction rule: supstep.induct)
  case (node x n)
  then show ?case using ok_nstep parent_ok_nstep by (auto simp: supsys_ok_def)
next
  case (new x spec s n)
  then show ?case using NewSupervisor_ok [OF new(1)] by (auto simp: supsys_ok_def)
next
  case (new_fails x spec err n)
  then show ?case using NewSupervisor_ok [OF new_fails(1)] by (auto simp: supsys_ok_def)
next
  case (check k x s)
  have "(s, []) \<in> set (sy_sups x)" using check(1,2) by (metis nth_mem)
  then show ?case using check(3) by (auto simp: supsys_ok_def dest!: set_update_subset_insert [THEN subsetD])
next
  case (restart k x s i ids now s' n)
  have "(s, i # ids) \<in> set (sy_sups x)" using restart(1,2) by (metis nth_mem)
  then have ok: "sup_ok (s, sy_node x)" using restart(4) by (auto simp: supsys_ok_def sup_ok_def)
  have "sup_ok (s', n)" using ok_restart [OF ok, of now i] restart(3) by simp
  then show ?case using restart_parent [OF ok restart(3)] restart(4)
    by (auto simp: supsys_ok_def sup_ok_def dest!: set_update_subset_insert [THEN subsetD])
qed

interpretation supsys: safe_system supstep supsys_ok
  by unfold_locales (rule ok_supstep)

section \<open>What supervisors react to\<close>

text \<open>Steps that take one of these processes out of the node.\<close>

definition removes :: "string set \<Rightarrow> SupSys \<Rightarrow> SupSys \<Rightarrow> bool" where
  "removes ids x y \<longleftrightarrow> (\<exists>i\<in>ids. Node_Kill i (sy_node x) = (None, sy_node y)) \<or> sy_node y = Node_Stop (sy_node x)"

lemma blocking_sends_processes: "nd_processes (snd (blocking_sends ms n)) = nd_processes n"
  by (induction ms n rule: blocking_sends.induct) (auto split: option.split)

lemma nstep_entry:
  "nstep n n' \<Longrightarrow> gm_get (nd_processes n) i \<noteq> None \<Longrightarrow> gm_get (nd_processes n') i = None \<Longrightarrow>
     Node_Kill i n = (None, n') \<or> n' = Node_Stop n"
proof (induction rule: nstep.induct)
  case (kill j n r n')
  show ?case
  proof (cases "gm_get (nd_processes n) j")
    case (Some a)
    then have "j = i" using kill by (auto simp: Kill_eq drop_subscriptions_def split: if_splits)
    then show ?thesis using kill(1) Some by (simp add: Kill_eq)
  qed (use kill in \<open>simp add: Node_Kill_def\<close>)
next
  case (notify ms n rest n')
  then show ?case using blocking_sends_processes [of ms n] by simp
qed (auto simp: Node_SpawnProcessWithID_def Node_SpawnProcess_def Node_generateProcessID_def Let_def
    Node_SpawnProcessWithIDAndOptions_def Node_SpawnProcessWithOptions_def Node_Send_def Node_Subscribe_def
    Node_Unsubscribe_def proc_take_def proc_exit_def split: if_splits option.splits)

lemma spawn_all_entry:
  "spawn_all pss n = (r, n') \<Longrightarrow> gm_get (nd_processes n) i \<noteq> None \<Longrightarrow> gm_get (nd_processes n') i \<noteq> None"
  by (induction pss arbitrary: n)
    (force simp: Node_SpawnProcessWithID_def split: if_splits prod.splits sum.splits)+

lemma NewSupervisor_entry:
  "NewSupervisor addr spec n = (r, n') \<Longrightarrow> gm_get (nd_processes n) i \<noteq> None \<Longrightarrow> gm_get (nd_processes n') i \<noteq> None"
  using spawn_all_entry [of "ss_Processes spec" "n\<lparr>nd_ctxs := nd_ctxs n @ [(Some (nd_ctx n), False)]\<rparr>" _ _ i]
  by (fastforce simp: NewSupervisor_def ctx_WithCancel_def Let_def split: prod.splits option.splits)

lemma restart_keeps_entry:
  "Supervisor_restartProcess now j (s, n) = (s', n') \<Longrightarrow> gm_get (nd_processes n) i \<noteq> None \<Longrightarrow>
     gm_get (nd_processes n') i \<noteq> None"
  using restart_frame(6) [of now j s n s' n' i]
  by (cases "i = j") (auto simp: Supervisor_restartProcess_def Let_def split: if_splits option.splits)

lemma supstep_entry:
  "supstep x y \<Longrightarrow> \<not> removes ids x y \<Longrightarrow> i \<in> ids \<Longrightarrow> gm_get (nd_processes (sy_node x)) i \<noteq> None \<Longrightarrow>
     gm_get (nd_processes (sy_node y)) i \<noteq> None"
proof (induction rule: supstep.induct)
  case (node x n)
  then show ?case using nstep_entry [OF node(1), of i] by (auto simp: removes_def)
qed (use NewSupervisor_entry restart_keeps_entry in fastforce)+

definition all_present :: "nat \<Rightarrow> Supervisor \<Rightarrow> SupSys \<Rightarrow> bool" where
  "all_present k s x \<longleftrightarrow> supsys_ok x \<and> k < length (sy_sups x) \<and> sy_sups x ! k = (s, []) \<and>
     (\<forall>i\<in>set (map ps_ID (sup_Processes s)). gm_get (nd_processes (sy_node x)) i \<noteq> None)"

lemma no_targets: "all_present k s x \<Longrightarrow> check_targets s (sy_node x) = []"
proof -
  assume a: "all_present k s x"
  then have "i \<notin> set (dead_processes s (sy_node x))" for i
    using dead_iff [of "sy_node x" i s] by (auto simp: all_present_def supsys_ok_def)
  then have "dead_processes s (sy_node x) = []" by (metis last_in_set)
  then show ?thesis by (simp add: check_targets_def Let_def)
qed

interpretation idle: safe_system "\<lambda>x y. supstep x y \<and> \<not> removes (set (map ps_ID (sup_Processes s))) x y"
  "all_present k s" for k s
proof unfold_locales
  fix x y
  assume st: "supstep x y \<and> \<not> removes (set (map ps_ID (sup_Processes s))) x y" and a: "all_present k s x"
  have e: "gm_get (nd_processes (sy_node y)) i \<noteq> None" if "i \<in> set (map ps_ID (sup_Processes s))" for i
    using supstep_entry [OF _ _ that] st a that by (auto simp: all_present_def)
  have ok: "supsys_ok y" using ok_supstep st a by (auto simp: all_present_def)
  have "k < length (sy_sups y) \<and> sy_sups y ! k = (s, [])"
    using conjunct1 [OF st] a
  proof cases
    case (check j s1)
    then show ?thesis using a no_targets [OF a] by (cases "j = k") (auto simp: all_present_def)
  next
    case (restart j s1 i ids now s2 n)
    then have "j \<noteq> k" using a by (auto simp: all_present_def)
    then show ?thesis using restart a by (simp add: all_present_def)
  qed (use a in \<open>auto simp: all_present_def nth_append\<close>)
  then show "all_present k s y" using e ok by (simp add: all_present_def)
qed

text \<open>C20. Supervisors react to nothing but \<open>Kill\<close> and \<open>Stop\<close>.  From a state in which all processes of a
  supervisor are there, and as long as nobody calls \<open>Kill\<close> for one of them or \<open>Stop\<close>, whatever else
  happens (messages are handled, their functions return errors, other processes and supervisors
  come and go), all of them stay there, no check finds anything to restart, and the supervisor
  with its counts is as it was.\<close>

theorem supervisor_idle_without_kills:
  assumes "all_present k s x"
    and "reaches (\<lambda>x y. supstep x y \<and> \<not> removes (set (map ps_ID (sup_Processes s))) x y) x y"
  shows "sy_sups y ! k = (s, []) \<and> check_targets s (sy_node y) = [] \<and>
    (\<forall>i\<in>set (map ps_ID (sup_Processes s)). gm_get (nd_processes (sy_node y)) i \<noteq> None)"
  using idle.reach_inv [OF assms(2,1)] no_targets by (auto simp: all_present_def)

section \<open>A check that meets a stop\<close>

lemma Stop_done: "node_ok n \<Longrightarrow> parent_ok n q \<Longrightarrow> ctx_done (nd_ctxs (Node_Stop n)) q"
  unfolding Node_Stop_def Let_def
  by (rule stop_fold_done) (simp add: ctx_done_cancel parent_ok_def)

lemma Stop_frame: "nd_next (Node_Stop n) = nd_next n" "nd_ctx (Node_Stop n) = nd_ctx n"
  by (simp_all add: Node_Stop_def Let_def)

text \<open>C39. \<open>Stop\<close> does not stop a check under way.  When a supervisor has a process to restart and
  \<open>Stop\<close> comes first, the restart puts a new process into the stopped node: its context is done
  from the start, so its goroutine may return before the first message, but it counts as alive and
  every message sent to it is accepted until its mailbox is full.\<close>

theorem restart_after_Stop:
  assumes "supsys_ok x" and "k < length (sy_sups x)" and "sy_sups x ! k = (s, i # ids)"
    and "restart_allowed now i s" and "i \<in> set (map ps_ID (sup_Processes s))"
  shows "\<exists>y a. supreach x y \<and> ctx_done (nd_ctxs (sy_node y)) (nd_ctx (sy_node y)) \<and>
    gm_get (nd_processes (sy_node y)) i = Some a \<and> pr_alive (nd_heap (sy_node y) a) \<and>
    ctx_done (nd_ctxs (sy_node y)) (pr_ctx (nd_heap (sy_node y) a)) \<and>
    proc_exit a (sy_node y) \<noteq> None \<and> fst (Node_Send i m (sy_node y)) = None"
proof -
  let ?n = "Node_Stop (sy_node x)"
  let ?x = "x\<lparr>sy_node := ?n\<rparr>"
  have "(s, i # ids) \<in> set (sy_sups x)" using assms(2,3) by (metis nth_mem)
  then have ok: "node_ok (sy_node x)" and p: "parent_ok (sy_node x) (sup_ctx s)"
    using assms(1) by (auto simp: supsys_ok_def)
  have ok': "node_ok ?n" and p': "parent_ok ?n (sup_ctx s)"
    using ok_Stop [OF ok] parent_ok_nstep [OF nstep.stop ok p] by simp_all
  have dn: "ctx_done (nd_ctxs ?n) (sup_ctx s)" "ctx_done (nd_ctxs ?n) (nd_ctx ?n)"
    using Stop_done [OF ok p] Stop_done [OF ok node_okD(3) [OF ok]] by (simp_all add: Stop_frame)
  obtain s' n' where r: "Supervisor_restartProcess now i (s, ?n) = (s', n')" by fastforce
  obtain ps where ps: "find_spec i s = Some ps" using assms(5) find_spec_None by blast
  let ?n1 = "case gm_get (nd_processes ?n) i of None \<Rightarrow> ?n | Some a \<Rightarrow> stop_one (i, a) ?n"
  have n': "n' = start_process i (ps_Function ps) 100 (sup_ctx s) ?n1"
    using r restart_granted [OF assms(4) ps] by simp
  have d1: "ctx_done (nd_ctxs ?n1) (sup_ctx s)" "ctx_done (nd_ctxs ?n1) (nd_ctx ?n1)"
    using dn by (auto simp: ctx_done_cancel split: option.split)
  have l1: "sup_ctx s < length (nd_ctxs ?n1)" "nd_ctx ?n1 < length (nd_ctxs ?n1)"
    using p' node_okD(3) [OF ok'] by (auto simp: parent_ok_def split: option.split)
  let ?y = "?x\<lparr>sy_node := n', sy_sups := (sy_sups ?x)[k := (s', ids)]\<rparr>"
  have "supstep x ?x" by (rule supstep.node [OF nstep.stop])
  moreover have "supstep ?x ?y" using assms(2,3) r by (intro supstep.restart) simp_all
  ultimately have "supreach x ?y" using reaches_first reaches_one by metis
  moreover have "ctx_done (nd_ctxs n') (nd_ctx n')" "ctx_done (nd_ctxs n') (length (nd_ctxs ?n1))"
    using d1 l1 by (simp_all add: n' ctx_done_append ctx_done_new)
  ultimately show ?thesis
    by (intro exI [of _ ?y] exI [of _ "nd_next ?n1"])
      (simp add: n' proc_exit_def Node_Send_def ch_try_send_def)
qed

definition demo_supsys :: "string list \<Rightarrow> SupSys" where
  "demo_supsys ids = \<lparr>sy_node = demo_node1,
     sy_sups = [((demo_supervisor OneForOne)\<lparr>sup_Processes := [\<lparr>ps_ID = ''p'', ps_Function = 7\<rparr>]\<rparr>, ids)]\<rparr>"

lemma ok_demo_supsys: "supsys_ok (demo_supsys ids)"
  using demo_sup_ok [of OneForOne] by (simp add: supsys_ok_def sup_ok_def demo_supsys_def)

theorem supervisor_idle_without_kills_witness:
  "let s = fst (sy_sups (demo_supsys []) ! 0); n = snd (Node_Send ''p'' GNil demo_node1) in
     check_targets s n = []"
proof -
  let ?x = "demo_supsys []"
  let ?s = "fst (sy_sups ?x ! 0)" and ?n = "snd (Node_Send ''p'' GNil demo_node1)"
  let ?y = "?x\<lparr>sy_node := ?n\<rparr>"
  let ?ids = "set (map ps_ID (sup_Processes ?s))"
  have a: "all_present 0 ?s ?x"
    using ok_demo_supsys by (simp add: all_present_def demo_supsys_def demo_node1_simps)
  obtain r n where sn: "Node_Send ''p'' GNil demo_node1 = (r, n)" by fastforce
  have st: "supstep ?x ?y"
    by (rule supstep.node, rule nstep.send [of "''p''" GNil _ r]) (simp add: sn demo_supsys_def)
  have "gm_get (nd_processes ?n) ''p'' \<noteq> None"
    by (simp add: Node_Send_def demo_node1_simps split: option.split)
  moreover have "gm_get (nd_processes n') ''p'' = None"
    if "Node_Kill ''p'' demo_node1 = (None, n') \<or> n' = Node_Stop demo_node1" for n'
    using that by (auto simp: demo_node1_simps Kill_eq drop_subscriptions_def Node_Stop_def Let_def)
  ultimately have "\<not> removes ?ids ?x ?y" by (auto simp: removes_def demo_supsys_def)
  with st have "reaches (\<lambda>x y. supstep x y \<and> \<not> removes ?ids x y) ?x ?y" by (intro reaches_one) blast
  from supervisor_idle_without_kills [OF a this] show ?thesis by (simp add: Let_def)
qed

theorem restart_after_Stop_witness:
  "\<exists>y. supreach (demo_supsys [''p'']) y \<and> fst (Node_Send ''p'' GNil (sy_node y)) = None"
proof -
  let ?s = "fst (sy_sups (demo_supsys [''p'']) ! 0)"
  have "sy_sups (demo_supsys [''p'']) ! 0 = (?s, ''p'' # [])" by (simp add: demo_supsys_def)
  moreover have "restart_allowed 0 ''p'' ?s" "''p'' \<in> set (map ps_ID (sup_Processes ?s))"
    by (simp_all add: demo_supsys_def demo_supervisor_def restart_allowed_def)
  ultimately show ?thesis
    using restart_after_Stop [OF ok_demo_supsys, of 0 "[''p'']" ?s "''p''" "[]" 0 GNil]
    by (auto simp: demo_supsys_def)
qed

end
