(* ===== verification/NodeSys.thy ===== *)
theory NodeSys
  imports NodeProps
begin

text \<open>
  The lock of a node with its goroutines: handlers of room events that send to mailboxes while
  they hold the read lock, and process functions that call operations of the node which need the
  write lock, as the functions of the documentation and of the example do.
\<close>

section \<open>Goroutines around the lock\<close>

text \<open>Calls that take the write lock.\<close>

datatype lock_op =
    LSpawn string nat
  | LKill string
  | LStop
  | LSubscribe string string
  | LUnsubscribe string string

fun apply_op :: "lock_op \<Rightarrow> Node \<Rightarrow> Node" where
  "apply_op (LSpawn i f) n = snd (Node_SpawnProcessWithID i f n)"
| "apply_op (LKill i) n = snd (Node_Kill i n)"
| "apply_op LStop n = Node_Stop n"
| "apply_op (LSubscribe i room) n = Node_Subscribe i room n"
| "apply_op (LUnsubscribe i room) n = Node_Unsubscribe i room n"

record NodeSys =
  ns_node :: Node
  ns_readers :: "(nat \<times> gval) list list"     \<comment> \<open>handlers with the read lock: sends still to make\<close>
  ns_busy :: "(nat \<times> lock_op) list"           \<comment> \<open>processes whose function is at such a call\<close>

definition drop_nth :: "nat \<Rightarrow> 'a list \<Rightarrow> 'a list" where
  "drop_nth k xs = take k xs @ drop (Suc k) xs"

inductive sstep :: "NodeSys \<Rightarrow> NodeSys \<Rightarrow> bool" where
  join: "sstep s (s\<lparr>ns_readers := ns_readers s @ [Node_handleRoomJoin sk d (ns_node s)]\<rparr>)"
| leave: "sstep s (s\<lparr>ns_readers := ns_readers s @ [Node_handleRoomLeave sk d (ns_node s)]\<rparr>)"
| disconnect: "sstep s (s\<lparr>ns_readers := ns_readers s @ [Node_handleSocketDisconnect sk d (ns_node s)]\<rparr>)"
| notify: "k < length (ns_readers s) \<Longrightarrow> ns_readers s ! k = (a, m) # ms \<Longrightarrow>
    ch_try_send m (pr_mailbox (nd_heap (ns_node s) a)) = Some c \<Longrightarrow>
    sstep s (s\<lparr>ns_node := upd_proc a (\<lambda>p. p\<lparr>pr_mailbox := c\<rparr>) (ns_node s), ns_readers := (ns_readers s)[k := ms]\<rparr>)"
| unlock: "k < length (ns_readers s) \<Longrightarrow> ns_readers s ! k = [] \<Longrightarrow>
    sstep s (s\<lparr>ns_readers := drop_nth k (ns_readers s)\<rparr>)"
| send: "Node_Send i m (ns_node s) = (r, n) \<Longrightarrow> sstep s (s\<lparr>ns_node := n\<rparr>)"
| handle: "a \<notin> fst ` set (ns_busy s) \<Longrightarrow> proc_take a (ns_node s) = Some (m, n) \<Longrightarrow> sstep s (s\<lparr>ns_node := n\<rparr>)"
| handle_lock: "a \<notin> fst ` set (ns_busy s) \<Longrightarrow> proc_take a (ns_node s) = Some (m, n) \<Longrightarrow>
    sstep s (s\<lparr>ns_node := n, ns_busy := ns_busy s @ [(a, x)]\<rparr>)"
| exit: "a \<notin> fst ` set (ns_busy s) \<Longrightarrow> proc_exit a (ns_node s) = Some n \<Longrightarrow> sstep s (s\<lparr>ns_node := n\<rparr>)"
| lock: "k < length (ns_busy s) \<Longrightarrow> ns_busy s ! k = (a, x) \<Longrightarrow> ns_readers s = [] \<Longrightarrow>
    sstep s (s\<lparr>ns_node := apply_op x (ns_node s), ns_busy := drop_nth k (ns_busy s)\<rparr>)"
| call: "ns_readers s = [] \<Longrightarrow> sstep s (s\<lparr>ns_node := apply_op x (ns_node s)\<rparr>)"

abbreviation sreach :: "NodeSys \<Rightarrow> NodeSys \<Rightarrow> bool" where
  "sreach \<equiv> reaches sstep"

section \<open>The deadlock\<close>

text \<open>A handler waits at the full mailbox of a process whose function waits for the write lock.\<close>

definition lock_cycle :: "NodeSys \<Rightarrow> nat \<Rightarrow> bool" where
  "lock_cycle s a \<longleftrightarrow> (\<exists>m ms. (a, m) # ms \<in> set (ns_readers s)) \<and> mb_full (ns_node s) a \<and>
     a \<in> fst ` set (ns_busy s)"

lemma set_drop_nth: "x \<in> set xs \<Longrightarrow> x \<noteq> xs ! k \<Longrightarrow> x \<in> set (drop_nth k xs)"
  unfolding drop_nth_def
  by (metis Un_iff append_take_drop_id id_take_nth_drop insert_iff linorder_not_less list.simps(15)
      set_append take_all append_Nil2 drop_all)

lemma set_update_other: "x \<in> set xs \<Longrightarrow> x \<noteq> xs ! k \<Longrightarrow> x \<in> set (xs[k := y])"
  by (metis in_set_conv_nth length_list_update nth_list_update_neq)

lemma lock_cycle_readers: "lock_cycle s a \<Longrightarrow> ns_readers s \<noteq> []"
  by (auto simp: lock_cycle_def)

lemma mb_full_other: "b \<noteq> a \<Longrightarrow> mb_full (upd_proc b f n) a = mb_full n a"
  by (simp add: mb_full_def)

lemma lock_cycle_step:
  assumes "sstep s s'" and "lock_cycle s a"
  shows "lock_cycle s' a \<and> nd_processes (ns_node s') = nd_processes (ns_node s) \<and>
    nd_roomSubscriptions (ns_node s') = nd_roomSubscriptions (ns_node s) \<and>
    nd_ctxs (ns_node s') = nd_ctxs (ns_node s)"
proof -
  obtain m ms where r: "(a, m) # ms \<in> set (ns_readers s)" and f: "mb_full (ns_node s) a"
    and b: "a \<in> fst ` set (ns_busy s)" using assms(2) by (auto simp: lock_cycle_def)
  from assms(1) show ?thesis
  proof cases
    case (notify k c m' ms' ch)
    then have "c \<noteq> a" using f by (auto simp: mb_full_def ch_send_iff)
    then show ?thesis using notify f b set_update_other [OF r, of k ms']
      by (auto simp: lock_cycle_def mb_full_other)
  next
    case (unlock k)
    then show ?thesis using f b set_drop_nth [OF r, of k] by (auto simp: lock_cycle_def)
  next
    case (send i m' res n)
    show ?thesis
    proof (cases "n = ns_node s")
      case False
      then obtain c ch where n: "n = upd_proc c (\<lambda>p. p\<lparr>pr_mailbox := ch\<rparr>) (ns_node s)"
        "ch_try_send m' (pr_mailbox (nd_heap (ns_node s) c)) = Some ch"
        using send(2) by (auto simp: Node_Send_def split: option.splits if_splits)
      then have "c \<noteq> a" using f by (auto simp: mb_full_def ch_send_iff)
      then show ?thesis using send(1) n r f b by (auto simp: lock_cycle_def mb_full_other)
    qed (use send r f b in \<open>auto simp: lock_cycle_def\<close>)
  next
    case (handle c m' n)
    then have "c \<noteq> a" using b by auto
    then show ?thesis using handle r f b
      by (auto simp: lock_cycle_def proc_take_def mb_full_other split: if_splits option.splits)
  next
    case (handle_lock c m' n x)
    then have "c \<noteq> a" using b by auto
    then show ?thesis using handle_lock r f b
      by (auto simp: lock_cycle_def proc_take_def mb_full_other split: if_splits option.splits)
  next
    case (exit c n)
    then have "c \<noteq> a" using b by auto
    then show ?thesis using exit r f b
      by (auto simp: lock_cycle_def proc_exit_def mb_full_other split: if_splits)
  qed (use r f b in \<open>auto simp: lock_cycle_def\<close>)
qed

text \<open>C36. When a handler of a room event waits at the full mailbox of a process whose function is
  at a call that needs the write lock, the node is deadlocked: whatever happens, in every later
  state both still wait, and no process is spawned, killed or stopped, and no subscription is
  made or removed any more.\<close>

theorem notification_deadlock:
  assumes "lock_cycle s a" and "sreach s s'"
  shows "lock_cycle s' a \<and> ns_readers s' \<noteq> [] \<and> nd_processes (ns_node s') = nd_processes (ns_node s) \<and>
    nd_roomSubscriptions (ns_node s') = nd_roomSubscriptions (ns_node s) \<and>
    nd_ctxs (ns_node s') = nd_ctxs (ns_node s)"
proof -
  have "lock_cycle s' a \<and> nd_processes (ns_node s') = nd_processes (ns_node s) \<and>
      nd_roomSubscriptions (ns_node s') = nd_roomSubscriptions (ns_node s) \<and>
      nd_ctxs (ns_node s') = nd_ctxs (ns_node s)"
    using assms(2,1)
  proof (induction rule: reaches.induct)
    case (step s' s'')
    then show ?case using lock_cycle_step [OF step(2), of a] by auto
  qed simp
  then show ?thesis using lock_cycle_readers by blast
qed

text \<open>The state is reached from a new node: a process with a mailbox of one message, subscribed to
  a room, takes a message and calls \<open>Subscribe\<close>; another message is sent to it and a client
  joins the room.\<close>

definition demo_sys :: NodeSys where
  "demo_sys = \<lparr>ns_node = Node_Subscribe ''p'' ''r'' (start_process ''p'' 7 1 0 demo_node),
     ns_readers = [], ns_busy = []\<rparr>"

definition demo_mb :: "gval list \<Rightarrow> Node" where
  "demo_mb ms = upd_proc 0 (\<lambda>p. p\<lparr>pr_mailbox := \<lparr>ch_cap = 1, ch_buf = ms\<rparr>\<rparr>) (ns_node demo_sys)"

lemma demo_mb_simps:
  "nd_processes (demo_mb ms) = [(''p'', 0)]"
  "nd_heap (demo_mb ms) 0 = (new_process ''p'' 7 1 1)\<lparr>pr_mailbox := \<lparr>ch_cap = 1, ch_buf = ms\<rparr>\<rparr>"
  "nd_roomSubscriptions (demo_mb ms) = [(''p'', [(''r'', True)])]"
  by (simp_all add: demo_mb_def demo_sys_def demo_node_simps Node_Subscribe_def Let_def gm_put_def gm_has_def)

lemma demo_mb_upd:
  "upd_proc 0 (\<lambda>p. p\<lparr>pr_mailbox := \<lparr>ch_cap = 1, ch_buf = ms\<rparr>\<rparr>) (demo_mb ms') = demo_mb ms"
  by (simp add: demo_mb_def upd_proc_def)

lemma demo_mb_start: "ns_node demo_sys = demo_mb []"
  by (simp add: demo_mb_def demo_sys_def upd_proc_def Node_Subscribe_def Let_def demo_node_simps
      new_process_def make_chan_def fun_upd_idem)

theorem notification_deadlock_witness:
  "\<exists>s. sreach demo_sys s \<and> lock_cycle s 0 \<and>
     (\<forall>s'. sreach s s' \<longrightarrow> nd_processes (ns_node s') = nd_processes (ns_node s))"
proof -
  let ?x = "LSubscribe ''p'' ''r2''" and ?m = "room_message ''room_join'' ''r'' (SocketRef 3 ''s'')"
  have send: "Node_Send ''p'' GNil (demo_mb []) = (None, demo_mb [GNil])"
    using demo_mb_upd [of "[GNil]" "[]"] by (simp add: Node_Send_def demo_mb_simps ch_try_send_def)
  have take: "proc_take 0 (demo_mb [GNil]) = Some (GNil, demo_mb [])"
    using demo_mb_upd [of "[]" "[GNil]"] by (simp add: proc_take_def demo_mb_simps ch_try_recv_def)
  let ?s1 = "\<lparr>ns_node = demo_mb [GNil], ns_readers = [], ns_busy = []\<rparr>"
  let ?s2 = "\<lparr>ns_node = demo_mb [], ns_readers = [], ns_busy = [(0, ?x)]\<rparr>"
  let ?s3 = "\<lparr>ns_node = demo_mb [GNil], ns_readers = [], ns_busy = [(0, ?x)]\<rparr>"
  let ?s4 = "\<lparr>ns_node = demo_mb [GNil], ns_readers = [[(0, ?m)]], ns_busy = [(0, ?x)]\<rparr>"
  have d: "demo_sys = \<lparr>ns_node = demo_mb [], ns_readers = [], ns_busy = []\<rparr>"
    by (simp add: demo_mb_start [symmetric]) (simp add: demo_sys_def)
  have "sreach demo_sys ?s1"
    using reaches_one [where step = sstep, OF sstep.send [of "''p''" GNil demo_sys None "demo_mb [GNil]"]] send
    by (simp add: d)
  then have "sreach demo_sys ?s2"
    by (rule reaches.step) (use sstep.handle_lock [of 0 ?s1 GNil "demo_mb []" ?x] take in simp)
  then have "sreach demo_sys ?s3"
    by (rule reaches.step) (use sstep.send [of "''p''" GNil ?s2 None "demo_mb [GNil]"] send in simp)
  moreover have "Node_handleRoomJoin (SocketRef 3 ''s'') (GString ''r'') (demo_mb [GNil]) = [(0, ?m)]"
    by (simp add: Node_handleRoomJoin_def room_targets_def live_targets_def demo_mb_simps room_flag_def)
  then have "sstep ?s3 ?s4" using sstep.join [of ?s3 "SocketRef 3 ''s''" "GString ''r''"] by simp
  ultimately have "sreach demo_sys ?s4" by (rule reaches.step)
  moreover have "lock_cycle ?s4 0" by (simp add: lock_cycle_def mb_full_def demo_mb_simps)
  ultimately show ?thesis using notification_deadlock by blast
qed

end
