(* ===== verification/ChatApp.thy ===== *)
theory ChatApp
  imports SupervisorSys NodeSys
begin

text \<open>
  \<open>examples/distributed-chat/main.go\<close>: the chat server built from the socket server, a node and a
  supervisor.  It shows how the parts work together: handlers of socket events send messages to
  two processes of the node, whose functions call the server.  The closures of \<open>main\<close> are numbered
  as they are registered.  A \<open>*RoomState\<close> is kept by value under its name in the one \<open>*ChatState\<close>;
  a broadcast sends to each member once (theory Room) and is recorded with its recipients.
\<close>

section \<open>State\<close>

record ChatMessage =
  cm_Username :: string
  cm_Message :: string
  cm_Room :: string
  cm_Time :: "64 word"

record RoomState =
  rs_messages :: "ChatMessage list"
  rs_users :: "(string, bool) gomap"

record App =
  app_world :: World
  app_node :: Node
  app_rooms :: "(string, RoomState) gomap"
  app_broadcasts :: "(string \<times> Event \<times> gval \<times> Socket list) list"

text \<open>A \<open>ChatMessage\<close> as a dynamic value, and the assertion \<open>v.(ChatMessage)\<close>.\<close>

definition chat_val :: "ChatMessage \<Rightarrow> gval" where
  "chat_val m = GStruct ''ChatMessage'' [(''username'', GString (cm_Username m)), (''message'', GString (cm_Message m)),
     (''room'', GString (cm_Room m)), (''time'', GInt (sint (cm_Time m)))]"

definition field_string :: "(string \<times> gval) list \<Rightarrow> string \<Rightarrow> string" where
  "field_string fs k = (case gm_get fs k of Some (GString s) \<Rightarrow> s | _ \<Rightarrow> [])"

definition field_int :: "(string \<times> gval) list \<Rightarrow> string \<Rightarrow> int" where
  "field_int fs k = (case gm_get fs k of Some (GInt i) \<Rightarrow> i | _ \<Rightarrow> 0)"

definition as_ChatMessage :: "gval \<Rightarrow> ChatMessage option" where
  "as_ChatMessage v =
     (case v of
        GStruct n fs \<Rightarrow>
          if n = ''ChatMessage''
          then Some \<lparr>cm_Username = field_string fs ''username'', cm_Message = field_string fs ''message'',
            cm_Room = field_string fs ''room'', cm_Time = word_of_int (field_int fs ''time'')\<rparr>
          else None
      | _ \<Rightarrow> None)"

lemma as_chat_val [simp]: "as_ChatMessage (chat_val m) = Some m"
  by (simp add: as_ChatMessage_def chat_val_def field_string_def field_int_def)

text \<open>The state pointer in a message: \<open>data["state"].(*ChatState)\<close> succeeds.\<close>

definition has_state :: "(string \<times> gval) list \<Rightarrow> bool" where
  "has_state data \<longleftrightarrow> (case gm_get data ''state'' of Some (GPtr _) \<Rightarrow> True | _ \<Rightarrow> False)"

definition getOrCreateRoom :: "string \<Rightarrow> App \<Rightarrow> RoomState \<times> App" where
  "getOrCreateRoom room a =
     (case gm_get (app_rooms a) room of
        Some rs \<Rightarrow> (rs, a)
      | None \<Rightarrow>
          (let rs = \<lparr>rs_messages = [], rs_users = []\<rparr> in (rs, a\<lparr>app_rooms := gm_put room rs (app_rooms a)\<rparr>)))"

definition getRoomNames :: "App \<Rightarrow> string list" where
  "getRoomNames a = gm_keys (app_rooms a)"

section \<open>Calls on the server\<close>

definition room_recipients :: "string \<Rightarrow> World \<Rightarrow> Socket list" where
  "room_recipients room w = (case Server_BroadcastToRoom room w of None \<Rightarrow> [] | Some p \<Rightarrow> pl_todo p)"

definition app_broadcast :: "env \<Rightarrow> string \<Rightarrow> Event \<Rightarrow> gval \<Rightarrow> App \<Rightarrow> App" where
  "app_broadcast E room event data a =
     (let sks = room_recipients room (app_world a) in
      a\<lparr>app_world := fold (\<lambda>sk w. snd (sock_Send E (sk_addr sk) event data w)) sks (app_world a),
        app_broadcasts := app_broadcasts a @ [(room, event, data, sks)]\<rparr>)"

definition app_send :: "env \<Rightarrow> Socket \<Rightarrow> Event \<Rightarrow> gval \<Rightarrow> App \<Rightarrow> App" where
  "app_send E sk event data a = a\<lparr>app_world := snd (sock_Send E (sk_addr sk) event data (app_world a))\<rparr>"

definition system_message :: "string \<Rightarrow> string \<Rightarrow> nat \<Rightarrow> gval" where
  "system_message txt room n = GMap [(''message'', GString txt), (''room'', GString room), (''count'', GInt (int n))]"

text \<open>A system message with the number of members, which is evaluated first.\<close>

definition announce :: "env \<Rightarrow> string \<Rightarrow> string \<Rightarrow> App \<Rightarrow> App" where
  "announce E txt room a =
     (case Server_In room (app_world a) of
        (sks, w) \<Rightarrow> app_broadcast E room ''system'' (system_message txt room (length sks)) (a\<lparr>app_world := w\<rparr>))"

definition joined_text :: string where "joined_text = ''A user has joined the room''"

section \<open>The processes\<close>

text \<open>\<open>data[k].(string)\<close> without the second result panics on anything else.\<close>

definition must_string :: "(string \<times> gval) list \<Rightarrow> string \<Rightarrow> string run" where
  "must_string data k =
     (case gm_get data k of Some (GString s) \<Rightarrow> Inr s | _ \<Rightarrow> Inl (Panic ''interface conversion''))"

definition manager_join :: "env \<Rightarrow> string \<Rightarrow> (string \<times> gval) list \<Rightarrow> App \<Rightarrow> App run" where
  "manager_join E self data a =
     run_bind (must_string data ''room'') (\<lambda>room.
     run_bind (must_string data ''socket'') (\<lambda>socketID.
       let a1 = a\<lparr>app_node := Node_Subscribe self room (app_node a)\<rparr>;
           a2 = announce E joined_text room a1
       in if has_state data
          then (case getOrCreateRoom room a2 of
            (rs, a3) \<Rightarrow> (case Server_GetSocket socketID (app_world a3) of
              None \<Rightarrow> Inr a3
            | Some sk \<Rightarrow> Inr (app_send E sk ''room_history''
                (GMap [(''room'', GString room), (''messages'', GList (map chat_val (rs_messages rs)))]) a3)))
          else Inr a2))"

definition manager_disconnect :: "env \<Rightarrow> (string \<times> gval) list \<Rightarrow> App \<Rightarrow> App run" where
  "manager_disconnect E data a =
     run_bind (must_string data ''socket'') (\<lambda>socketID.
       let a1 = a\<lparr>app_world := Server_LeaveAll socketID (app_world a)\<rparr>
       in Inr (fold (announce E ''A user has disconnected'') (Server_RoomsOf socketID (app_world a1)) a1))"

text \<open>The prologue both functions share: the map, its type, the server.\<close>

definition process_message_type :: "gval \<Rightarrow> App \<Rightarrow> gerror + (string \<times> (string \<times> gval) list)" where
  "process_message_type msg a =
     (case msg of
        GMap data \<Rightarrow>
          (case gm_get data ''type'' of
             Some (GString msgType) \<Rightarrow>
               if nd_SocketServer (app_node a) then Inr (msgType, data)
               else Inl (ErrNew ''socket server not available'')
           | _ \<Rightarrow> Inl (ErrNew ''missing message type''))
      | _ \<Rightarrow> Inl (ErrNew ''invalid message format''))"

definition roomManagerProcess :: "env \<Rightarrow> string \<Rightarrow> gval \<Rightarrow> App \<Rightarrow> (gerror option \<times> App) run" where
  "roomManagerProcess E self msg a =
     (case process_message_type msg a of
        Inl err \<Rightarrow> Inr (Some err, a)
      | Inr (msgType, data) \<Rightarrow>
          if msgType = ''room_join'' then run_bind (manager_join E self data a) (\<lambda>a'. Inr (None, a'))
          else if msgType = ''room_leave''
          then run_bind (must_string data ''room'') (\<lambda>room. Inr (None, announce E ''A user has left the room'' room a))
          else if msgType = ''socket_disconnect''
          then run_bind (manager_disconnect E data a) (\<lambda>a'. Inr (None, a'))
          else Inr (None, a))"

definition last_100 :: "'a list \<Rightarrow> 'a list" where
  "last_100 ms = (if length ms > 100 then drop (length ms - 100) ms else ms)"

text \<open>\<open>now\<close>: \<open>time.Now().Unix()\<close>.\<close>

definition stamped :: "int \<Rightarrow> ChatMessage \<Rightarrow> ChatMessage" where
  "stamped now m = (if cm_Time m = 0 then m\<lparr>cm_Time := word_of_int now\<rparr> else m)"

definition record_message :: "ChatMessage \<Rightarrow> App \<Rightarrow> App" where
  "record_message m a =
     (case getOrCreateRoom (cm_Room m) a of
        (rs, a1) \<Rightarrow>
          a1\<lparr>app_rooms := gm_put (cm_Room m) (rs\<lparr>rs_messages := last_100 (rs_messages rs @ [m])\<rparr>) (app_rooms a1)\<rparr>)"

definition chatMessageProcess :: "env \<Rightarrow> int \<Rightarrow> gval \<Rightarrow> App \<Rightarrow> (gerror option \<times> App) run" where
  "chatMessageProcess E now msg a =
     (case process_message_type msg a of
        Inl err \<Rightarrow> Inr (Some err, a)
      | Inr (msgType, data) \<Rightarrow>
          if msgType = ''chat_message''
          then (case gm_get data ''message'' of
              None \<Rightarrow> Inr (Some (ErrNew ''invalid chat message format''), a)
            | Some v \<Rightarrow>
                (case as_ChatMessage v of
                   None \<Rightarrow> Inr (Some (ErrNew ''invalid chat message format''), a)
                 | Some m0 \<Rightarrow>
                     (let m = stamped now m0;
                          a1 = (if has_state data then record_message m a else a)
                      in Inr (None, app_broadcast E (cm_Room m) ''chat'' (chat_val m) a1))))
          else Inr (None, a))"

section \<open>The handlers of socket events\<close>

definition app_Node_Send :: "string \<Rightarrow> gval \<Rightarrow> App \<Rightarrow> App" where
  "app_Node_Send pid msg a = a\<lparr>app_node := snd (Node_Send pid msg (app_node a))\<rparr>"

text \<open>\<open>conv\<close>: \<open>json.Marshal\<close> followed by \<open>json.Unmarshal\<close> into a \<open>ChatMessage\<close>.  The state pointer
  is \<open>GPtr 0\<close>.\<close>

definition processMessage ::
  "env \<Rightarrow> (gval \<Rightarrow> gerror + ChatMessage) \<Rightarrow> string \<Rightarrow> string \<Rightarrow> Socket \<Rightarrow> Event \<Rightarrow> gval \<Rightarrow> App \<Rightarrow> App" where
  "processMessage E conv roomManager chatProcessor sk event data a =
     (if event = ''join'' then
        (case as_string data of
           None \<Rightarrow> app_send E sk ''error'' (GString ''Invalid room name'') a
         | Some room \<Rightarrow>
             (let a1 = (if nd_SocketServer (app_node a)
                then a\<lparr>app_world := Server_Join (sk_ID sk) room (app_world a)\<rparr> else a)
              in app_Node_Send roomManager (GMap [(''type'', GString ''room_join''), (''socket'', GString (sk_ID sk)),
                   (''room'', GString room), (''state'', GPtr 0)]) a1))
      else if event = ''leave'' then
        (case as_string data of
           None \<Rightarrow> app_send E sk ''error'' (GString ''Invalid room name'') a
         | Some room \<Rightarrow>
             (let a1 = (if nd_SocketServer (app_node a)
                then a\<lparr>app_world := Server_Leave (sk_ID sk) room (app_world a)\<rparr> else a)
              in app_Node_Send roomManager (GMap [(''type'', GString ''room_leave''), (''socket'', GString (sk_ID sk)),
                   (''room'', GString room)]) a1))
      else if event = ''chat'' then
        (case conv data of
           Inl _ \<Rightarrow> a
         | Inr message \<Rightarrow> app_Node_Send chatProcessor (GMap [(''type'', GString ''chat_message''),
             (''message'', chat_val message), (''state'', GPtr 0)]) a)
      else if event = ''get_rooms'' then app_send E sk ''rooms'' (GList (map GString (getRoomNames a))) a
      else a)"

text \<open>The closure of \<open>EventConnect\<close>.\<close>

definition on_connect :: "env \<Rightarrow> Socket \<Rightarrow> App \<Rightarrow> App" where
  "on_connect E sk a =
     (let a1 = app_send E sk ''system'' (GMap
            [(''message'', GString (''Welcome! You are connected with ID: '' @ sk_ID sk)),
             (''online'', GInt (int (Server_Count (app_world a))))]) a
      in app_send E sk ''rooms'' (GList (map GString (getRoomNames a1))) a1)"

definition manager_ID :: string where "manager_ID = ''room-manager''"
definition processor_ID :: string where "processor_ID = ''chat-processor''"

text \<open>The closures by number: the node's three, connect, disconnect (which only logs), and those of
  \<open>join\<close>, \<open>leave\<close>, \<open>chat\<close> and \<open>get_rooms\<close>.  The first component is what a handler of the node
  still has to send when it waits.\<close>

definition node_handler :: "(nat \<times> gval) list \<Rightarrow> App \<Rightarrow> (nat \<times> gval) list \<times> App" where
  "node_handler ms a = (case blocking_sends ms (app_node a) of (rest, n) \<Rightarrow> (rest, a\<lparr>app_node := n\<rparr>))"

definition chat_handler ::
  "env \<Rightarrow> (gval \<Rightarrow> gerror + ChatMessage) \<Rightarrow> nat \<Rightarrow> Socket \<Rightarrow> gval \<Rightarrow> App \<Rightarrow> (nat \<times> gval) list \<times> App" where
  "chat_handler E conv k sk data a =
     (if k = 0 then node_handler (Node_handleRoomJoin sk data (app_node a)) a
      else if k = 1 then node_handler (Node_handleRoomLeave sk data (app_node a)) a
      else if k = 2 then node_handler (Node_handleSocketDisconnect sk data (app_node a)) a
      else if k = 3 then ([], on_connect E sk a)
      else if k = 5 then ([], processMessage E conv manager_ID processor_ID sk ''join'' data a)
      else if k = 6 then ([], processMessage E conv manager_ID processor_ID sk ''leave'' data a)
      else if k = 7 then ([], processMessage E conv manager_ID processor_ID sk ''chat'' data a)
      else if k = 8 then ([], processMessage E conv manager_ID processor_ID sk ''get_rooms'' data a)
      else ([], a))"

section \<open>Set-up and turns\<close>

definition chat_supervisor_spec :: SupervisorSpec where
  "chat_supervisor_spec =
     \<lparr>ss_ID = ''chat-supervisor'', ss_Strategy = OneForOne, ss_MaxRestarts = 5, ss_RestartPeriod = 60 * second,
      ss_Processes = [\<lparr>ps_ID = manager_ID, ps_Function = 0\<rparr>, \<lparr>ps_ID = processor_ID, ps_Function = 1\<rparr>]\<rparr>"

definition newChatState :: "(string, RoomState) gomap" where
  "newChatState = []"

text \<open>\<open>main\<close> up to the HTTP server.  It drops the pointer to the supervisor, which goes on working.\<close>

definition chat_main :: "(gerror + App \<times> Supervisor) run" where
  "chat_main =
     run_bind (NewServer [WithPingInterval (25 * second), WithPingTimeout (5 * second), WithMaxConcurrency 1000,
         WithCompression True, WithBufferSize 4096])
       (\<lambda>s. case NewNode ''chat-node'' [WithSocketServer True] (0, 1, 2) (new_world s) of
          (n, w) \<Rightarrow> (case NewSupervisor 0 chat_supervisor_spec n of
             (Inl err, n') \<Rightarrow> Inr (Inl err)
           | (Inr supervisor, n') \<Rightarrow>
               Inr (Inr (\<lparr>app_world = fold (\<lambda>(e, h). Server_HandleFunc e h)
                   [(EventConnect, 3), (EventDisconnect, 4), (''join'', 5), (''leave'', 6), (''chat'', 7), (''get_rooms'', 8)] w,
                 app_node = n', app_rooms = newChatState, app_broadcasts = []\<rparr>, supervisor))))"

text \<open>A turn of the goroutine of the process at address \<open>p\<close>: it takes a message and calls its
  function.\<close>

definition process_turn :: "env \<Rightarrow> int \<Rightarrow> nat \<Rightarrow> App \<Rightarrow> (gerror option \<times> App) run option" where
  "process_turn E now p a =
     (case proc_take p (app_node a) of
        None \<Rightarrow> None
      | Some (m, n) \<Rightarrow>
          Some (if pr_Function (nd_heap n p) = 0
            then roomManagerProcess E (pr_ID (nd_heap n p)) m (a\<lparr>app_node := n\<rparr>)
            else chatMessageProcess E now m (a\<lparr>app_node := n\<rparr>)))"

end
