(* ===== verification/ChatProps.thy ===== *)
theory ChatProps
  imports ChatApp
begin

text \<open>
  What the distributed chat example does: its history, its announcements and the way of a chat
  message, over the operations of the server, the node and the processes.
\<close>

section \<open>Frames\<close>

lemma app_broadcast_simps [simp]:
  "app_node (app_broadcast E room e d a) = app_node a"
  "app_rooms (app_broadcast E room e d a) = app_rooms a"
  "app_broadcasts (app_broadcast E room e d a) =
     app_broadcasts a @ [(room, e, d, room_recipients room (app_world a))]"
  by (simp_all add: app_broadcast_def Let_def)

lemma app_send_simps [simp]:
  "app_node (app_send E sk e d a) = app_node a"
  "app_rooms (app_send E sk e d a) = app_rooms a"
  "app_broadcasts (app_send E sk e d a) = app_broadcasts a"
  by (simp_all add: app_send_def)

lemma announce_simps [simp]:
  "app_node (announce E txt room a) = app_node a"
  "app_rooms (announce E txt room a) = app_rooms a"
  by (simp_all add: announce_def split: prod.split)

lemma announce_log:
  "\<exists>n sks. app_broadcasts (announce E txt room a) =
     app_broadcasts a @ [(room, ''system'', system_message txt room n, sks)]"
  by (auto simp: announce_def split: prod.split)

lemma getOrCreateRoom_simps [simp]:
  "app_node (snd (getOrCreateRoom room a)) = app_node a"
  "app_world (snd (getOrCreateRoom room a)) = app_world a"
  "app_broadcasts (snd (getOrCreateRoom room a)) = app_broadcasts a"
  by (simp_all add: getOrCreateRoom_def Let_def split: option.split)

lemma app_Node_Send_simps [simp]:
  "app_world (app_Node_Send i m a) = app_world a"
  "app_rooms (app_Node_Send i m a) = app_rooms a"
  "app_broadcasts (app_Node_Send i m a) = app_broadcasts a"
  "app_node (app_Node_Send i m a) = snd (Node_Send i m (app_node a))"
  by (simp_all add: app_Node_Send_def)

section \<open>The application as \<open>main\<close> sets it up\<close>

text \<open>A process of the node at address \<open>p\<close> that is alive and has room in its empty mailbox.\<close>

definition ready_process :: "string \<Rightarrow> nat \<Rightarrow> nat \<Rightarrow> nat \<Rightarrow> Node \<Rightarrow> bool" where
  "ready_process i f room p n \<longleftrightarrow> gm_get (nd_processes n) i = Some p \<and> pr_alive (nd_heap n p) \<and>
     pr_running (nd_heap n p) \<and> pr_Function (nd_heap n p) = f \<and> ch_buf (pr_mailbox (nd_heap n p)) = [] \<and>
     room \<le> ch_cap (pr_mailbox (nd_heap n p)) \<and> pr_ID (nd_heap n p) = i"

definition chat_app :: App where
  "chat_app = (case chat_main of Inr (Inr (a, s)) \<Rightarrow> a)"

lemma ctx_done_fresh: "ctx_done [(None, False), (Some 0, False)] 0 \<longleftrightarrow> False"
  "ctx_done [(None, False), (Some 0, False), (Some 0, False)] 0 \<longleftrightarrow> False"
  by (simp_all add: ctx_done_def ctx_line.simps)

lemma chat_main_starts:
  "\<exists>a s. chat_main = Inr (Inr (a, s)) \<and> ready_process manager_ID 0 100 0 (app_node a) \<and>
     ready_process processor_ID 1 100 1 (app_node a) \<and> nd_SocketServer (app_node a) \<and>
     nd_roomSubscriptions (app_node a) = [] \<and> app_rooms a = [] \<and> app_broadcasts a = [] \<and>
     srv_roomManager (w_server (app_world a)) = NewRoomManager"
  by (simp add: chat_main_def newChatState_def NewServer_def default_server_def make_chan_int_def NewNode_def ctx_WithCancel_def
      NewSupervisor_def chat_supervisor_spec_def Node_SpawnProcessWithID_def start_process_def ctx_done_fresh
      Let_def ready_process_def new_process_def manager_ID_def processor_ID_def gm_put_def
      Server_HandleFunc_def upd_server_def new_world_def)

lemma chat_app_simps:
  "ready_process manager_ID 0 100 0 (app_node chat_app)"
  "ready_process processor_ID 1 100 1 (app_node chat_app)"
  "nd_SocketServer (app_node chat_app)" "nd_roomSubscriptions (app_node chat_app) = []"
  "app_rooms chat_app = []" "app_broadcasts chat_app = []"
  "srv_roomManager (w_server (app_world chat_app)) = NewRoomManager"
proof -
  obtain a s where m: "chat_main = Inr (Inr (a, s))" and a: "ready_process manager_ID 0 100 0 (app_node a)"
      "ready_process processor_ID 1 100 1 (app_node a)" "nd_SocketServer (app_node a)"
      "nd_roomSubscriptions (app_node a) = []" "app_rooms a = []" "app_broadcasts a = []"
      "srv_roomManager (w_server (app_world a)) = NewRoomManager"
    using chat_main_starts by blast
  have "chat_app = a" unfolding chat_app_def m by simp
  then show "ready_process manager_ID 0 100 0 (app_node chat_app)"
    "ready_process processor_ID 1 100 1 (app_node chat_app)"
    "nd_SocketServer (app_node chat_app)" "nd_roomSubscriptions (app_node chat_app) = []"
    "app_rooms chat_app = []" "app_broadcasts chat_app = []"
    "srv_roomManager (w_server (app_world chat_app)) = NewRoomManager"
    using a by simp_all
qed

declare chat_app_simps(3-) [simp]

lemma ready_process_less: "ready_process i f k p n \<Longrightarrow> j \<le> k \<Longrightarrow> ready_process i f j p n"
  by (simp add: ready_process_def)

section \<open>The history of a room\<close>

definition history :: "string \<Rightarrow> App \<Rightarrow> ChatMessage list" where
  "history room a = (case gm_get (app_rooms a) room of None \<Rightarrow> [] | Some rs \<Rightarrow> rs_messages rs)"

lemma last_100_eq: "last_100 xs = drop (length xs - 100) xs"
  by (simp add: last_100_def)

lemma last_100_length: "length (last_100 xs) \<le> 100"
  by (simp add: last_100_eq)

lemma last_100_append: "last_100 (last_100 xs @ ys) = last_100 (xs @ ys)"
proof (cases "length xs \<le> 100")
  case False
  then have "length (last_100 xs) = 100" by (simp add: last_100_eq)
  moreover have "drop (length ys) (drop (length xs - 100) xs) = drop (length xs + length ys - 100) xs"
    using False by (simp add: add.commute)
  ultimately show ?thesis using False by (simp add: last_100_eq)
qed (simp add: last_100_eq)

lemma last_100_short: "length xs \<le> 100 \<Longrightarrow> last_100 xs = xs"
  by (simp add: last_100_eq)

lemma history_record:
  "history room (record_message m a) =
     (if room = cm_Room m then last_100 (history room a @ [m]) else history room a)"
  by (auto simp: history_def record_message_def getOrCreateRoom_def Let_def split: option.split)

lemma record_message_simps [simp]:
  "app_world (record_message m a) = app_world a" "app_node (record_message m a) = app_node a"
  "app_broadcasts (record_message m a) = app_broadcasts a"
  by (simp_all add: record_message_def getOrCreateRoom_def Let_def split: option.split)

definition chat_payload :: "ChatMessage \<Rightarrow> gval" where
  "chat_payload m = GMap [(''type'', GString ''chat_message''), (''message'', chat_val m), (''state'', GPtr 0)]"

lemma chatMessageProcess_payload:
  assumes "nd_SocketServer (app_node a)"
  shows "chatMessageProcess E now (chat_payload m) a =
     Inr (None, app_broadcast E (cm_Room m) ''chat'' (chat_val (stamped now m)) (record_message (stamped now m) a))"
  using assms by (simp add: chatMessageProcess_def process_message_type_def chat_payload_def
      has_state_def stamped_def Let_def)

lemma history_broadcast [simp]: "history room (app_broadcast E r e d a) = history room a"
  by (simp add: history_def)

text \<open>The chat process on a sequence of messages, each with the time at which it is handled.\<close>

fun chat_run :: "env \<Rightarrow> (int \<times> ChatMessage) list \<Rightarrow> App \<Rightarrow> App run" where
  "chat_run E [] a = Inr a"
| "chat_run E ((now, m) # ms) a =
     run_bind (chatMessageProcess E now (chat_payload m) a) (\<lambda>(err, a'). chat_run E ms a')"

lemma chat_run_history:
  "nd_SocketServer (app_node a) \<Longrightarrow>
     \<exists>a'. chat_run E ms a = Inr a' \<and>
       last_100 (history room a') = last_100 (history room a @ filter (\<lambda>m. cm_Room m = room) (map (\<lambda>(now, m). stamped now m) ms)) \<and>
       (length (history room a) \<le> 100 \<longrightarrow> length (history room a') \<le> 100) \<and>
       length (app_broadcasts a') = length (app_broadcasts a) + length ms"
proof (induction ms arbitrary: a)
  case (Cons x ms)
  obtain now m where x: "x = (now, m)" by fastforce
  let ?m = "stamped now m"
  let ?a = "app_broadcast E (cm_Room m) ''chat'' (chat_val ?m) (record_message ?m a)"
  have room: "cm_Room ?m = cm_Room m" by (simp add: stamped_def)
  obtain a' where a': "chat_run E ms ?a = Inr a'"
      "last_100 (history room a') = last_100 (history room ?a @ filter (\<lambda>m. cm_Room m = room) (map (\<lambda>(now, m). stamped now m) ms))"
      "length (history room ?a) \<le> 100 \<longrightarrow> length (history room a') \<le> 100"
      "length (app_broadcasts a') = length (app_broadcasts ?a) + length ms"
    using Cons.IH [of ?a] Cons.prems by auto
  have "chat_run E (x # ms) a = Inr a'"
    using a'(1) chatMessageProcess_payload [OF Cons.prems] x by simp
  moreover have "last_100 (history room ?a @ ys) = last_100 (history room a @ (if cm_Room m = room then [?m] else []) @ ys)" for ys
    using last_100_append [of "history room a @ [?m]" ys] by (auto simp: history_record room)
  moreover have "length (history room a) \<le> 100 \<Longrightarrow> length (history room ?a) \<le> 100"
    by (simp add: history_record last_100_length)
  ultimately show ?case using a' x room by auto
qed simp

text \<open>C32. The history of a room is the last hundred of its messages: after the chat process has
  handled any sequence of chat messages, each room's history holds the messages for that room,
  those from before first, in the order in which they were handled, and of these the last hundred;
  every message was broadcast.\<close>

theorem chat_history_last_100:
  assumes "nd_SocketServer (app_node a)" and "length (history room a) \<le> 100"
  shows "\<exists>a'. chat_run E ms a = Inr a' \<and>
    history room a' =
      last_100 (history room a @ filter (\<lambda>m. cm_Room m = room) (map (\<lambda>(now, m). stamped now m) ms)) \<and>
    length (app_broadcasts a') = length (app_broadcasts a) + length ms"
  using chat_run_history [OF assms(1), of E ms room] assms(2) last_100_short by metis

theorem chat_history_last_100_witness:
  "\<forall>E. \<exists>a'. chat_run E [(5, \<lparr>cm_Username = ''u'', cm_Message = ''hi'', cm_Room = ''r'', cm_Time = 0\<rparr>)] chat_app = Inr a' \<and>
     map cm_Message (history ''r'' a') = [''hi''] \<and> length (app_broadcasts a') = 1"
proof
  fix E
  let ?m = "\<lparr>cm_Username = ''u'', cm_Message = ''hi'', cm_Room = ''r'', cm_Time = 0\<rparr>"
  have "history ''r'' chat_app = []" by (simp add: history_def)
  then show "\<exists>a'. chat_run E [(5, ?m)] chat_app = Inr a' \<and> map cm_Message (history ''r'' a') = [''hi''] \<and>
      length (app_broadcasts a') = 1"
    using chat_history_last_100 [of chat_app "''r''" E
        "[(5, \<lparr>cm_Username = ''u'', cm_Message = ''hi'', cm_Room = ''r'', cm_Time = 0\<rparr>)]"]
    by (auto simp: stamped_def last_100_def)
qed

section \<open>The way of a chat message\<close>

lemma ready_send_take:
  assumes "ready_process i f 1 p n"
  shows "\<exists>n1 n2. Node_Send i m n = (None, n1) \<and> proc_take p n1 = Some (m, n2) \<and>
    pr_Function (nd_heap n2 p) = f \<and> nd_SocketServer n2 = nd_SocketServer n"
  using assms by (auto simp: ready_process_def Node_Send_def ch_try_send_def proc_take_def ch_try_recv_def upd_proc_def)

text \<open>C31. A chat message goes from the socket to the room: when a client's \<open>chat\<close> event converts to
  a message, the handler posts it to the chat process, whose next turn records it in the history
  of its room and broadcasts it once, to the sockets that are in the room at that moment; nothing
  else is broadcast and no other history changes.  A message that does not convert does nothing.\<close>

theorem chat_message_reaches_room:
  assumes "ready_process processor_ID 1 1 p (app_node a)" and "nd_SocketServer (app_node a)"
    and "conv data = Inr m" and "chat_handler E conv 7 sk data a = (rest, a1)"
  shows "rest = [] \<and> (\<exists>a2. process_turn E now p a1 = Some (Inr (None, a2)) \<and>
    app_broadcasts a2 = app_broadcasts a @
      [(cm_Room m, ''chat'', chat_val (stamped now m), room_recipients (cm_Room m) (app_world a))] \<and>
    (\<forall>room. history room a2 =
      (if room = cm_Room m then last_100 (history room a @ [stamped now m]) else history room a)))"
proof -
  obtain n1 n2 where n: "Node_Send processor_ID (chat_payload m) (app_node a) = (None, n1)"
    "proc_take p n1 = Some (chat_payload m, n2)" "pr_Function (nd_heap n2 p) = 1" "nd_SocketServer n2"
    using ready_send_take [OF assms(1)] assms(2) by metis
  have a1: "rest = []" "a1 = a\<lparr>app_node := n1\<rparr>"
    using assms(3,4) n(1) by (auto simp: chat_handler_def processMessage_def app_Node_Send_def chat_payload_def)
  let ?a2 = "app_broadcast E (cm_Room m) ''chat'' (chat_val (stamped now m))
      (record_message (stamped now m) (a\<lparr>app_node := n2\<rparr>))"
  have room: "cm_Room (stamped now m) = cm_Room m" by (simp add: stamped_def)
  have "process_turn E now p a1 = Some (Inr (None, ?a2))"
    using n a1 chatMessageProcess_payload [of "a\<lparr>app_node := n2\<rparr>" E now m] by (simp add: process_turn_def)
  then show ?thesis using a1(1) by (auto simp: history_record room) (simp_all add: history_def)
qed

theorem chat_message_reaches_room_witness:
  "\<forall>E. \<exists>a1 a2. chat_handler E (\<lambda>_. Inr \<lparr>cm_Username = ''u'', cm_Message = ''hi'', cm_Room = ''r'', cm_Time = 9\<rparr>) 7
       (SocketRef 0 ''s'') GNil chat_app = ([], a1) \<and>
     process_turn E 5 1 a1 = Some (Inr (None, a2)) \<and> map cm_Message (history ''r'' a2) = [''hi'']"
proof
  fix E
  let ?m = "\<lparr>cm_Username = ''u'', cm_Message = ''hi'', cm_Room = ''r'', cm_Time = 9\<rparr>"
  obtain rest a1 where h: "chat_handler E (\<lambda>_. Inr ?m) 7 (SocketRef 0 ''s'') GNil chat_app = (rest, a1)" by fastforce
  have "ready_process processor_ID 1 1 1 (app_node chat_app)"
    using ready_process_less [OF chat_app_simps(2), of 1] by simp
  from chat_message_reaches_room [OF this _ _ h, of ?m 5] obtain a2 where
    "rest = []" "process_turn E 5 1 a1 = Some (Inr (None, a2))"
    "\<forall>room. history room a2 = (if room = ''r'' then last_100 (history room chat_app @ [stamped 5 ?m])
      else history room chat_app)" by auto
  moreover have "history ''r'' chat_app = []" by (simp add: history_def)
  ultimately show "\<exists>a1 a2. chat_handler E (\<lambda>_. Inr ?m) 7 (SocketRef 0 ''s'') GNil chat_app = ([], a1) \<and>
      process_turn E 5 1 a1 = Some (Inr (None, a2)) \<and> map cm_Message (history ''r'' a2) = [''hi'']"
    using h by (simp add: last_100_def stamped_def)
qed

section \<open>Announcements\<close>

text \<open>That a client has disconnected is never announced.  The room manager first removes the
  socket from every room and then asks in which rooms it is, so its loop has nothing to do: the
  turn ends without an error, without a broadcast, and with the socket in no room.\<close>

theorem disconnect_not_announced:
  assumes "rm_ok (srv_roomManager (w_server (app_world a)))" and "nd_SocketServer (app_node a)"
  shows "\<exists>a'. roomManagerProcess E self (disconnect_message sk) a = Inr (None, a') \<and>
    app_broadcasts a' = app_broadcasts a \<and> Server_RoomsOf (sk_ID sk) (app_world a') = []"
proof -
  let ?w = "Server_LeaveAll (sk_ID sk) (app_world a)"
  let ?rm = "RoomManager_LeaveAllRooms (sk_ID sk) (srv_roomManager (w_server (app_world a)))"
  have ok: "rm_ok ?rm" using assms(1) by simp
  have "\<not> rm_member ?rm room (sk_ID sk)" for room
    using member_LeaveAll [OF assms(1), of "sk_ID sk" room "sk_ID sk"] by simp
  then have e: "Server_RoomsOf (sk_ID sk) ?w = []"
    using GetSocketRooms_set [OF ok, of "sk_ID sk"]
    by (simp add: Server_RoomsOf_def Server_LeaveAll_def upd_rooms_def upd_server_def)
  then have "roomManagerProcess E self (disconnect_message sk) a = Inr (None, a\<lparr>app_world := ?w\<rparr>)"
    using assms(2) by (simp add: roomManagerProcess_def process_message_type_def disconnect_message_def
        manager_disconnect_def must_string_def Let_def)
  then show ?thesis using e by simp
qed

theorem disconnect_not_announced_witness:
  "\<forall>E. \<exists>a'. roomManagerProcess E manager_ID (disconnect_message (SocketRef 0 ''s'')) chat_app = Inr (None, a') \<and>
     app_broadcasts a' = []"
  using disconnect_not_announced [of chat_app _ manager_ID "SocketRef 0 ''s''"] by auto

lemma manager_join_announces:
  assumes "gm_get d ''type'' = Some (GString ''room_join'')" and "gm_get d ''room'' = Some (GString room)"
    and "gm_get d ''socket'' = Some (GString i)" and "nd_SocketServer (app_node a)"
  shows "\<exists>a' n sks. roomManagerProcess E self (GMap d) a = Inr (None, a') \<and>
    app_broadcasts a' = app_broadcasts a @ [(room, ''system'', system_message joined_text room n, sks)] \<and>
    app_node a' = Node_Subscribe self room (app_node a)"
proof -
  let ?a1 = "a\<lparr>app_node := Node_Subscribe self room (app_node a)\<rparr>"
  obtain n sks where log: "app_broadcasts (announce E joined_text room ?a1) =
      app_broadcasts ?a1 @ [(room, ''system'', system_message joined_text room n, sks)]"
    using announce_log by blast
  obtain rs a3 where g: "getOrCreateRoom room (announce E joined_text room ?a1) = (rs, a3)" by fastforce
  then have a3: "app_node a3 = app_node ?a1" "app_broadcasts a3 = app_broadcasts (announce E joined_text room ?a1)"
    using getOrCreateRoom_simps [of room "announce E joined_text room ?a1"] by simp_all
  have "\<exists>a'. manager_join E self d a = Inr a' \<and> app_node a' = app_node ?a1 \<and>
      app_broadcasts a' = app_broadcasts (announce E joined_text room ?a1)"
    using g a3 assms(2,3)
    by (cases "Server_GetSocket i (app_world a3)") (auto simp: manager_join_def must_string_def Let_def)
  then show ?thesis using log assms(1,4) by (auto simp: roomManagerProcess_def process_message_type_def)
qed

text \<open>The turns of a process as long as there is a message for it.\<close>

fun process_turns :: "env \<Rightarrow> int \<Rightarrow> nat \<Rightarrow> nat \<Rightarrow> App \<Rightarrow> App run" where
  "process_turns E now p 0 a = Inr a"
| "process_turns E now p (Suc k) a =
     (case process_turn E now p a of
        None \<Rightarrow> Inr a
      | Some r \<Rightarrow> run_bind r (\<lambda>(err, a'). process_turns E now p k a'))"

definition join_message :: "string \<Rightarrow> Socket \<Rightarrow> gval \<Rightarrow> bool" where
  "join_message room sk m \<longleftrightarrow> (\<exists>d. m = GMap d \<and> gm_get d ''type'' = Some (GString ''room_join'') \<and>
     gm_get d ''room'' = Some (GString room) \<and> gm_get d ''socket'' = Some (GString (sk_ID sk)))"

lemma Node_Subscribe_frame [simp]:
  "nd_heap (Node_Subscribe i room n) = nd_heap n" "nd_processes (Node_Subscribe i room n) = nd_processes n"
  "nd_SocketServer (Node_Subscribe i room n) = nd_SocketServer n" "nd_ctxs (Node_Subscribe i room n) = nd_ctxs n"
  by (simp_all add: Node_Subscribe_def Let_def)

lemma process_turns_joins:
  assumes "pr_running (nd_heap (app_node a) p)" and "pr_Function (nd_heap (app_node a) p) = 0"
    and "nd_SocketServer (app_node a)" and "ch_buf (pr_mailbox (nd_heap (app_node a) p)) = ms"
    and "list_all (join_message room sk) ms" and "length ms \<le> k"
  shows "\<exists>a' L. process_turns E now p k a = Inr a' \<and> app_broadcasts a' = app_broadcasts a @ L \<and>
    length L = length ms \<and> list_all (\<lambda>(r, e, d, sks). r = room \<and> e = ''system'' \<and>
      (\<exists>n. d = system_message joined_text room n)) L"
  using assms
proof (induction ms arbitrary: a k)
  case Nil
  then have "ch_try_recv (pr_mailbox (nd_heap (app_node a) p)) = None" by simp
  then have "process_turn E now p a = None" by (simp add: process_turn_def proc_take_def del: ch_recv_None)
  then show ?case by (cases k) simp_all
next
  case (Cons m ms)
  then obtain j where k: "k = Suc j" "length ms \<le> j" by (cases k) auto
  obtain c where c: "ch_try_recv (pr_mailbox (nd_heap (app_node a) p)) = Some (m, c)" "ch_buf c = ms"
    using Cons.prems(4) by (simp add: ch_try_recv_def)
  let ?n = "upd_proc p (\<lambda>x. x\<lparr>pr_mailbox := c\<rparr>) (app_node a)"
  have take: "proc_take p (app_node a) = Some (m, ?n)" using c Cons.prems(1) by (simp add: proc_take_def)
  have n: "nd_SocketServer ?n" "pr_running (nd_heap ?n p)" "pr_Function (nd_heap ?n p) = 0"
      "ch_buf (pr_mailbox (nd_heap ?n p)) = ms"
    using Cons.prems(1-3) c(2) by (simp_all add: upd_proc_def)
  obtain d where d: "m = GMap d" "gm_get d ''type'' = Some (GString ''room_join'')"
      "gm_get d ''room'' = Some (GString room)" "gm_get d ''socket'' = Some (GString (sk_ID sk))"
    using Cons.prems(5) by (auto simp: join_message_def)
  obtain a1 x sks where a1: "roomManagerProcess E (pr_ID (nd_heap ?n p)) m (a\<lparr>app_node := ?n\<rparr>) = Inr (None, a1)"
      "app_broadcasts a1 = app_broadcasts a @ [(room, ''system'', system_message joined_text room x, sks)]"
      "app_node a1 = Node_Subscribe (pr_ID (nd_heap ?n p)) room ?n"
    using manager_join_announces [OF d(2-4), of "a\<lparr>app_node := ?n\<rparr>" E "pr_ID (nd_heap ?n p)"] n(1) d(1)
    by auto
  have "process_turn E now p a = Some (Inr (None, a1))" using take n(3) a1(1) by (simp add: process_turn_def)
  moreover obtain a' L where "process_turns E now p j a1 = Inr a'" "app_broadcasts a' = app_broadcasts a1 @ L"
      "length L = length ms" "list_all (\<lambda>(r, e, d, sks). r = room \<and> e = ''system'' \<and>
        (\<exists>n. d = system_message joined_text room n)) L"
    using Cons.IH [of a1 j] n a1(3) Cons.prems(5) k(2) by auto
  ultimately show ?case using k(1) a1(2)
    by (intro exI [of _ a'] exI [of _ "(room, ''system'', system_message joined_text room x, sks) # L"]) auto
qed

text \<open>The two closures the server has for \<open>join\<close>, in either order: the node's and \<open>main\<close>'s.\<close>

definition join_event ::
  "env \<Rightarrow> (gval \<Rightarrow> gerror + ChatMessage) \<Rightarrow> bool \<Rightarrow> Socket \<Rightarrow> gval \<Rightarrow> App \<Rightarrow> App" where
  "join_event E conv node_first sk data a =
     (if node_first then snd (chat_handler E conv 5 sk data (snd (chat_handler E conv 0 sk data a)))
      else snd (chat_handler E conv 0 sk data (snd (chat_handler E conv 5 sk data a))))"

lemma Server_Join_frame: "app_node (a\<lparr>app_world := w\<rparr>) = app_node a" by simp

text \<open>A join is announced once to a room for which the room manager has no subscription yet and
  twice ever after.  The manager subscribes to a room when it handles the first join; from then on
  both the node and \<open>main\<close>'s handler send it a message for each join, in either order, and it
  broadcasts "A user has joined the room" for each.\<close>

theorem joins_announced_twice:
  assumes "ready_process manager_ID 0 2 p (app_node a)" and "nd_SocketServer (app_node a)"
    and "room_targets (app_node a) room = (if subd then [p] else [])"
  shows "\<exists>a' L. process_turns E now p 2 (join_event E conv node_first sk (GString room) a) = Inr a' \<and>
    app_broadcasts a' = app_broadcasts a @ L \<and> length L = (if subd then 2 else 1) \<and>
    list_all (\<lambda>(r, e, d, sks). r = room \<and> e = ''system'' \<and> (\<exists>n. d = system_message joined_text room n)) L"
proof -
  let ?m0 = "room_message ''room_join'' room sk"
  let ?m5 = "GMap [(''type'', GString ''room_join''), (''socket'', GString (sk_ID sk)), (''room'', GString room), (''state'', GPtr 0)]"
  let ?a = "join_event E conv node_first sk (GString room) a"
  let ?ms = "if subd then (if node_first then [?m0, ?m5] else [?m5, ?m0]) else [?m5]"
  have j: "join_message room sk ?m0" "join_message room sk ?m5"
    by (simp_all add: join_message_def room_message_def)
  have targets: "room_targets (upd_proc p (\<lambda>x. x\<lparr>pr_mailbox := c\<rparr>) (app_node a)) room = room_targets (app_node a) room" for c
  proof -
    let ?n = "upd_proc p (\<lambda>x. x\<lparr>pr_mailbox := c\<rparr>) (app_node a)"
    have "pr_alive (nd_heap ?n q) = pr_alive (nd_heap (app_node a) q)" for q by (simp add: upd_proc_def)
    moreover have "nd_processes ?n = nd_processes (app_node a)"
      "nd_roomSubscriptions ?n = nd_roomSubscriptions (app_node a)" by (simp_all add: upd_proc_def)
    ultimately show ?thesis by (simp only: room_targets_def live_targets_def)
  qed
  have st: "app_broadcasts ?a = app_broadcasts a \<and> pr_running (nd_heap (app_node ?a) p) \<and>
      pr_Function (nd_heap (app_node ?a) p) = 0 \<and> nd_SocketServer (app_node ?a) \<and>
      ch_buf (pr_mailbox (nd_heap (app_node ?a) p)) = ?ms"
    using assms targets
    by (cases node_first; cases subd)
      (simp_all add: join_event_def chat_handler_def node_handler_def Node_handleRoomJoin_def
        processMessage_def Node_Send_def ready_process_def ch_try_send_def upd_proc_def app_Node_Send_def)
  have len: "length ?ms = (if subd then 2 else 1)" by simp
  have "\<exists>a' L. process_turns E now p 2 ?a = Inr a' \<and> app_broadcasts a' = app_broadcasts ?a @ L \<and>
      length L = length ?ms \<and> list_all (\<lambda>(r, e, d, sks). r = room \<and> e = ''system'' \<and>
        (\<exists>n. d = system_message joined_text room n)) L"
    by (rule process_turns_joins [of ?a p ?ms room sk]) (use st j in auto)
  then show ?thesis using st len by simp
qed

theorem joins_announced_twice_witness:
  "\<forall>E. \<exists>a' L. process_turns E 5 0 2 (join_event E (\<lambda>_. Inl ErrInvalidMessage) True (SocketRef 0 ''s'') (GString ''r'') chat_app) = Inr a' \<and>
     app_broadcasts a' = L \<and> length L = 1"
proof -
  have "ready_process manager_ID 0 2 0 (app_node chat_app)"
    using ready_process_less [OF chat_app_simps(1), of 2] by simp
  moreover have "room_targets (app_node chat_app) ''r'' = (if False then [0] else [])"
    by (simp add: room_targets_def live_targets_def)
  ultimately show ?thesis
    using joins_announced_twice [of 0 chat_app "''r''" False _ 5 "\<lambda>_. Inl ErrInvalidMessage" True "SocketRef 0 ''s''"]
    by auto
qed

end
