(* ===== verification/ChatSys.thy ===== *)
theory ChatSys
  imports ChatProps ServerSteps
begin

text \<open>
  The distributed chat as one system: the goroutines of the server, the closures of \<open>main\<close> and of the
  node, the two processes, the supervisor and the shutdown, in any order.  Messages between handlers
  and processes are maps that the processes take apart with type assertions, some of which panic.
  They are given types here, and no message of the wrong type is ever in a mailbox.
\<close>

section \<open>States and steps\<close>

text \<open>The application; the node's handlers that wait at a mailbox, with what they have still to send;
  the supervisor with the restarts its check has still to make.\<close>

record ChatSys =
  cs_app :: App
  cs_waiting :: "(nat \<times> gval) list list"
  cs_sup :: Supervisor
  cs_check :: "string list"

abbreviation cs_world :: "ChatSys \<Rightarrow> World" where
  "cs_world s \<equiv> app_world (cs_app s)"

abbreviation cs_node :: "ChatSys \<Rightarrow> Node" where
  "cs_node s \<equiv> app_node (cs_app s)"

text \<open>A step of the server that calls none of the application's closures, a closure up to the point where
  it returns or waits, a send it waited for, a turn of a process or the end of its goroutine, the
  supervisor, \<open>node.Stop\<close> of the shutdown.\<close>

inductive chstep :: "env \<Rightarrow> (gval \<Rightarrow> gerror + ChatMessage) \<Rightarrow> ChatSys \<Rightarrow> ChatSys \<Rightarrow> bool" for E conv where
  server: "wstep E (cs_world s) w \<Longrightarrow> w_calls w = w_calls (cs_world s) \<Longrightarrow>
    chstep E conv s (s\<lparr>cs_app := (cs_app s)\<lparr>app_world := w\<rparr>\<rparr>)"
| handler: "k < length (w_tasks (cs_world s)) \<Longrightarrow> w_tasks (cs_world s) ! k = TServer h sk d \<Longrightarrow>
    run_task E (TServer h sk d) (take_task k (cs_world s)) = Inr w \<Longrightarrow>
    chat_handler E conv h sk d ((cs_app s)\<lparr>app_world := w\<rparr>) = (rest, a) \<Longrightarrow>
    chstep E conv s (s\<lparr>cs_app := a, cs_waiting := cs_waiting s @ [rest]\<rparr>)"
| notify: "k < length (cs_waiting s) \<Longrightarrow> cs_waiting s ! k = (p, m) # ms \<Longrightarrow>
    ch_try_send m (pr_mailbox (nd_heap (cs_node s) p)) = Some c \<Longrightarrow>
    chstep E conv s (s\<lparr>cs_app := (cs_app s)\<lparr>app_node := upd_proc p (\<lambda>x. x\<lparr>pr_mailbox := c\<rparr>) (cs_node s)\<rparr>,
      cs_waiting := (cs_waiting s)[k := ms]\<rparr>)"
| turn: "process_turn E now p (cs_app s) = Some (Inr (r, a)) \<Longrightarrow> chstep E conv s (s\<lparr>cs_app := a\<rparr>)"
| exit: "p < nd_next (cs_node s) \<Longrightarrow> proc_exit p (cs_node s) = Some n \<Longrightarrow>
    chstep E conv s (s\<lparr>cs_app := (cs_app s)\<lparr>app_node := n\<rparr>\<rparr>)"
| check: "cs_check s = [] \<Longrightarrow> chstep E conv s (s\<lparr>cs_check := check_targets (cs_sup s) (cs_node s)\<rparr>)"
| restart: "cs_check s = i # ids \<Longrightarrow> Supervisor_restartProcess now i (cs_sup s, cs_node s) = (sv, n) \<Longrightarrow>
    chstep E conv s (s\<lparr>cs_app := (cs_app s)\<lparr>app_node := n\<rparr>, cs_sup := sv, cs_check := ids\<rparr>)"
| stop: "chstep E conv s (s\<lparr>cs_app := (cs_app s)\<lparr>app_node := Node_Stop (cs_node s)\<rparr>\<rparr>)"

abbreviation chreach :: "env \<Rightarrow> (gval \<Rightarrow> gerror + ChatMessage) \<Rightarrow> ChatSys \<Rightarrow> ChatSys \<Rightarrow> bool" where
  "chreach E conv \<equiv> reaches (chstep E conv)"

definition chat_start :: "App \<times> Supervisor \<Rightarrow> ChatSys" where
  "chat_start as = \<lparr>cs_app = fst as, cs_waiting = [], cs_sup = snd as, cs_check = []\<rparr>"

section \<open>Types of messages\<close>

text \<open>The fields a process reads from a message of each type, with the types it asserts.\<close>

definition has_string :: "(string \<times> gval) list \<Rightarrow> string \<Rightarrow> bool" where
  "has_string data k \<longleftrightarrow> (case gm_get data k of Some (GString _) \<Rightarrow> True | _ \<Rightarrow> False)"

definition fields_ok :: "string \<Rightarrow> (string \<times> gval) list \<Rightarrow> bool" where
  "fields_ok msgType data \<longleftrightarrow>
     (if msgType = ''room_join'' then has_string data ''room'' \<and> has_string data ''socket''
      else if msgType = ''room_leave'' then has_string data ''room''
      else if msgType = ''socket_disconnect'' then has_string data ''socket''
      else if msgType = ''chat_message''
      then (case gm_get data ''message'' of None \<Rightarrow> False | Some v \<Rightarrow> as_ChatMessage v \<noteq> None)
      else True)"

definition message_ok :: "gval \<Rightarrow> bool" where
  "message_ok v \<longleftrightarrow>
     (case v of
        GMap data \<Rightarrow> (case gm_get data ''type'' of Some (GString msgType) \<Rightarrow> fields_ok msgType data | _ \<Rightarrow> False)
      | _ \<Rightarrow> False)"

lemma message_ok_iff:
  "message_ok v \<longleftrightarrow> (\<exists>data ty. v = GMap data \<and> gm_get data ''type'' = Some (GString ty) \<and> fields_ok ty data)"
  by (auto simp: message_ok_def split: gval.splits option.splits)

lemma has_string_iff: "has_string data k \<longleftrightarrow> (\<exists>s. must_string data k = Inr s)"
  by (auto simp: has_string_def must_string_def split: option.splits gval.splits)

lemmas message_defs = message_ok_def fields_ok_def has_string_def

lemma sent_messages_ok [simp]:
  "message_ok (room_message ''room_join'' room sk)" "message_ok (room_message ''room_leave'' room sk)"
  "message_ok (disconnect_message sk)" "message_ok (chat_payload m)"
  "message_ok (GMap [(''type'', GString ''room_join''), (''socket'', GString i), (''room'', GString room), (''state'', GPtr q)])"
  "message_ok (GMap [(''type'', GString ''room_leave''), (''socket'', GString i), (''room'', GString room)])"
  by (simp_all add: message_defs room_message_def disconnect_message_def chat_payload_def)

section \<open>Progress: the processes on messages of the right type\<close>

text \<open>What a process function leaves of the application: the node but for its subscriptions, and a server
  that keeps its invariant.\<close>

definition keeps :: "App \<Rightarrow> App \<Rightarrow> bool" where
  "keeps a a' \<longleftrightarrow> (world_ok (app_world a) \<longrightarrow> world_ok (app_world a')) \<and>
     (app_node a' = app_node a \<or> (\<exists>i room. app_node a' = Node_Subscribe i room (app_node a)))"

lemma ok_app_broadcast: "world_ok (app_world a) \<Longrightarrow> world_ok (app_world (app_broadcast E room e d a))"
proof -
  have "world_ok w \<Longrightarrow> world_ok (fold (\<lambda>sk w. snd (sock_Send E (sk_addr sk) e d w)) sks w)" for sks w
    by (induction sks arbitrary: w) (auto intro: ok_sock_Send [OF _ surjective_pairing])
  then show "world_ok (app_world a) \<Longrightarrow> world_ok (app_world (app_broadcast E room e d a))"
    by (simp add: app_broadcast_def Let_def)
qed

lemma ok_announce: "world_ok (app_world a) \<Longrightarrow> world_ok (app_world (announce E txt room a))"
proof -
  obtain sks w where g: "Server_In room (app_world a) = (sks, w)" by fastforce
  assume "world_ok (app_world a)"
  then have "world_ok w" by (rule ok_wstep [OF wstep.api_in [OF g, of E]])
  then show ?thesis by (simp add: announce_def g ok_app_broadcast)
qed

lemma ok_app_send: "world_ok (app_world a) \<Longrightarrow> world_ok (app_world (app_send E sk e d a))"
  by (simp add: app_send_def ok_sock_Send [OF _ surjective_pairing])

lemma ok_announces: "world_ok (app_world a) \<Longrightarrow> world_ok (app_world (fold (announce E txt) rooms a))"
  by (induction rooms arbitrary: a) (simp_all add: ok_announce)

lemma announces_node: "app_node (fold (announce E txt) rooms a) = app_node a"
  by (induction rooms arbitrary: a) simp_all

lemma manager_join_progress:
  assumes "has_string data ''room''" and "has_string data ''socket''"
  shows "\<exists>a'. manager_join E self data a = Inr a' \<and> keeps a a'"
proof -
  obtain room i where f: "must_string data ''room'' = Inr room" "must_string data ''socket'' = Inr i"
    using assms by (auto simp: has_string_iff)
  let ?a1 = "a\<lparr>app_node := Node_Subscribe self room (app_node a)\<rparr>"
  let ?a2 = "announce E joined_text room ?a1"
  obtain rs a3 where g: "getOrCreateRoom room ?a2 = (rs, a3)" by fastforce
  have a3: "app_world a3 = app_world ?a2" "app_node a3 = app_node ?a1"
    using getOrCreateRoom_simps [of room ?a2] by (simp_all add: g)
  have "world_ok (app_world a) \<Longrightarrow> world_ok (app_world ?a2)" using ok_announce [of ?a1] by simp
  then show ?thesis using f g a3
    by (cases "Server_GetSocket i (app_world a3)")
      (auto simp: manager_join_def Let_def keeps_def intro!: ok_app_send)
qed

lemma manager_disconnect_progress:
  assumes "has_string data ''socket''"
  shows "\<exists>a'. manager_disconnect E data a = Inr a' \<and> keeps a a'"
  using assms by (auto simp: has_string_iff manager_disconnect_def Let_def keeps_def announces_node
      intro!: ok_announces ok_wstep [OF wstep.api_leave_all])

lemma keeps_announce: "keeps a (announce E txt room a)"
  by (simp add: keeps_def ok_announce)

lemma keeps_refl: "keeps a a"
  by (simp add: keeps_def)

lemma roomManager_progress:
  assumes "message_ok m" and "nd_SocketServer (app_node a)"
  shows "\<exists>a'. roomManagerProcess E self m a = Inr (None, a') \<and> keeps a a'"
proof -
  obtain data ty where m: "m = GMap data" "gm_get data ''type'' = Some (GString ty)" "fields_ok ty data"
    using assms(1) by (auto simp: message_ok_iff)
  have p: "process_message_type m a = Inr (ty, data)" using m assms(2) by (simp add: process_message_type_def)
  consider "ty = ''room_join''" | "ty = ''room_leave''" | "ty = ''socket_disconnect''"
    | "ty \<notin> {''room_join'', ''room_leave'', ''socket_disconnect''}" by auto
  then show ?thesis
  proof cases
    case 1
    then show ?thesis using m(3) manager_join_progress [of data E self a]
      by (auto simp: roomManagerProcess_def p fields_ok_def)
  next
    case 2
    then show ?thesis using m(3)
      by (auto simp: roomManagerProcess_def p fields_ok_def has_string_iff keeps_announce)
  next
    case 3
    then show ?thesis using m(3) manager_disconnect_progress [of data E a]
      by (auto simp: roomManagerProcess_def p fields_ok_def)
  qed (simp add: roomManagerProcess_def p keeps_refl)
qed

lemma chatMessage_progress:
  assumes "message_ok m" and "nd_SocketServer (app_node a)"
  shows "\<exists>a'. chatMessageProcess E now m a = Inr (None, a') \<and> keeps a a'"
proof -
  obtain data ty where m: "m = GMap data" "gm_get data ''type'' = Some (GString ty)" "fields_ok ty data"
    using assms(1) by (auto simp: message_ok_iff)
  have p: "process_message_type m a = Inr (ty, data)" using m assms(2) by (simp add: process_message_type_def)
  show ?thesis
  proof (cases "ty = ''chat_message''")
    case True
    then obtain v c where "gm_get data ''message'' = Some v" "as_ChatMessage v = Some c"
      using m(3) by (auto simp: fields_ok_def split: option.splits)
    then show ?thesis using True
      by (auto simp: chatMessageProcess_def p Let_def keeps_def intro: ok_app_broadcast)
  qed (simp add: chatMessageProcess_def p keeps_refl)
qed

section \<open>Preservation\<close>

text \<open>A node whose mailboxes hold messages of the right types, and that has its socket server.\<close>

definition typed :: "Node \<Rightarrow> bool" where
  "typed n \<longleftrightarrow> nd_SocketServer n \<and> (\<forall>p. list_all message_ok (ch_buf (pr_mailbox (nd_heap n p))))"

definition sends_ok :: "(nat \<times> gval) list \<Rightarrow> bool" where
  "sends_ok ms \<longleftrightarrow> list_all (\<lambda>(p, m). message_ok m) ms"

lemma typed_mailbox:
  "typed n \<Longrightarrow> list_all message_ok (ch_buf c) \<Longrightarrow> typed (upd_proc p (\<lambda>x. x\<lparr>pr_mailbox := c\<rparr>) n)"
  by (simp add: typed_def upd_proc_def)

lemma typed_try_send:
  "typed n \<Longrightarrow> message_ok m \<Longrightarrow> ch_try_send m (pr_mailbox (nd_heap n p)) = Some c \<Longrightarrow>
     typed (upd_proc p (\<lambda>x. x\<lparr>pr_mailbox := c\<rparr>) n)"
  by (rule typed_mailbox) (auto simp: ch_send_iff typed_def)

lemma typed_Send: "typed n \<Longrightarrow> message_ok m \<Longrightarrow> typed (snd (Node_Send i m n))"
  by (auto simp: Node_Send_def intro: typed_try_send split: option.split)

lemma typed_blocking_sends:
  "typed n \<Longrightarrow> sends_ok ms \<Longrightarrow> blocking_sends ms n = (rest, n') \<Longrightarrow> typed n' \<and> sends_ok rest"
proof (induction ms n rule: blocking_sends.induct)
  case (2 p m ms n)
  show ?case
  proof (cases "ch_try_send m (pr_mailbox (nd_heap n p))")
    case (Some c)
    then have "typed (upd_proc p (\<lambda>x. x\<lparr>pr_mailbox := c\<rparr>) n)"
      using 2(2,3) by (auto simp: sends_ok_def intro: typed_try_send)
    then show ?thesis using 2(1) [OF Some] 2(3,4) Some by (simp add: sends_ok_def)
  qed (use 2 in auto)
qed (simp add: sends_ok_def)

lemma typed_take: "typed n \<Longrightarrow> proc_take p n = Some (m, n') \<Longrightarrow> message_ok m \<and> typed n'"
proof -
  assume t: "typed n" and "proc_take p n = Some (m, n')"
  then obtain c where c: "ch_try_recv (pr_mailbox (nd_heap n p)) = Some (m, c)"
      and n': "n' = upd_proc p (\<lambda>x. x\<lparr>pr_mailbox := c\<rparr>) n"
    by (auto simp: proc_take_def split: if_splits option.splits)
  have b: "ch_buf (pr_mailbox (nd_heap n p)) = m # ch_buf c"
    using c by (auto simp: ch_try_recv_def split: list.splits)
  have "list_all message_ok (m # ch_buf c)" using t unfolding typed_def b [symmetric] by blast
  then show ?thesis using typed_mailbox [OF t] n' by simp
qed

lemma typed_flag: "typed n \<Longrightarrow> (\<And>x. pr_mailbox (g x) = pr_mailbox x) \<Longrightarrow> typed (upd_proc p g n)"
  by (simp add: typed_def upd_proc_def)

lemma typed_subscribe: "typed n \<Longrightarrow> typed (Node_Subscribe i room n)"
  by (simp add: typed_def)

lemma typed_start: "typed n \<Longrightarrow> typed (start_process i f sz c n)"
  by (simp add: typed_def start_process_def ctx_WithCancel_def)

lemma typed_stop_one: "typed n \<Longrightarrow> typed (stop_one e n)"
  by (simp add: typed_def) (simp add: stop_one_def Let_def cancel_process_def)

lemma typed_stop_fold: "typed n \<Longrightarrow> typed (fold stop_one es n)"
  by (induction es arbitrary: n) (simp_all add: typed_stop_one)

lemma typed_Stop: "typed n \<Longrightarrow> typed (Node_Stop n)"
  unfolding Node_Stop_def Let_def by (rule typed_stop_fold) (simp add: typed_def)

lemma typed_restart:
  "Supervisor_restartProcess now i (sv, n) = (sv', n') \<Longrightarrow> typed n \<Longrightarrow> typed n'"
  by (auto simp: Supervisor_restartProcess_def Let_def intro!: typed_start typed_stop_one
      split: if_splits option.splits)

lemma node_sends_ok:
  "sends_ok (Node_handleRoomJoin sk d n)" "sends_ok (Node_handleRoomLeave sk d n)"
  "sends_ok (Node_handleSocketDisconnect sk d n)"
  by (auto simp: sends_ok_def Node_handleRoomJoin_def Node_handleRoomLeave_def Node_handleSocketDisconnect_def
      list_all_iff split: option.splits)

text \<open>The closures: they send only messages of the right types and keep both invariants.\<close>

definition app_ok :: "nat \<Rightarrow> App \<Rightarrow> bool" where
  "app_ok c a \<longleftrightarrow> world_ok (app_world a) \<and> node_ok (app_node a) \<and> typed (app_node a) \<and> parent_ok (app_node a) c"

lemma app_ok_send: "app_ok c a \<Longrightarrow> app_ok c (app_send E sk e d a)"
  by (simp add: app_ok_def ok_app_send)

lemma app_ok_Node_Send: "app_ok c a \<Longrightarrow> message_ok m \<Longrightarrow> app_ok c (app_Node_Send i m a)"
  using ok_nstep [OF nstep.send [OF surjective_pairing]] parent_ok_nstep [OF nstep.send [OF surjective_pairing]]
  by (simp add: app_ok_def typed_Send)

lemma app_ok_world: "app_ok c a \<Longrightarrow> world_ok w \<Longrightarrow> app_ok c (a\<lparr>app_world := w\<rparr>)"
  by (simp add: app_ok_def)

lemma app_ok_join: "app_ok c a \<Longrightarrow> app_ok c (a\<lparr>app_world := Server_Join i room (app_world a)\<rparr>)"
  by (rule app_ok_world) (auto simp: app_ok_def intro: ok_wstep [OF wstep.api_join])

lemma app_ok_leave: "app_ok c a \<Longrightarrow> app_ok c (a\<lparr>app_world := Server_Leave i room (app_world a)\<rparr>)"
  by (rule app_ok_world) (auto simp: app_ok_def intro: ok_wstep [OF wstep.api_leave])

lemma app_ok_processMessage:
  assumes "app_ok c a"
  shows "app_ok c (processMessage E conv rm cp sk e d a)"
proof -
  have j: "app_ok c (if b then a\<lparr>app_world := Server_Join i room (app_world a)\<rparr> else a)"
    and l: "app_ok c (if b then a\<lparr>app_world := Server_Leave i room (app_world a)\<rparr> else a)" for b i room
    using assms by (simp_all add: app_ok_join app_ok_leave)
  consider "e = ''join''" | "e = ''leave''" | "e = ''chat''" | "e = ''get_rooms''"
    | "e \<notin> {''join'', ''leave'', ''chat'', ''get_rooms''}" by auto
  then show ?thesis
  proof cases
    case 1
    then show ?thesis using assms j
      by (cases "as_string d") (simp_all add: processMessage_def Let_def app_ok_send app_ok_Node_Send)
  next
    case 2
    then show ?thesis using assms l
      by (cases "as_string d") (simp_all add: processMessage_def Let_def app_ok_send app_ok_Node_Send)
  next
    case 3
    then show ?thesis using assms
      by (cases "conv d") (simp_all add: processMessage_def app_ok_Node_Send chat_payload_def [symmetric])
  qed (use assms in \<open>simp_all add: processMessage_def app_ok_send\<close>)
qed

lemma parent_ok_blocking_sends: "parent_ok n q \<Longrightarrow> parent_ok (snd (blocking_sends ms n)) q"
  by (induction ms n rule: blocking_sends.induct) (auto simp: parent_ok_upd split: option.split)

lemma parent_ok_subscribe: "parent_ok n q \<Longrightarrow> parent_ok (Node_Subscribe i room n) q"
  by (simp add: Node_Subscribe_def Let_def parent_ok_def)

lemma node_handler_ok:
  "node_handler ms a = (rest, a') \<Longrightarrow> app_ok c a \<Longrightarrow> sends_ok ms \<Longrightarrow> app_ok c a' \<and> sends_ok rest"
  using ok_blocking_sends [of "app_node a" ms] typed_blocking_sends [of "app_node a" ms]
    parent_ok_blocking_sends [of "app_node a" c ms]
  by (auto simp: node_handler_def app_ok_def split: prod.splits)

lemma handler_ok:
  "chat_handler E conv k sk d a = (rest, a') \<Longrightarrow> app_ok c a \<Longrightarrow> app_ok c a' \<and> sends_ok rest"
  using node_sends_ok node_handler_ok
  by (auto simp: chat_handler_def on_connect_def Let_def sends_ok_def [of "[]"]
      intro: app_ok_send app_ok_processMessage split: if_splits)

lemma keeps_ok: "keeps a a' \<Longrightarrow> app_ok c a \<Longrightarrow> app_ok c a'"
  by (auto simp: keeps_def app_ok_def typed_subscribe ok_Subscribe parent_ok_subscribe)

lemma turn_progress:
  assumes "app_ok c a" and "process_turn E now p a = Some r"
  shows "\<exists>a'. r = Inr (None, a') \<and> app_ok c a'"
proof -
  obtain m n where t: "proc_take p (app_node a) = Some (m, n)"
    and r: "r = (if pr_Function (nd_heap n p) = 0
       then roomManagerProcess E (pr_ID (nd_heap n p)) m (a\<lparr>app_node := n\<rparr>)
       else chatMessageProcess E now m (a\<lparr>app_node := n\<rparr>))"
    using assms(2) by (auto simp: process_turn_def split: option.splits)
  have "message_ok m" "typed n" using typed_take [OF _ t] assms(1) by (auto simp: app_ok_def)
  moreover have "node_ok n" "parent_ok n c"
    using t assms(1) by (auto simp: app_ok_def proc_take_def ch_try_recv_def ch_ok_def
        intro!: ok_mailbox parent_ok_upd split: if_splits option.splits list.splits)
  ultimately have a: "app_ok c (a\<lparr>app_node := n\<rparr>)" "nd_SocketServer (app_node (a\<lparr>app_node := n\<rparr>))"
    using assms(1) by (simp_all add: app_ok_def typed_def)
  show ?thesis
    using r roomManager_progress [OF \<open>message_ok m\<close> a(2)] chatMessage_progress [OF \<open>message_ok m\<close> a(2)]
      keeps_ok [OF _ a(1)] by (cases "pr_Function (nd_heap n p) = 0") (metis (no_types))+
qed

definition chat_ok :: "ChatSys \<Rightarrow> bool" where
  "chat_ok s \<longleftrightarrow> app_ok (sup_ctx (cs_sup s)) (cs_app s) \<and> list_all sends_ok (cs_waiting s)"

lemma list_all_update: "list_all P xs \<Longrightarrow> P x \<Longrightarrow> list_all P (xs[k := x])"
  by (auto simp: list_all_iff dest!: set_update_subset_insert [THEN subsetD])

lemma ok_chstep: "chstep E conv s s' \<Longrightarrow> chat_ok s \<Longrightarrow> chat_ok s'"
proof (induction rule: chstep.induct)
  case (server s w)
  then show ?case by (auto simp: chat_ok_def app_ok_def intro: ok_wstep)
next
  case (handler k s h sk d w rest a)
  have "app_ok (sup_ctx (cs_sup s)) ((cs_app s)\<lparr>app_world := w\<rparr>)"
    using handler(3,5) by (intro app_ok_world) (auto simp: chat_ok_def app_ok_def intro: ok_calls ok_take_task)
  from handler_ok [OF handler(4) this] handler(5) show ?case by (simp add: chat_ok_def)
next
  case (notify k s p m ms c)
  have "sends_ok ((p, m) # ms)"
    using notify(1,2,4) by (metis chat_ok_def list_all_length)
  then have "message_ok m" "sends_ok ms" by (simp_all add: sends_ok_def)
  then show ?case using notify
    by (auto simp: chat_ok_def app_ok_def intro!: ok_try_send typed_try_send parent_ok_upd list_all_update)
next
  case (turn now p s r a)
  from turn_progress [OF _ turn(1)] turn(2) show ?case by (auto simp: chat_ok_def)
next
  case (exit p s n)
  have "typed n" using exit(2,3)
    by (auto simp: chat_ok_def app_ok_def proc_exit_def intro!: typed_flag split: if_splits)
  then show ?case using ok_nstep [OF nstep.exit [OF exit(1,2)]] parent_ok_nstep [OF nstep.exit [OF exit(1,2)]] exit(3)
    by (simp add: chat_ok_def app_ok_def)
next
  case (restart s i ids now sv n)
  have ok: "sup_ok (cs_sup s, cs_node s)" using restart(3) by (simp add: chat_ok_def app_ok_def sup_ok_def)
  have "sup_ok (sv, n)" using ok_restart [OF ok, of now i] restart(2) by simp
  then show ?case using restart_frame(3) [OF restart(2)] typed_restart [OF restart(2)] restart(3)
    by (simp add: chat_ok_def app_ok_def sup_ok_def)
next
  case (stop s)
  then show ?case using parent_ok_nstep [OF nstep.stop]
    by (simp add: chat_ok_def app_ok_def ok_Stop typed_Stop)
qed (simp add: chat_ok_def)

interpretation chats: safe_system "chstep E conv" chat_ok for E conv
  by unfold_locales (rule ok_chstep)

section \<open>The processes never fail\<close>

lemma ok_HandleFuncs: "world_ok w \<Longrightarrow> world_ok (fold (\<lambda>(e, h). Server_HandleFunc e h) hs w)"
  by (induction hs arbitrary: w) (auto intro: ok_wstep [OF wstep.handle_func])

lemma typed_spawn_all: "spawn_all pss n = (r, n') \<Longrightarrow> typed n \<Longrightarrow> typed n'"
  by (induction pss arbitrary: n)
    (auto simp: Node_SpawnProcessWithID_def intro: typed_start split: if_splits sum.splits prod.splits)

lemma ok_chat_start:
  assumes "chat_main = Inr (Inr as)"
  shows "chat_ok (chat_start as)"
proof -
  let ?opts = "[WithPingInterval (25 * second), WithPingTimeout (5 * second), WithMaxConcurrency 1000,
      WithCompression True, WithBufferSize 4096]"
  let ?hs = "[(EventConnect, 3), (EventDisconnect, 4), (''join'', 5), (''leave'', 6), (''chat'', 7), (''get_rooms'', 8)]"
  obtain sv where s: "NewServer ?opts = Inr sv"
    using assms unfolding chat_main_def run_bind_Inr_iff by blast
  obtain n w where n: "NewNode ''chat-node'' [WithSocketServer True] (0, 1, 2) (new_world sv) = (n, w)" by fastforce
  obtain res n' where sup: "NewSupervisor 0 chat_supervisor_spec n = (res, n')" by fastforce
  note main = assms [unfolded chat_main_def s n sup run_bind_simps prod.case]
  obtain x where x: "res = Inr x" using main by (cases res) auto
  then have as: "snd as = x" "app_node (fst as) = n'"
      "app_world (fst as) = fold (\<lambda>(e, h). Server_HandleFunc e h) ?hs w"
    using main by auto
  note sup = sup [unfolded x, folded as(1)]
  have "node_ok n" using ok_NewNode [of _ _ _ "new_world sv"] n by (metis fst_conv)
  from NewSupervisor_ok [OF sup this] have "node_ok n'" "parent_ok n' (sup_ctx (snd as))" by auto
  moreover have "typed n"
    using n by (auto simp: NewNode_def ctx_WithCancel_def typed_def)
  then have "typed n'" using sup
    by (auto simp: NewSupervisor_def Let_def typed_def split: prod.splits option.splits dest!: typed_spawn_all)
  moreover have "world_ok (new_world sv)" by (rule ok_new_world [OF s])
  then have "world_ok w" using n
    by (auto simp: NewNode_def ctx_WithCancel_def Let_def intro!: ok_wstep [OF wstep.handle_func])
  ultimately show ?thesis using as(2) ok_HandleFuncs [of w ?hs] as(3)
    by (simp add: chat_start_def chat_ok_def app_ok_def)
qed

text \<open>C10. The processes of the chat never fail, whatever clients send and in whatever order handlers,
  processes, the supervisor, the server and the shutdown take their turns.  In every state the
  program reaches every mailbox holds only messages with the fields their type asks for, so in no turn of
  a process does one of its type assertions panic or its function return an error; and the server
  and the node keep their own invariants.\<close>

theorem chat_messages_well_typed:
  assumes "chat_main = Inr (Inr as)" and "chreach E conv (chat_start as) s"
  shows "list_all message_ok (ch_buf (pr_mailbox (nd_heap (cs_node s) p))) \<and>
    (case process_turn E now p (cs_app s) of None \<Rightarrow> True | Some r \<Rightarrow> \<exists>a. r = Inr (None, a)) \<and>
    world_ok (cs_world s) \<and> node_ok (cs_node s)"
proof -
  have ok: "chat_ok s" by (rule chats.reach_inv [OF assms(2) ok_chat_start [OF assms(1)]])
  then have a: "app_ok (sup_ctx (cs_sup s)) (cs_app s)" by (simp add: chat_ok_def)
  then have "typed (cs_node s)" by (simp add: app_ok_def)
  then show ?thesis using a turn_progress [OF a, of E now p]
    by (cases "process_turn E now p (cs_app s)") (auto simp: app_ok_def typed_def)
qed

lemma chat_main_result: "\<exists>as. chat_main = Inr (Inr as)"
  using chat_main_starts by blast

theorem chat_messages_well_typed_witness:
  "\<forall>E conv. \<exists>as s. chreach E conv (chat_start as) s \<and> cs_node s = Node_Stop (cs_node (chat_start as)) \<and>
     list_all message_ok (ch_buf (pr_mailbox (nd_heap (cs_node s) 0))) \<and> node_ok (cs_node s)"
proof (intro allI)
  fix E conv
  obtain as where m: "chat_main = Inr (Inr as)" using chat_main_result by blast
  let ?s = "(chat_start as)\<lparr>cs_app := (cs_app (chat_start as))\<lparr>app_node := Node_Stop (cs_node (chat_start as))\<rparr>\<rparr>"
  have r: "chreach E conv (chat_start as) ?s" by (rule reaches_one [where step = "chstep E conv", OF chstep.stop])
  from chat_messages_well_typed [OF m r, of 0 0] show "\<exists>as s. chreach E conv (chat_start as) s \<and>
      cs_node s = Node_Stop (cs_node (chat_start as)) \<and>
      list_all message_ok (ch_buf (pr_mailbox (nd_heap (cs_node s) 0))) \<and> node_ok (cs_node s)"
    using r by (intro exI [of _ as] exI [of _ ?s]) simp
qed

end
