(* ===== verification/SimpleChat.thy ===== *)
theory SimpleChat
  imports ServerProps
begin

text \<open>
  \<open>examples/chat/main.go\<close>: a chat over one server without rooms.  The four closures of \<open>main\<close> are
  numbered as they are registered; a goroutine of the server that calls one runs it on the world.
\<close>

section \<open>The handlers\<close>

record SimpleMessage =
  sm_Username :: string
  sm_Message :: string
  sm_Time :: "64 word"

definition simple_val :: "SimpleMessage \<Rightarrow> gval" where
  "simple_val m = GStruct ''ChatMessage'' [(''username'', GString (sm_Username m)),
     (''message'', GString (sm_Message m)), (''time'', GInt (sint (sm_Time m)))]"

definition online_message :: "string \<Rightarrow> World \<Rightarrow> gval" where
  "online_message txt w = GMap [(''message'', GString txt), (''online'', GInt (int (Server_Count w)))]"

text \<open>\<open>conv\<close>: \<open>json.Marshal\<close> followed by \<open>json.Unmarshal\<close> into a \<open>ChatMessage\<close>; \<open>now\<close>:
  \<open>time.Now().Unix()\<close>.\<close>

definition on_chat :: "(gval \<Rightarrow> gerror + SimpleMessage) \<Rightarrow> int \<Rightarrow> gval \<Rightarrow> World \<Rightarrow> World" where
  "on_chat conv now data w =
     (case conv data of
        Inl err \<Rightarrow> w
      | Inr message \<Rightarrow>
          (let m = (if sm_Time message = 0 then message\<lparr>sm_Time := word_of_int now\<rparr> else message)
           in Server_Broadcast ''chat'' (simple_val m) w))"

definition on_ping :: "env \<Rightarrow> Socket \<Rightarrow> gval \<Rightarrow> World \<Rightarrow> World" where
  "on_ping E sk data w = snd (sock_Send E (sk_addr sk) ''ping'' data w)"

definition simple_connect :: "env \<Rightarrow> Socket \<Rightarrow> World \<Rightarrow> World" where
  "simple_connect E sk w =
     (let w1 = Server_Broadcast ''system'' (online_message ''A user has joined the chat'' w) w
      in snd (sock_Send E (sk_addr sk) ''system''
           (online_message (''Welcome! You are connected with ID: '' @ sk_ID sk) w1) w1))"

definition left_text :: string where "left_text = ''A user has left the chat''"

definition simple_disconnect :: "World \<Rightarrow> World" where
  "simple_disconnect w = Server_Broadcast ''system'' (online_message left_text w) w"

definition simple_handler ::
  "env \<Rightarrow> (gval \<Rightarrow> gerror + SimpleMessage) \<Rightarrow> int \<Rightarrow> nat \<Rightarrow> Socket \<Rightarrow> gval \<Rightarrow> World \<Rightarrow> World" where
  "simple_handler E conv now k sk data w =
     (if k = 0 then on_chat conv now data w
      else if k = 1 then on_ping E sk data w
      else if k = 2 then simple_connect E sk w
      else if k = 3 then simple_disconnect w
      else w)"

text \<open>\<open>main\<close> up to the HTTP server.\<close>

definition simple_main :: "World run" where
  "simple_main =
     run_bind (NewServer [WithPingInterval (25 * second), WithPingTimeout (5 * second)])
       (\<lambda>s. Inr (fold (\<lambda>(e, h). Server_HandleFunc e h)
          [(''chat'', 0), (''ping'', 1), (EventConnect, 2), (EventDisconnect, 3)] (new_world s)))"

section \<open>Goroutines of the process\<close>

text \<open>A goroutine that calls a closure of \<open>main\<close> runs it; the others are those of the server.\<close>

fun chat_task :: "env \<Rightarrow> (gval \<Rightarrow> gerror + SimpleMessage) \<Rightarrow> int \<Rightarrow> task \<Rightarrow> World \<Rightarrow> World run" where
  "chat_task E conv now (TServer h sk d) w = Inr (simple_handler E conv now h sk d w)"
| "chat_task E conv now t w = run_task E t w"

text \<open>The next \<open>k\<close> goroutines, in the order in which they were started.\<close>

fun chat_tasks :: "env \<Rightarrow> (gval \<Rightarrow> gerror + SimpleMessage) \<Rightarrow> int \<Rightarrow> nat \<Rightarrow> World \<Rightarrow> World run" where
  "chat_tasks E conv now 0 w = Inr w"
| "chat_tasks E conv now (Suc k) w =
     (case w_tasks w of
        [] \<Rightarrow> Inr w
      | t # ts \<Rightarrow> run_bind (chat_task E conv now t (w\<lparr>w_tasks := ts\<rparr>)) (chat_tasks E conv now k))"

section \<open>What the participants see\<close>

text \<open>A chat message goes to everyone who is registered, the sender included, once each; one that
  does not convert goes to nobody.\<close>

lemma chat_to_everyone:
  "w_tasks (on_chat conv now data w) = w_tasks w @
     (case conv data of Inl _ \<Rightarrow> []
      | Inr m \<Rightarrow> map (\<lambda>sk. TSend sk ''chat'' (simple_val
          (if sm_Time m = 0 then m\<lparr>sm_Time := word_of_int now\<rparr> else m))) (gm_vals (srv_sockets (w_server w))))"
  by (simp add: on_chat_def Server_Broadcast_def spawn_def Let_def split: sum.split)

text \<open>A new participant is counted and greeted with everyone: the socket is registered before the
  handler runs.\<close>

lemma newcomer_hears_of_itself:
  "TSend sk ''system'' (online_message ''A user has joined the chat'' (Server_handleSocket sk w)) \<in>
     set (w_tasks (simple_connect E sk (Server_handleSocket sk w)))"
proof -
  have "sk \<in> set (gm_vals (srv_sockets (w_server (Server_handleSocket sk w))))"
    unfolding gm_vals_def by (auto simp: Server_handleSocket_def Let_def Server_triggerEvent_def
        intro!: image_eqI [of _ snd "(sk_ID sk, sk)"] map_of_SomeD)
  then show ?thesis
    by (auto simp: simple_connect_def Server_Broadcast_def Let_def sock_Send_def split: prod.split)
qed

text \<open>Everybody hears twice that a participant has left.  When the connection of a socket breaks,
  the receive loop and the \<open>Close\<close> it calls both start the disconnect closure of the server, each of
  them starts the chat's handler, and that broadcasts each time: every socket that remains is sent
  the same announcement twice.\<close>

theorem departure_announced_twice:
  assumes "si_connected (w_socks w a)" and "w_tasks w = []"
    and "handlers_of (si_handlers (w_socks w a)) EventDisconnect = [HDisconnect]"
    and "handlers_of (srv_handlers (w_server w)) EventDisconnect = [3]"
    and "others = gm_vals (gm_delete (si_id (w_socks w a)) (srv_sockets (w_server w)))"
    and "left = GMap [(''message'', GString left_text), (''online'', GInt (int (length others)))]"
  shows "\<exists>w'. chat_tasks E conv now 4 (sock_receive E a (Inl err) w) = Inr w' \<and>
    w_tasks w' = map (\<lambda>sk. TSend sk ''system'' left) others @ map (\<lambda>sk. TSend sk ''system'' left) others"
proof -
  let ?sk = "ref w a"
  let ?w0 = "sock_receive E a (Inl err) w"
  obtain gs b s where r: "SI_receive_step (env_codec E) (tr_Close E) (Inl err) (w_socks w a) = (gs, b, s)"
    by (metis prod_cases3)
  have gs: "gs = [(HDisconnect, GErr err), (HDisconnect, GNil)]"
    using receive_error_spawned [OF r] assms(1,3) by (simp add: SI_triggerEvent_def)
  have w0: "w_tasks ?w0 = [TSocket ?sk HDisconnect (GErr err), TSocket ?sk HDisconnect GNil]"
    "w_server ?w0 = w_server w"
    using r gs assms(2) by (simp_all add: sock_receive_def)
  let ?w1 = "run_disconnect ?sk (GErr err) (?w0\<lparr>w_tasks := [TSocket ?sk HDisconnect GNil]\<rparr>)"
  let ?w2 = "run_disconnect ?sk GNil (?w1\<lparr>w_tasks := [TServer 3 ?sk (GErr err)]\<rparr>)"
  have srv: "srv_handlers (w_server (run_disconnect sk d v)) = srv_handlers (w_server v)"
    "srv_sockets (w_server (run_disconnect sk d v)) = gm_delete (sk_ID sk) (srv_sockets (w_server v))"
    "w_tasks (run_disconnect sk d v) = w_tasks v @
       map (\<lambda>h. TServer h sk d) (handlers_of (srv_handlers (w_server v)) EventDisconnect)" for sk d v
    by (simp_all add: run_disconnect_def Let_def Server_LeaveAll_def upd_rooms_def Server_triggerEvent_def)
  have gone: "gm_delete i (gm_delete i m) = gm_delete i m" for i and m :: "(string, Socket) gomap"
    by (simp add: gm_delete_def)
  have sockets: "gm_vals (srv_sockets (w_server ?w2)) = others"
    using assms(5) w0(2) by (simp add: srv gone ref_def)
  have n: "gm_len (srv_sockets (w_server ?w2)) = length others"
    unfolding sockets [symmetric] by (simp add: gm_len_def gm_vals_def)
  have left: "online_message left_text v = left" if "srv_sockets (w_server v) = srv_sockets (w_server ?w2)" for v
    using that n assms(6) by (simp add: online_message_def Server_Count_def)
  let ?L = "map (\<lambda>sk. TSend sk ''system'' left) others"
  have bc: "simple_disconnect v = v\<lparr>w_tasks := w_tasks v @ ?L\<rparr>"
    if "srv_sockets (w_server v) = srv_sockets (w_server ?w2)" for v
    using that left [OF that] sockets by (simp add: simple_disconnect_def Server_Broadcast_def Let_def spawn_def)
  have t2: "w_tasks ?w2 = [TServer 3 ?sk (GErr err), TServer 3 ?sk GNil]"
    using assms(4) w0(2) by (simp add: srv)
  have "chat_tasks E conv now 4 ?w0 = chat_tasks E conv now 2 ?w2"
    using w0 assms(4) by (simp add: numeral_eq_Suc srv)
  also have "\<dots> = Inr (?w2\<lparr>w_tasks := ?L @ ?L\<rparr>)"
    using t2 by (simp add: numeral_eq_Suc simple_handler_def bc)
  finally show ?thesis by auto
qed

theorem departure_announced_twice_witness:
  "\<exists>w' left. chat_tasks demo_env (\<lambda>_. Inl ErrInvalidMessage) 0 4
     (sock_receive demo_env 0 (Inl ErrTimeout) (Server_handleSocket (SocketRef 7 ''t'')
       (Server_handleSocket (ref demo_connected 0) (Server_HandleFunc EventDisconnect 3 demo_connected)))) = Inr w' \<and>
     w_tasks w' = [TSend (SocketRef 7 ''t'') ''system'' left, TSend (SocketRef 7 ''t'') ''system'' left]"
proof -
  let ?w = "Server_handleSocket (SocketRef 7 ''t'')
       (Server_handleSocket (ref demo_connected 0) (Server_HandleFunc EventDisconnect 3 demo_connected))"
  have d: "si_connected (w_socks ?w 0)" "w_tasks ?w = []"
    "handlers_of (si_handlers (w_socks ?w 0)) EventDisconnect = [HDisconnect]"
    "handlers_of (srv_handlers (w_server ?w)) EventDisconnect = [3]"
    "gm_vals (gm_delete (si_id (w_socks ?w 0)) (srv_sockets (w_server ?w))) = [SocketRef 7 ''t'']"
    by (simp_all add: Server_handleSocket_def Let_def Server_triggerEvent_def forwarded_events_def ref_def
        demo_connected_simps Server_HandleFunc_def add_handler_def newSocketFromServerTransport_def
        handlers_of_def gm_put_def gm_keys_def gm_vals_def gm_delete_def event_defs SI_On_def)
  from departure_announced_twice [OF d(1-4) d(5) [symmetric] HOL.refl, of demo_env "\<lambda>_. Inl ErrInvalidMessage" 0 ErrTimeout]
  show ?thesis by auto
qed

end
