(* ===== verification/ExampleMain.thy ===== *)
theory ExampleMain
  imports ChatSys SimpleChat
begin

text \<open>
  The rest of the two example programs: the routes of their HTTP servers, the index page, and how the
  programs end.  What \<open>os.Stat\<close> answers is a parameter; serving a file is the name of the file.
\<close>

section \<open>Routes\<close>

text \<open>\<open>http.ServeMux\<close>: a pattern that ends in a slash matches every path it begins, any other only itself;
  of the patterns that match the longest wins.\<close>

definition pattern_matches :: "string \<Rightarrow> string \<Rightarrow> bool" where
  "pattern_matches pat path \<longleftrightarrow>
     (if pat \<noteq> [] \<and> last pat = CHR ''/'' then take (length pat) path = pat else path = pat)"

fun longest :: "(string \<times> 'a) list \<Rightarrow> (string \<times> 'a) option" where
  "longest [] = None"
| "longest (r # rs) =
     (case longest rs of None \<Rightarrow> Some r | Some r' \<Rightarrow> if length (fst r) < length (fst r') then Some r' else Some r)"

definition mux_route :: "(string \<times> 'a) list \<Rightarrow> string \<Rightarrow> 'a option" where
  "mux_route routes path = map_option snd (longest (filter (\<lambda>r. pattern_matches (fst r) path) routes))"

datatype endpoint = HandleHTTP | IndexFile

definition chat_routes :: "(string \<times> endpoint) list" where
  "chat_routes = [(''/socket'', HandleHTTP), (''/socket/'', HandleHTTP), (''/'', IndexFile)]"

definition simple_routes :: "(string \<times> endpoint) list" where
  "simple_routes = [(''/socket'', HandleHTTP), (''/socket/'', HandleHTTP), (''/'', IndexFile)]"

section \<open>The index page\<close>

datatype stat = StatFound | StatNotExist | StatError

datatype page = NotFoundPage | ErrorPage string nat | ServeFile string

definition StatusInternalServerError :: nat where "StatusInternalServerError = 500"

definition serveIndexFile :: "(string \<Rightarrow> stat) \<Rightarrow> string \<Rightarrow> page" where
  "serveIndexFile os_Stat path =
     (if path \<noteq> ''/'' then NotFoundPage
      else
        let indexPath = ''./examples/distributed-chat/index.html'' in
        if os_Stat indexPath = StatNotExist
        then (let indexPath = ''./index.html'' in
          if os_Stat indexPath = StatNotExist
          then ErrorPage ''Could not find index.html'' StatusInternalServerError
          else ServeFile indexPath)
        else ServeFile indexPath)"

definition simple_serveIndexFile :: "(string \<Rightarrow> stat) \<Rightarrow> string \<Rightarrow> page" where
  "simple_serveIndexFile os_Stat path =
     (if path \<noteq> ''/'' then NotFoundPage
      else
        let indexPath = ''./examples/chat/index.html'' in
        if os_Stat indexPath = StatNotExist
        then (let indexPath = ''./index.html'' in
          if os_Stat indexPath = StatNotExist
          then ErrorPage ''Could not find index.html'' StatusInternalServerError
          else ServeFile indexPath)
        else ServeFile indexPath)"

text \<open>A request to one of the programs: a page, or the answer of the socket server.\<close>

definition mux_serve ::
  "(string \<times> endpoint) list \<Rightarrow> (string \<Rightarrow> page) \<Rightarrow> env \<Rightarrow> request \<Rightarrow> (upgrader \<Rightarrow> upgrade) \<Rightarrow> bytes option \<Rightarrow> int \<Rightarrow>
     World \<Rightarrow> ((page + response) \<times> World) run" where
  "mux_serve routes index E rq upg rnd now w =
     (case mux_route routes (rq_path rq) of
        Some HandleHTTP \<Rightarrow>
          run_bind (Server_HandleHTTP E rq upg rnd now w) (\<lambda>(resp, w'). Inr (Inr resp, w'))
      | Some IndexFile \<Rightarrow> Inr (Inl (index (rq_path rq)), w)
      | None \<Rightarrow> Inr (Inl NotFoundPage, w))"

definition chat_request ::
  "env \<Rightarrow> (string \<Rightarrow> stat) \<Rightarrow> request \<Rightarrow> (upgrader \<Rightarrow> upgrade) \<Rightarrow> bytes option \<Rightarrow> int \<Rightarrow> World \<Rightarrow>
     ((page + response) \<times> World) run" where
  "chat_request E os_Stat = mux_serve chat_routes (serveIndexFile os_Stat) E"

definition simple_request ::
  "env \<Rightarrow> (string \<Rightarrow> stat) \<Rightarrow> request \<Rightarrow> (upgrader \<Rightarrow> upgrade) \<Rightarrow> bytes option \<Rightarrow> int \<Rightarrow> World \<Rightarrow>
     ((page + response) \<times> World) run" where
  "simple_request E os_Stat = mux_serve simple_routes (simple_serveIndexFile os_Stat) E"

lemma mux_chat:
  "path = CHR ''/'' # rest \<Longrightarrow> mux_route chat_routes path =
     Some (if path = ''/socket'' \<or> take 8 path = ''/socket/'' then HandleHTTP else IndexFile)"
  by (auto simp: mux_route_def chat_routes_def pattern_matches_def eval_nat_numeral)

text \<open>Of the paths the server knows only those below \<open>/socket\<close> get to it in the examples: the short
  forms \<open>/connect\<close>, \<open>/poll\<close>, \<open>/send\<close> and \<open>/disconnect\<close> are answered with "not found", so a
  long-polling client must have a base URL that ends in \<open>/socket\<close>.\<close>

lemma short_paths_not_found:
  assumes "rq_path rq \<in> {''/connect'', ''/poll'', ''/send'', ''/disconnect''}"
  shows "chat_request E os_Stat rq upg rnd now w = Inr (Inl NotFoundPage, w)"
  using assms by (auto simp: chat_request_def mux_serve_def mux_chat [OF refl] serveIndexFile_def)

lemma socket_paths_served:
  assumes "rq_path rq \<in> {''/socket'', ''/socket/connect'', ''/socket/poll'', ''/socket/send'', ''/socket/disconnect''}"
  shows "chat_request E os_Stat rq upg rnd now w =
    run_bind (Server_HandleHTTP E rq upg rnd now w) (\<lambda>(resp, w'). Inr (Inr resp, w'))"
  using assms by (auto simp: chat_request_def mux_serve_def mux_chat [OF refl])

section \<open>The end of the program\<close>

text \<open>The goroutine that waits for a signal, statement by statement, and \<open>main\<close>, which is in
  \<open>ListenAndServe\<close>.  As documented, that call returns \<open>ErrServerClosed\<close> as soon as \<open>Shutdown\<close> is
  called; the process ends when \<open>main\<close> returns, and when \<open>ListenAndServe\<close> fails with another error
  (\<open>log.Fatalf\<close>).\<close>

datatype sig_pos = SigWait | SigShutdown | SigDraining | SigStop | SigExit

record MainState =
  ms_sig :: sig_pos
  ms_node :: Node
  ms_ended :: bool

inductive main_step :: "MainState \<Rightarrow> MainState \<Rightarrow> bool" where
  signal: "\<not> ms_ended s \<Longrightarrow> ms_sig s = SigWait \<Longrightarrow> main_step s (s\<lparr>ms_sig := SigShutdown\<rparr>)"
| shutdown: "\<not> ms_ended s \<Longrightarrow> ms_sig s = SigShutdown \<Longrightarrow> main_step s (s\<lparr>ms_sig := SigDraining\<rparr>)"
| drained: "\<not> ms_ended s \<Longrightarrow> ms_sig s = SigDraining \<Longrightarrow> main_step s (s\<lparr>ms_sig := SigStop\<rparr>)"
| stop: "\<not> ms_ended s \<Longrightarrow> ms_sig s = SigStop \<Longrightarrow> main_step s (s\<lparr>ms_sig := SigExit, ms_node := Node_Stop (ms_node s)\<rparr>)"
| exit: "\<not> ms_ended s \<Longrightarrow> ms_sig s = SigExit \<Longrightarrow> main_step s (s\<lparr>ms_ended := True\<rparr>)"
| listen_fails: "\<not> ms_ended s \<Longrightarrow> main_step s (s\<lparr>ms_ended := True\<rparr>)"
| main_returns: "\<not> ms_ended s \<Longrightarrow> ms_sig s \<in> {SigDraining, SigStop, SigExit} \<Longrightarrow> main_step s (s\<lparr>ms_ended := True\<rparr>)"

definition main_start :: "Node \<Rightarrow> MainState" where
  "main_start n = \<lparr>ms_sig = SigWait, ms_node = n, ms_ended = False\<rparr>"

text \<open>The program can end before the node has been stopped: \<open>main\<close> returns while the goroutine is still in
  \<open>Shutdown\<close>.\<close>

lemma shutdown_races_with_exit:
  "\<exists>s. reaches main_step (main_start n) s \<and> ms_ended s \<and> ms_node s = n"
  "\<exists>s. reaches main_step (main_start n) s \<and> ms_ended s \<and> ms_node s = Node_Stop n"
proof -
  let ?s = "\<lambda>p. (main_start n)\<lparr>ms_sig := p\<rparr>"
  have s1: "main_step (main_start n) (?s SigShutdown)"
    by (rule main_step.signal) (simp_all add: main_start_def)
  have s2: "main_step (?s SigShutdown) (?s SigDraining)"
    using main_step.shutdown [of "?s SigShutdown"] by (simp add: main_start_def)
  have r: "reaches main_step (main_start n) (?s SigDraining)"
    by (rule reaches.step [where step = main_step, OF reaches_one [where step = main_step, OF s1] s2])
  have "main_step (?s SigDraining) (?s SigDraining\<lparr>ms_ended := True\<rparr>)"
    by (rule main_step.main_returns) (simp_all add: main_start_def)
  then have "reaches main_step (main_start n) (?s SigDraining\<lparr>ms_ended := True\<rparr>)"
    by (rule reaches.step [where step = main_step, OF r])
  then show "\<exists>s. reaches main_step (main_start n) s \<and> ms_ended s \<and> ms_node s = n"
    by (intro exI [of _ "?s SigDraining\<lparr>ms_ended := True\<rparr>"]) (simp add: main_start_def)
  have s3: "main_step (?s SigDraining) (?s SigStop)"
    using main_step.drained [of "?s SigDraining"] by (simp add: main_start_def)
  have s4: "main_step (?s SigStop) (?s SigExit\<lparr>ms_node := Node_Stop n\<rparr>)"
    using main_step.stop [of "?s SigStop"] by (simp add: main_start_def)
  have s5: "main_step (?s SigExit\<lparr>ms_node := Node_Stop n\<rparr>) (?s SigExit\<lparr>ms_node := Node_Stop n, ms_ended := True\<rparr>)"
    using main_step.exit [of "?s SigExit\<lparr>ms_node := Node_Stop n\<rparr>"] by (simp add: main_start_def)
  have "reaches main_step (main_start n) (?s SigExit\<lparr>ms_node := Node_Stop n, ms_ended := True\<rparr>)"
    by (rule reaches.step [where step = main_step, OF reaches.step [where step = main_step,
        OF reaches.step [where step = main_step, OF r s3] s4] s5])
  then show "\<exists>s. reaches main_step (main_start n) s \<and> ms_ended s \<and> ms_node s = Node_Stop n"
    by (intro exI [of _ "?s SigExit\<lparr>ms_node := Node_Stop n, ms_ended := True\<rparr>"]) simp
qed

end
