(* ===== verification/Debug.thy ===== *)
theory Debug
  imports Main
begin

text \<open>
  \<open>debug/debug.go\<close>: the flag that guards the diagnostic output, as read from the environment
  variable \<open>SOCKET_GO_DEBUG\<close>.  The rest of the code calls \<open>Printf\<close> only; what it prints is no part
  of the other models.
\<close>

text \<open>\<open>strconv.ParseBool\<close>; \<open>None\<close> is its error.\<close>

definition ParseBool :: "string \<Rightarrow> bool option" where
  "ParseBool s =
     (if s \<in> {''1'', ''t'', ''T'', ''TRUE'', ''true'', ''True''} then Some True
      else if s \<in> {''0'', ''f'', ''F'', ''FALSE'', ''false'', ''False''} then Some False
      else None)"

text \<open>\<open>init\<close>: the result of \<open>os.LookupEnv\<close> is \<open>None\<close> when the variable is not set.\<close>

definition debug_init :: "string option \<Rightarrow> bool" where
  "debug_init debugEnv =
     (case debugEnv of None \<Rightarrow> False
      | Some s \<Rightarrow> (case ParseBool s of None \<Rightarrow> False | Some val \<Rightarrow> val))"

text \<open>\<open>Printf\<close> on the lines logged so far.\<close>

definition debug_Printf :: "bool \<Rightarrow> string \<Rightarrow> string list \<Rightarrow> string list" where
  "debug_Printf enabled line out = (if enabled then out @ [line] else out)"

definition debug_Enable :: "bool \<Rightarrow> bool" where "debug_Enable enabled = True"
definition debug_Disable :: "bool \<Rightarrow> bool" where "debug_Disable enabled = False"

lemma debug_on_iff: "debug_init e \<longleftrightarrow> (\<exists>s. e = Some s \<and> ParseBool s = Some True)"
  by (auto simp: debug_init_def split: option.splits)

end
