(* ===== verification/Spec2Isabelle.thy ===== *)
theory Spec2Isabelle
  imports RoomThreads WSPump ServerProps Cluster ClientLocks ClientLoops RoomDelivery ReadDeadline ReceiveConcurrent LPPollers ExampleMain Debug
begin

text \<open>
  \<^bold>\<open>socket.go\<close>, a real-time messaging library in Go: a server that speaks WebSocket and HTTP
  long-polling with one session interface over both, rooms, a client with the same two
  transports, and actor-like processes (nodes, supervisors, clusters) above the server.

  \<^bold>\<open>The parts and how they work together.\<close>
  \<open>Server.HandleHTTP\<close> either upgrades a request to a WebSocket or answers it as a poll of a session.
  Both kinds of connection are a \<open>ServerTransport\<close>; over it \<open>NewSocket\<close> builds the \<open>socketImpl\<close> whose
  receive loop turns frames into handler goroutines.  The server keeps sockets, sessions and the
  \<open>RoomManager\<close>, which keeps rooms and their members.  A \<open>Node\<close> registers handlers on the server that
  forward room events to the mailboxes of its processes; a \<open>Supervisor\<close> restarts processes of a node.
  A \<open>Client\<close> drives a \<open>Transport\<close> of its own.  The chat example joins server, node and supervisor.

  \<^bold>\<open>Theories and code.\<close>
  \<^item> Prelude: Go maps as association lists with distinct keys (\<open>gomap\<close>), pointers into stores,
    results of a run (\<open>run\<close>: a value, a panic, a deadlock), errors of the code as values of a sum,
    \<open>reaches\<close> for the states a step relation leads to, and the locales \<open>finite_map\<close>,
    \<open>subscriptions\<close>, \<open>safe_system\<close> and \<open>terminating_system\<close>.
  \<^item> GoSync, GoContext: channels with a buffer, \<open>sync.RWMutex\<close> and \<open>context\<close>, as far as the code
    uses them.
  \<^item> SocketTypes (\<open>socket/socket.go\<close>), Utils (\<open>socket/utils.go\<close>): events, messages, errors, dynamic
    values (\<open>gval\<close> for \<open>interface\<close> values); identifiers.
  \<^item> WorkerPool, Room, RoomThreads (\<open>socket/room.go\<close>): the producer and the workers of
    \<open>BroadcastParallel\<close> as interleaved steps; every operation of \<open>Room\<close> and \<open>RoomManager\<close> over a store
    of rooms; the critical sections of \<open>JoinRoom\<close>, \<open>LeaveRoom\<close> and \<open>LeaveAllRooms\<close> interleaved.
  \<^item> ServerTransport, WSPump (\<open>socket/transport/server_transport.go\<close>): both server transports; the
    goroutines of the WebSocket one (\<open>writePump\<close>, \<open>Write\<close>, \<open>Close\<close>) as interleaved steps.
  \<^item> SocketImpl (\<open>socket/socket_impl.go\<close>): the server side of a connection over any server transport.
  \<^item> Server, ServerSteps, ServerProps (\<open>socket/server.go\<close>): every operation on a \<open>World\<close> of server, socket
    store, goroutines that are still to run and disconnect channels; requests, goroutines, receive
    loops and ticks in any order (\<open>wstep\<close>); the properties.  ReadDeadline: what of a connection no
    operation of the server changes, above all its read deadline.
  \<^item> Node, NodeSteps, NodeProps, NodeSys, Supervisor, SupervisorSys, Cluster
    (\<open>socket/distributed/node.go\<close>): processes with mailboxes and contexts, subscriptions, the handlers of
    socket events; the node's invariant; its lock with goroutines that wait for each other;
    supervisors with their restart window, and their checks and restarts among the operations of the
    node; clusters, remote calls and load-balanced groups.
  \<^item> ClientTransport, WSTransport, LPTransport (\<open>socket/transport/websocket.go\<close>, \<open>longpolling.go\<close>): the
    client's transports, \<open>ReceiveConcurrent\<close> excepted, which is in the theory ReceiveConcurrent; LPPollers:
    the goroutines of \<open>poll\<close> with the operations of their transport, in any order.
  \<^item> Client, ClientProps, ClientLocks, ClientLoops (\<open>socket/client.go\<close>): every operation with its calls on the client's
    mutex, for one goroutine; the operations of many goroutines interleaved on the mutex, each
    shown to make the calls of its list (\<open>client_calls\<close>); the loops of a connected client with the
    callers of its methods, in any order, over any transport.
  \<^item> EndToEnd, RoomDelivery: client and server composed over both transports; a broadcast to a room
    followed from the call to the handlers of the members' clients.
  \<^item> ChatApp, ChatProps, ChatSys (\<open>examples/distributed-chat/main.go\<close>): the chat server's processes and
    handlers over the models of server, node and supervisor, then all of it as one system (\<open>chstep\<close>);
    SimpleChat (\<open>examples/chat/main.go\<close>): the handlers of the chat without rooms; ExampleMain: the
    routes and index pages of both programs and the shutdown of the chat server; Debug (\<open>debug/debug.go\<close>): the flag of the diagnostic output.

  \<^bold>\<open>What is shown.\<close>
  \<^item> Invariants of every reachable state: server (\<open>server_invariant\<close>), node (\<open>node_invariant\<close>), rooms under
    all interleavings (\<open>room_invariant_all_interleavings\<close>), nodes with supervisors
    (\<open>supervisor_idle_without_kills\<close>), the chat history (\<open>chat_history_last_100\<close>).
  \<^item> Types: the messages in the mailboxes of the chat have the fields and types that the processes
    assert, in every state of the program, so no process fails (\<open>chat_messages_well_typed\<close>).
  \<^item> Refinement and equivalence: the room manager implements a relation of rooms and members; the
    restart tracker of a supervisor decides as a reference over the list of earlier restarts; a turn
    of the write pump, a check of a supervisor and an undisturbed room operation are runs of the
    finer steps (\<open>pump_turn_steps\<close>, \<open>check_as_steps\<close>).
  \<^item> Delivery: broadcasts reach each member once in every interleaving, write pump, mailboxes,
    long-polling queues and client batches keep the order and lose nothing, \<open>ReceiveConcurrent\<close> handles
    each message once and ends; a batch of the client reaches the handlers of the server's socket, and
    what the server sends reaches the client's handlers, also when it is a broadcast to a room.  What
    a client's loops write is what its callers had accepted, in order; what a long-polling client
    receives is what it has fetched.
  \<^item> Lifecycle: disconnect, cleanup, \<open>Kill\<close>, \<open>Stop\<close> and the supervisors' strategies change what they
    name and nothing else; reconnect's attempts and waits are bounded.
  \<^item> What goes wrong, as theorems: panics (a second disconnect message of a poll), fatal errors
    (\<open>Connect\<close> of the client, and with it \<open>reconnect\<close>), deadlocks (\<open>Join\<close> of the client, the write pump's
    own \<open>Close\<close>, a node whose mailbox is full), lost joins, processes started in a stopped node, a
    poller that survives its session, connections that end after 30 seconds, and messages a client
    cannot decode.

  \<^bold>\<open>Interfaces.\<close>
  The locales \<open>server_transport\<close> and \<open>client_transport\<close> state what the code relies on in the two
  transport interfaces and are interpreted on both implementations of each and on their sum type;
  \<open>subscriptions\<close> is the contract shared by room manager and node; \<open>finite_map\<close> and \<open>bounded_fifo\<close> those of
  maps and channels; \<open>message_writer\<close> says of a client transport that only its sends write, and
  \<open>constant_of_transport\<close> that an observation of a server transport never changes; \<open>safe_system\<close> and \<open>terminating_system\<close> give reachability, bounds on runs and
  arrival to the step relations (worker pool, \<open>ReceiveConcurrent\<close>, rooms, write pump, server, node,
  supervisors, pollers, the chat).

  \<^bold>\<open>Bounds.\<close>
  There is no fuel.  Loops are structural or step relations whose measure decreases.  Where
  arithmetic of the code can wrap around, its integers are 64-bit words and the statements bound
  them: delays of \<open>reconnect\<close> below 2^62 ns, so that doubling does not wrap, sums of weights below
  2^63, and the counter of identifiers, whose suffix is constant for the first 2^48.  Times,
  configured limits and counts of things in memory are integers or naturals.

  \<^bold>\<open>Parameters.\<close>
  The JSON codec, the answers of the WebSocket connection and of the HTTP client, the handshake and
  the upgrade (which see the settings, addresses and headers they are given), the reader of random
  bytes, the clock, \<open>rand.Intn\<close> and \<open>os.Stat\<close> are arguments of the definitions that use them.
  What is assumed of the codec (a decoded encoding is the message) is a hypothesis where it is used.

  \<^bold>\<open>Not modelled, and why.\<close>
  \<^item> The bodies of third-party and library code: framing and compression of the WebSocket library, HTTP
    itself, JSON, files.  They are parameters, or a log of the calls made on them.
  \<^item> Log lines and the examples' port flag, which do not touch the state.  What the cluster's loops
    print is modelled; \<open>Monitor\<close> registers nothing.
  \<^item> A server step is one operation; the interleavings inside operations are those of RoomThreads,
    WSPump, WorkerPool, NodeSys, SupervisorSys, ReceiveConcurrent, LPPollers, ClientLocks and ClientLoops.
    The step relation allows more
    than the code: a receive loop may take a step after it has ended, so a property of all
    reachable states holds of the code.  Handlers of the application are recorded calls, except
    in ChatApp and SimpleChat.
\<close>

end
